(* ===== verification/Skvs_Prelude.thy ===== *)
theory Skvs_Prelude
  imports Main "HOL-Library.AList" "HOL-Library.Word" "HOL-Library.Multiset"
begin

text \<open>
  The prelude of the development: the error type of \<^verbatim>\<open>src/src/error.rs\<close>, the results
  and the state-passing computations every component uses, insertion-ordered maps, and the
  generic list and string helpers. The collections \<open>outcome_simps\<close> (results and
  computations) and \<open>alist_simps\<close> (maps as association lists) carry most component proofs.
\<close>

named_theorems outcome_simps "results and state-passing computations"
named_theorems alist_simps "maps as association lists"

type_synonym i64 = "64 word"
type_synonym u64 = "64 word"
type_synonym u32 = "32 word"
type_synonym bytes = "8 word list"

section \<open>Errors and results\<close>

text \<open>The error enum of the engine; every variant carries its rendered message.\<close>

datatype skvs_error =
    EConfig string
  | EIo string
  | ESerialization string
  | ESqlParse string
  | EConstraintViolation string
  | EUnsupported string
  | ETransaction string
  | ESchema string
  | EStorage string
  | ETrigger string
  | EView string
  | EJson string
  | EFts string

text \<open>
  The result of a piece of the program: a value (\<open>Ok\<close>), an \<open>Err\<close>, a panic of the
  standard library, or \<open>NoFuel\<close> when the bound on the depth of trigger cascades was
  reached (in the program: unbounded recursion).
\<close>

datatype 'a outcome = Done 'a | Fail skvs_error | Panic | NoFuel

fun obind :: "'a outcome \<Rightarrow> ('a \<Rightarrow> 'b outcome) \<Rightarrow> 'b outcome" where
  "obind (Done x) f = f x"
| "obind (Fail e) f = Fail e"
| "obind Panic f = Panic"
| "obind NoFuel f = NoFuel"

lemma obind_cong [fundef_cong]:
  "m = m' \<Longrightarrow> (\<And>x. m' = Done x \<Longrightarrow> f x = f' x) \<Longrightarrow> obind m f = obind m' f'"
  by (cases m') auto

lemma obind_Done_iff [outcome_simps]:
  "obind m f = Done y \<longleftrightarrow> (\<exists>x. m = Done x \<and> f x = Done y)"
  by (cases m) auto

lemma obind_assoc: "obind (obind m f) g = obind m (\<lambda>x. obind (f x) g)"
  by (cases m) auto

fun is_done :: "'a outcome \<Rightarrow> bool" where
  "is_done (Done x) = True"
| "is_done _ = False"

lemma is_done_iff: "is_done m \<longleftrightarrow> (\<exists>x. m = Done x)"
  by (cases m) auto

lemma is_done_bind [intro]:
  "is_done m \<Longrightarrow> (\<And>x. m = Done x \<Longrightarrow> is_done (f x)) \<Longrightarrow> is_done (obind m f)"
  by (cases m) auto

fun omap :: "('a \<Rightarrow> 'b outcome) \<Rightarrow> 'a list \<Rightarrow> 'b list outcome" where
  "omap f [] = Done []"
| "omap f (x # xs) = obind (f x) (\<lambda>y. obind (omap f xs) (\<lambda>ys. Done (y # ys)))"

lemma omap_cong [fundef_cong]:
  "xs = ys \<Longrightarrow> (\<And>x. x \<in> set ys \<Longrightarrow> f x = g x) \<Longrightarrow> omap f xs = omap g ys"
  by (induction ys arbitrary: xs) auto

text \<open>Filtering with a predicate that may panic, as \<open>Iterator::filter\<close> over a closure.\<close>

fun ofilter :: "('a \<Rightarrow> bool outcome) \<Rightarrow> 'a list \<Rightarrow> 'a list outcome" where
  "ofilter p [] = Done []"
| "ofilter p (x # xs) =
     obind (p x) (\<lambda>b. obind (ofilter p xs) (\<lambda>ys. Done (if b then x # ys else ys)))"

lemma omap_Done:
  "(\<And>x. x \<in> set xs \<Longrightarrow> f x = Done (g x)) \<Longrightarrow> omap f xs = Done (map g xs)"
  by (induction xs) auto

lemma ofilter_Done:
  "(\<And>x. x \<in> set xs \<Longrightarrow> p x = Done (q x)) \<Longrightarrow> ofilter p xs = Done (filter q xs)"
  by (induction xs) auto

lemma ofilter_DoneD:
  "ofilter p xs = Done ys \<Longrightarrow> ys = filter (\<lambda>x. p x = Done True) xs"
proof (induction xs arbitrary: ys)
  case Nil
  then show ?case by simp
next
  case (Cons x xs)
  then obtain b zs where "p x = Done b" "ofilter p xs = Done zs"
    "ys = (if b then x # zs else zs)"
    by (auto simp: outcome_simps)
  with Cons.IH show ?case by auto
qed

lemma ofilter_Done_all:
  "ofilter p xs = Done ys \<Longrightarrow> x \<in> set xs \<Longrightarrow> \<exists>b. p x = Done b"
  by (induction xs arbitrary: ys) (auto simp: outcome_simps)

section \<open>Computations over a state\<close>

text \<open>
  A handler of the program: from the state to a result and the state it leaves, on every
  outcome (an \<open>Err\<close> leaves the writes made before it).
\<close>

type_synonym ('s, 'a) exec = "'s \<Rightarrow> 'a outcome \<times> 's"

definition eret :: "'a \<Rightarrow> ('s, 'a) exec" where
  "eret x = (\<lambda>s. (Done x, s))"

definition efail :: "skvs_error \<Rightarrow> ('s, 'a) exec" where
  "efail e = (\<lambda>s. (Fail e, s))"

definition ebind :: "('s, 'a) exec \<Rightarrow> ('a \<Rightarrow> ('s, 'b) exec) \<Rightarrow> ('s, 'b) exec" where
  "ebind m f = (\<lambda>s. case m s of
       (Done x, s') \<Rightarrow> f x s'
     | (Fail e, s') \<Rightarrow> (Fail e, s')
     | (Panic, s') \<Rightarrow> (Panic, s')
     | (NoFuel, s') \<Rightarrow> (NoFuel, s'))"

definition eget :: "('s \<Rightarrow> 'a) \<Rightarrow> ('s, 'a) exec" where
  "eget f = (\<lambda>s. (Done (f s), s))"

definition emodify :: "('s \<Rightarrow> 's) \<Rightarrow> ('s, unit) exec" where
  "emodify f = (\<lambda>s. (Done (), f s))"

text \<open>A pure (possibly failing) step as a computation; the state is read, not written.\<close>

definition elift :: "('s \<Rightarrow> 'a outcome) \<Rightarrow> ('s, 'a) exec" where
  "elift f = (\<lambda>s. (f s, s))"

fun eiter :: "('a \<Rightarrow> ('s, unit) exec) \<Rightarrow> 'a list \<Rightarrow> ('s, unit) exec" where
  "eiter f [] = eret ()"
| "eiter f (x # xs) = ebind (f x) (\<lambda>_. eiter f xs)"

lemmas exec_defs = eret_def efail_def ebind_def eget_def emodify_def elift_def

lemma eret_app [outcome_simps]: "eret x s = (Done x, s)"
  and efail_app [outcome_simps]: "efail e s = (Fail e, s)"
  and eget_app [outcome_simps]: "eget f s = (Done (f s), s)"
  and emodify_app [outcome_simps]: "emodify g s = (Done (), g s)"
  and elift_app [outcome_simps]: "elift h s = (h s, s)"
  by (simp_all add: exec_defs)

lemma ebind_app [outcome_simps]:
  "m s = (Done x, s') \<Longrightarrow> ebind m f s = f x s'"
  "m s = (Fail e, s') \<Longrightarrow> ebind m f s = (Fail e, s')"
  "m s = (Panic, s') \<Longrightarrow> ebind m f s = (Panic, s')"
  "m s = (NoFuel, s') \<Longrightarrow> ebind m f s = (NoFuel, s')"
  by (simp_all add: ebind_def)

lemma ebind_DoneE:
  assumes "ebind m f s = (Done y, s'')"
  obtains x s' where "m s = (Done x, s')" "f x s' = (Done y, s'')"
  using assms by (auto simp: ebind_def split: prod.splits outcome.splits)

text \<open>
  The Hoare-style rule for a relation between the states before and after, whatever the
  outcome: reflexive and composed along the sequence.
\<close>

definition keeps :: "('s \<Rightarrow> 's \<Rightarrow> bool) \<Rightarrow> ('s, 'a) exec \<Rightarrow> bool" where
  "keeps R m \<longleftrightarrow> (\<forall>s. R s (snd (m s)))"

lemma keepsI: "(\<And>s r s'. m s = (r, s') \<Longrightarrow> R s s') \<Longrightarrow> keeps R m"
  unfolding keeps_def by (metis prod.collapse)

lemma keepsD: "keeps R m \<Longrightarrow> m s = (r, s') \<Longrightarrow> R s s'"
  unfolding keeps_def by (metis snd_conv)

text \<open>A unary invariant kept by a computation, on every outcome.\<close>

definition inv_keeps :: "('s \<Rightarrow> bool) \<Rightarrow> ('s, 'a) exec \<Rightarrow> bool" where
  "inv_keeps P m \<longleftrightarrow> (\<forall>s. P s \<longrightarrow> P (snd (m s)))"

lemma inv_keepsI: "(\<And>s r s'. P s \<Longrightarrow> m s = (r, s') \<Longrightarrow> P s') \<Longrightarrow> inv_keeps P m"
  unfolding inv_keeps_def by (metis prod.collapse)

lemma inv_keepsD: "inv_keeps P m \<Longrightarrow> P s \<Longrightarrow> m s = (r, s') \<Longrightarrow> P s'"
  unfolding inv_keeps_def by (metis snd_conv)

lemma inv_keeps_basic [intro, simp]:
  "inv_keeps P (eret x)" "inv_keeps P (efail e)" "inv_keeps P (eget g)"
  "inv_keeps P (elift h)"
  by (simp_all add: inv_keeps_def exec_defs)

lemma inv_keeps_bind [intro]:
  assumes "inv_keeps P m" and "\<And>x. inv_keeps P (f x)"
  shows "inv_keeps P (ebind m f)"
  using assms unfolding inv_keeps_def ebind_def
  by (fastforce split: prod.splits outcome.splits)

lemma inv_keeps_iter [intro]:
  "(\<And>x. x \<in> set xs \<Longrightarrow> inv_keeps P (f x)) \<Longrightarrow> inv_keeps P (eiter f xs)"
  by (induction xs) auto

section \<open>Insertion-ordered maps\<close>

text \<open>
  An \<open>IndexMap\<close> is an association list with distinct keys: \<open>insert\<close> keeps the position
  of an existing key and appends a new one (\<open>AList.update\<close>), \<open>shift_remove\<close> keeps the
  order of the rest (\<open>AList.delete\<close>), \<open>get\<close> is \<open>map_of\<close>. The concurrent hash maps
  of the state are association lists too; their iteration order is a parameter of the model.
\<close>

definition entry_or_insert :: "'k \<Rightarrow> 'v \<Rightarrow> ('k \<times> 'v) list \<Rightarrow> ('k \<times> 'v) list" where
  "entry_or_insert k v m = (case map_of m k of None \<Rightarrow> AList.update k v m | Some _ \<Rightarrow> m)"

definition contains_key :: "('k \<times> 'v) list \<Rightarrow> 'k \<Rightarrow> bool" where
  "contains_key m k \<longleftrightarrow> map_of m k \<noteq> None"

abbreviation wf_alist :: "('k \<times> 'v) list \<Rightarrow> bool" where
  "wf_alist m \<equiv> distinct (map fst m)"

lemma map_of_update [simp, alist_simps]:
  "map_of (AList.update k v m) = (map_of m)(k \<mapsto> v)"
  by (simp add: update_conv')

lemma map_of_delete [simp, alist_simps]:
  "map_of (AList.delete k m) = (map_of m)(k := None)"
  by (simp add: delete_conv')

lemma wf_alist_update [simp, intro]: "wf_alist m \<Longrightarrow> wf_alist (AList.update k v m)"
  by (rule distinct_update)

lemma wf_alist_delete [simp, intro]: "wf_alist m \<Longrightarrow> wf_alist (AList.delete k m)"
  by (rule distinct_delete)

lemma map_of_entry_or_insert [alist_simps]:
  "map_of (entry_or_insert k v m) =
     (case map_of m k of None \<Rightarrow> (map_of m)(k \<mapsto> v) | Some _ \<Rightarrow> map_of m)"
  by (simp add: entry_or_insert_def split: option.splits)

lemma wf_alist_entry_or_insert [simp, intro]:
  "wf_alist m \<Longrightarrow> wf_alist (entry_or_insert k v m)"
  by (auto simp: entry_or_insert_def split: option.splits)

lemma keys_delete [simp]: "fst ` set (AList.delete k m) = fst ` set m - {k}"
  by (auto simp: AList.delete_eq)

lemma set_map_of: "wf_alist m \<Longrightarrow> (k, v) \<in> set m \<longleftrightarrow> map_of m k = Some v"
  by (simp add: map_of_eq_Some_iff)

lemma map_of_mset_eq:
  "wf_alist xs \<Longrightarrow> mset ys = mset xs \<Longrightarrow> map_of ys = map_of xs"
proof -
  assume wf: "wf_alist xs" and eq: "mset ys = mset xs"
  then have s: "set ys = set xs" by (metis set_mset_mset)
  have "mset (map fst ys) = mset (map fst xs)" using eq by simp
  then have "wf_alist ys" using wf by (metis mset_eq_imp_distinct_iff)
  then show ?thesis
    by (intro map_of_inject_set [THEN iffD2]) (use wf s in auto)
qed

section \<open>Decimal rendering, list and string helpers\<close>

definition digit_char :: "nat \<Rightarrow> char" where
  "digit_char d = char_of (48 + d)"

function show_uint :: "int \<Rightarrow> string" where
  "show_uint n =
     (if n < 10 then [digit_char (nat n)] else show_uint (n div 10) @ [digit_char (nat (n mod 10))])"
  by pat_completeness auto
termination
  by (relation "measure nat") auto

declare show_uint.simps [simp del]

definition show_int :: "int \<Rightarrow> string" where
  "show_int i = (if i < 0 then CHR ''-'' # show_uint (- i) else show_uint i)"

definition char_val :: "char \<Rightarrow> nat" where
  "char_val c = of_char c"

definition is_digit :: "char \<Rightarrow> bool" where
  "is_digit c \<longleftrightarrow> 48 \<le> char_val c \<and> char_val c \<le> 57"

definition digit_val :: "char \<Rightarrow> int" where
  "digit_val c = int (char_val c) - 48"

definition digits_val :: "string \<Rightarrow> int" where
  "digits_val ds = foldl (\<lambda>n c. 10 * n + digit_val c) 0 ds"

text \<open>\<open>str::parse\<close> for a signed and an unsigned 64-bit integer.\<close>

definition parse_digits :: "string \<Rightarrow> int option" where
  "parse_digits s = (if s \<noteq> [] \<and> list_all is_digit s then Some (digits_val s) else None)"

definition parse_i64 :: "string \<Rightarrow> i64 option" where
  "parse_i64 s =
     (let (neg, ds) = (case s of [] \<Rightarrow> (False, [])
                       | c # cs \<Rightarrow> if c = CHR ''-'' then (True, cs)
                                   else if c = CHR ''+'' then (False, cs) else (False, s))
      in case parse_digits ds of
           None \<Rightarrow> None
         | Some n \<Rightarrow> (let i = (if neg then - n else n)
                     in if - (2 ^ 63) \<le> i \<and> i < 2 ^ 63 then Some (word_of_int i) else None))"

definition parse_usize :: "string \<Rightarrow> nat option" where
  "parse_usize s =
     (let ds = (case s of [] \<Rightarrow> [] | c # cs \<Rightarrow> if c = CHR ''+'' then cs else s)
      in case parse_digits ds of
           None \<Rightarrow> None
         | Some n \<Rightarrow> (if n < 2 ^ 64 then Some (nat n) else None))"

text \<open>\<open>to_lowercase\<close> and \<open>to_uppercase\<close> on the ASCII range.\<close>

definition lower_char :: "char \<Rightarrow> char" where
  "lower_char c = (if 65 \<le> char_val c \<and> char_val c \<le> 90 then char_of (char_val c + 32) else c)"

definition upper_char :: "char \<Rightarrow> char" where
  "upper_char c = (if 97 \<le> char_val c \<and> char_val c \<le> 122 then char_of (char_val c - 32) else c)"

abbreviation to_lowercase :: "string \<Rightarrow> string" where
  "to_lowercase \<equiv> map lower_char"

abbreviation to_uppercase :: "string \<Rightarrow> string" where
  "to_uppercase \<equiv> map upper_char"

definition is_whitespace :: "char \<Rightarrow> bool" where
  "is_whitespace c \<longleftrightarrow> char_val c = 32 \<or> (9 \<le> char_val c \<and> char_val c \<le> 13)"

definition trim_start :: "string \<Rightarrow> string" where
  "trim_start s = dropWhile is_whitespace s"

definition trim_end :: "string \<Rightarrow> string" where
  "trim_end s = rev (dropWhile is_whitespace (rev s))"

definition trim :: "string \<Rightarrow> string" where
  "trim s = trim_end (trim_start s)"

fun join :: "string \<Rightarrow> string list \<Rightarrow> string" where
  "join sep [] = []"
| "join sep [x] = x"
| "join sep (x # y # xs) = x @ sep @ join sep (y # xs)"

text \<open>\<open>str::split\<close> on one character.\<close>

fun split_char :: "char \<Rightarrow> string \<Rightarrow> string list" where
  "split_char c [] = [[]]"
| "split_char c (x # xs) =
     (if x = c then [] # split_char c xs
      else (case split_char c xs of [] \<Rightarrow> [[x]] | w # ws \<Rightarrow> (x # w) # ws))"

definition starts_with :: "string \<Rightarrow> string \<Rightarrow> bool" where
  "starts_with s p \<longleftrightarrow> take (length p) s = p"

text \<open>\<open>str::replace\<close>: left to right, without overlaps; an empty pattern matches between
  all characters.\<close>

fun replace_ne :: "nat \<Rightarrow> string \<Rightarrow> string \<Rightarrow> string \<Rightarrow> string" where
  "replace_ne skip pat to [] = []"
| "replace_ne (Suc skip) pat to (x # xs) = replace_ne skip pat to xs"
| "replace_ne 0 pat to (x # xs) =
     (if starts_with (x # xs) pat then to @ replace_ne (length pat - 1) pat to xs
      else x # replace_ne 0 pat to xs)"

definition str_replace :: "string \<Rightarrow> string \<Rightarrow> string \<Rightarrow> string" where
  "str_replace s pat to =
     (if pat = [] then to @ concat (map (\<lambda>c. c # to) s) else replace_ne 0 pat to s)"

text \<open>\<open>hex::encode\<close>: two lower-case digits a byte.\<close>

definition hex_digit :: "nat \<Rightarrow> char" where
  "hex_digit d = (if d < 10 then char_of (48 + d) else char_of (87 + d))"

definition hex_encode :: "bytes \<Rightarrow> string" where
  "hex_encode bs = concat (map (\<lambda>b. [hex_digit (unat b div 16), hex_digit (unat b mod 16)]) bs)"

text \<open>The bytes of a text (ASCII, see the root theory's header) and back.\<close>

definition str_bytes :: "string \<Rightarrow> bytes" where
  "str_bytes s = map (\<lambda>c. word_of_nat (char_val c)) s"

definition bytes_str :: "bytes \<Rightarrow> string" where
  "bytes_str b = map (\<lambda>w. char_of (unat w)) b"

lemma bytes_str_bytes [simp]: "bytes_str (str_bytes s) = s"
proof (induction s)
  case Nil
  then show ?case by (simp add: bytes_str_def str_bytes_def)
next
  case (Cons c s)
  have "(of_char c :: nat) < 256" using of_char_mod_256 [of c] by (metis mod_less_divisor zero_less_numeral)
  then have "unat (word_of_nat (of_char c) :: 8 word) = of_char c"
    by (simp add: unat_word_ariths unat_of_nat)
  with Cons show ?case by (simp add: bytes_str_def str_bytes_def char_val_def)
qed

end
