(* ===== verification/Skvs_Float.thy ===== *)
theory Skvs_Float
  imports Complex_Main Skvs_Prelude
begin

text \<open>
  The \<open>f64\<close> of the language: an IEEE 754 binary64 value given by the number it stands for.
  A finite value other than negative zero is its exact rational value, so comparison and the
  laws of the operations are those of the rationals, followed by one rounding
  (\<open>round64\<close>, round half to even) wherever the hardware rounds. Signed zeros, infinities
  and NaN are values of their own. Decimal parsing and the two renderings used by the
  program (\<open>{}\<close> and \<open>{:?}\<close>, both shortest round-trip) are at the end.
\<close>

datatype f64 = FNaN | FInf bool | FNegZero | FFin rat

section \<open>Rounding\<close>

definition round_half_even :: "rat \<Rightarrow> int" where
  "round_half_even r =
     (let f = \<lfloor>r\<rfloor>; d = r - of_int f in
      if d < 1 / 2 then f else if 1 / 2 < d then f + 1 else if even f then f else f + 1)"

function ilog2 :: "int \<Rightarrow> nat" where
  "ilog2 n = (if n < 2 then 0 else Suc (ilog2 (n div 2)))"
  by pat_completeness auto
termination
  by (relation "measure nat") auto

declare ilog2.simps [simp del]

definition pow2 :: "int \<Rightarrow> rat" where
  "pow2 k = (if 0 \<le> k then 2 ^ nat k else 1 / 2 ^ nat (- k))"

text \<open>The binary exponent of a positive rational: \<open>pow2 e \<le> r < pow2 (e + 1)\<close>.\<close>

definition rlog2 :: "rat \<Rightarrow> int" where
  "rlog2 r =
     (let (n, d) = quotient_of r; k = int (ilog2 n) - int (ilog2 d)
      in if pow2 k \<le> r then k else k - 1)"

text \<open>
  The binary64 value nearest to a magnitude \<open>r \<ge> 0\<close>, with the given sign: the spacing at
  \<open>r\<close> is \<open>pow2 e\<close> with 53 bits of precision above \<open>2 ^ -1074\<close>.
\<close>

definition round64 :: "bool \<Rightarrow> rat \<Rightarrow> f64" where
  "round64 neg r =
     (if r = 0 then (if neg then FNegZero else FFin 0)
      else let e = max (rlog2 r - 52) (- 1074);
               v = of_int (round_half_even (r / pow2 e)) * pow2 e
           in if pow2 1024 \<le> v then FInf neg
              else if v = 0 then (if neg then FNegZero else FFin 0)
              else FFin (if neg then - v else v))"

section \<open>Classification, sign, comparison\<close>

fun f64_is_nan :: "f64 \<Rightarrow> bool" where
  "f64_is_nan FNaN = True"
| "f64_is_nan _ = False"

fun f64_sign :: "f64 \<Rightarrow> bool" where
  "f64_sign FNaN = False"
| "f64_sign (FInf s) = s"
| "f64_sign FNegZero = True"
| "f64_sign (FFin r) = (r < 0)"

fun f64_fin :: "f64 \<Rightarrow> rat option" where
  "f64_fin FNegZero = Some 0"
| "f64_fin (FFin r) = Some r"
| "f64_fin _ = None"

datatype ordering = Less | Equal | Greater

definition cmp_of :: "'a::linorder \<Rightarrow> 'a \<Rightarrow> ordering" where
  "cmp_of a b = (if a < b then Less else if a = b then Equal else Greater)"

fun ord_reverse :: "ordering \<Rightarrow> ordering" where
  "ord_reverse Less = Greater"
| "ord_reverse Equal = Equal"
| "ord_reverse Greater = Less"

text \<open>\<open>partial_cmp\<close>: no order exactly where a NaN is involved.\<close>

fun f64_partial_cmp :: "f64 \<Rightarrow> f64 \<Rightarrow> ordering option" where
  "f64_partial_cmp FNaN _ = None"
| "f64_partial_cmp _ FNaN = None"
| "f64_partial_cmp (FInf s) (FInf t) =
     Some (if s = t then Equal else if s then Less else Greater)"
| "f64_partial_cmp (FInf s) _ = Some (if s then Less else Greater)"
| "f64_partial_cmp _ (FInf t) = Some (if t then Greater else Less)"
| "f64_partial_cmp a b = Some (cmp_of (the (f64_fin a)) (the (f64_fin b)))"

definition f64_eq :: "f64 \<Rightarrow> f64 \<Rightarrow> bool" where
  "f64_eq a b \<longleftrightarrow> f64_partial_cmp a b = Some Equal"

section \<open>Arithmetic\<close>

fun f64_neg :: "f64 \<Rightarrow> f64" where
  "f64_neg FNaN = FNaN"
| "f64_neg (FInf s) = FInf (\<not> s)"
| "f64_neg FNegZero = FFin 0"
| "f64_neg (FFin r) = (if r = 0 then FNegZero else FFin (- r))"

definition f64_abs :: "f64 \<Rightarrow> f64" where
  "f64_abs a = (if f64_sign a then f64_neg a else a)"

definition zero_of :: "bool \<Rightarrow> f64" where
  "zero_of neg = (if neg then FNegZero else FFin 0)"

definition f64_add :: "f64 \<Rightarrow> f64 \<Rightarrow> f64" where
  "f64_add a b = (case (a, b) of
       (FNaN, _) \<Rightarrow> FNaN
     | (_, FNaN) \<Rightarrow> FNaN
     | (FInf s, FInf t) \<Rightarrow> (if s = t then FInf s else FNaN)
     | (FInf s, _) \<Rightarrow> FInf s
     | (_, FInf t) \<Rightarrow> FInf t
     | (FNegZero, FNegZero) \<Rightarrow> FNegZero
     | _ \<Rightarrow> (let s = the (f64_fin a) + the (f64_fin b) in round64 (s < 0) \<bar>s\<bar>))"

definition f64_sub :: "f64 \<Rightarrow> f64 \<Rightarrow> f64" where
  "f64_sub a b = f64_add a (f64_neg b)"

definition f64_mul :: "f64 \<Rightarrow> f64 \<Rightarrow> f64" where
  "f64_mul a b =
     (let s = (f64_sign a \<noteq> f64_sign b) in
      if f64_is_nan a \<or> f64_is_nan b then FNaN
      else (case (f64_fin a, f64_fin b) of
          (Some x, Some y) \<Rightarrow> round64 s (\<bar>x\<bar> * \<bar>y\<bar>)
        | (Some x, None) \<Rightarrow> (if x = 0 then FNaN else FInf s)
        | (None, Some y) \<Rightarrow> (if y = 0 then FNaN else FInf s)
        | (None, None) \<Rightarrow> FInf s))"

definition f64_div :: "f64 \<Rightarrow> f64 \<Rightarrow> f64" where
  "f64_div a b =
     (let s = (f64_sign a \<noteq> f64_sign b) in
      if f64_is_nan a \<or> f64_is_nan b then FNaN
      else (case (f64_fin a, f64_fin b) of
          (Some x, Some y) \<Rightarrow> (if y = 0 then (if x = 0 then FNaN else FInf s)
                               else round64 s (\<bar>x\<bar> / \<bar>y\<bar>))
        | (Some x, None) \<Rightarrow> zero_of s
        | (None, Some y) \<Rightarrow> FInf s
        | (None, None) \<Rightarrow> FNaN))"

definition rat_trunc :: "rat \<Rightarrow> int" where
  "rat_trunc r = (if r < 0 then - \<lfloor>- r\<rfloor> else \<lfloor>r\<rfloor>)"

text \<open>\<open>%\<close>: the remainder of the truncated quotient, with the sign of the dividend; exact.\<close>

definition f64_rem :: "f64 \<Rightarrow> f64 \<Rightarrow> f64" where
  "f64_rem a b =
     (if f64_is_nan a \<or> f64_is_nan b then FNaN
      else (case (f64_fin a, f64_fin b) of
          (Some x, Some y) \<Rightarrow>
             (if y = 0 then FNaN
              else let r = x - of_int (rat_trunc (x / y)) * y
                   in if r = 0 then zero_of (f64_sign a) else FFin r)
        | (Some x, None) \<Rightarrow> a
        | (None, _) \<Rightarrow> FNaN))"

text \<open>\<open>fract\<close>, that is \<open>x - x.trunc()\<close>.\<close>

fun f64_fract :: "f64 \<Rightarrow> f64" where
  "f64_fract FNegZero = FFin 0"
| "f64_fract (FFin r) = FFin (r - of_int (rat_trunc r))"
| "f64_fract _ = FNaN"

text \<open>\<open>round\<close>: halves away from zero.\<close>

fun f64_round :: "f64 \<Rightarrow> f64" where
  "f64_round (FFin r) =
     (let m = \<lfloor>\<bar>r\<bar> + 1 / 2\<rfloor> in
      if m = 0 then zero_of (r < 0) else FFin (if r < 0 then - of_int m else of_int m))"
| "f64_round a = a"

text \<open>The conversions: \<open>i as f64\<close> rounds, \<open>f as i64\<close> truncates and saturates.\<close>

definition f64_of_int :: "int \<Rightarrow> f64" where
  "f64_of_int i = round64 (i < 0) (of_int \<bar>i\<bar>)"

definition f64_of_i64 :: "i64 \<Rightarrow> f64" where
  "f64_of_i64 w = f64_of_int (sint w)"

fun f64_to_i64 :: "f64 \<Rightarrow> i64" where
  "f64_to_i64 FNaN = 0"
| "f64_to_i64 (FInf s) = (if s then word_of_int (- (2 ^ 63)) else word_of_int (2 ^ 63 - 1))"
| "f64_to_i64 FNegZero = 0"
| "f64_to_i64 (FFin r) = word_of_int (max (- (2 ^ 63)) (min (2 ^ 63 - 1) (rat_trunc r)))"

text \<open>\<open>powi\<close>: square and multiply, the reciprocal at the end for a negative exponent.\<close>

fun f64_powi_loop :: "nat \<Rightarrow> f64 \<Rightarrow> nat \<Rightarrow> f64 \<Rightarrow> f64" where
  "f64_powi_loop 0 a n r = r"
| "f64_powi_loop (Suc k) a n r =
     (let r' = (if odd n then f64_mul r a else r); n' = n div 2
      in if n' = 0 then r' else f64_powi_loop k (f64_mul a a) n' r')"

definition f64_powi :: "f64 \<Rightarrow> int \<Rightarrow> f64" where
  "f64_powi a n =
     (let r = f64_powi_loop 32 a (nat \<bar>n\<bar>) (FFin 1)
      in if n < 0 then f64_div (FFin 1) r else r)"

section \<open>Decimal rendering and parsing\<close>

definition pow10 :: "int \<Rightarrow> rat" where
  "pow10 k = (if 0 \<le> k then 10 ^ nat k else 1 / 10 ^ nat (- k))"

function ilog10 :: "int \<Rightarrow> nat" where
  "ilog10 n = (if n < 10 then 0 else Suc (ilog10 (n div 10)))"
  by pat_completeness auto
termination
  by (relation "measure nat") auto

declare ilog10.simps [simp del]

definition rlog10 :: "rat \<Rightarrow> int" where
  "rlog10 r =
     (let (n, d) = quotient_of r; k = int (ilog10 n) - int (ilog10 d)
      in if pow10 k \<le> r then k else k - 1)"

text \<open>
  The shortest decimal \<open>m * 10 ^ (k - n + 1)\<close> with \<open>n\<close> digits that rounds back to the value,
  the nearest one where two do; 17 digits always suffice.
\<close>

definition dec_candidate :: "rat \<Rightarrow> int \<Rightarrow> nat \<Rightarrow> int option" where
  "dec_candidate v k n =
     (let scale = pow10 (k - int n + 1); x = v / scale; lo = \<lfloor>x\<rfloor>; hi = lo + 1;
          ok = (\<lambda>m. round64 False (of_int m * scale) = FFin v)
      in if ok lo \<and> ok hi then Some (round_half_even x)
         else if ok lo then Some lo else if ok hi then Some hi else None)"

fun dec_search :: "nat \<Rightarrow> rat \<Rightarrow> int \<Rightarrow> nat \<Rightarrow> nat \<times> int" where
  "dec_search 0 v k n = (n, round_half_even (v / pow10 (k - int n + 1)))"
| "dec_search (Suc fuel) v k n =
     (case dec_candidate v k n of Some m \<Rightarrow> (n, m) | None \<Rightarrow> dec_search fuel v k (Suc n))"

text \<open>Digits and decimal exponent: the value is \<open>0.d1d2d3... * 10 ^ p\<close>.\<close>

definition strip_zeros :: "string \<Rightarrow> string" where
  "strip_zeros s = rev (dropWhile (\<lambda>c. c = CHR ''0'') (rev s))"

definition dec_digits :: "rat \<Rightarrow> string \<times> int" where
  "dec_digits v =
     (let k = rlog10 v; (n, m) = dec_search 16 v k 1
      in (strip_zeros (show_uint m), (if 10 ^ n \<le> m then k + 2 else k + 1)))"

definition zeros :: "int \<Rightarrow> string" where
  "zeros n = replicate (nat n) (CHR ''0'')"

definition show_decimal :: "bool \<Rightarrow> string \<Rightarrow> int \<Rightarrow> string" where
  "show_decimal point ds p =
     (let n = int (length ds) in
      if p \<le> 0 then ''0.'' @ zeros (- p) @ ds
      else if n \<le> p then ds @ zeros (p - n) @ (if point then ''.0'' else [])
      else take (nat p) ds @ ''.'' @ drop (nat p) ds)"

definition show_exp :: "string \<Rightarrow> int \<Rightarrow> string" where
  "show_exp ds p =
     take 1 ds @ (if length ds \<le> 1 then [] else ''.'' @ drop 1 ds) @ ''e'' @ show_int (p - 1)"

text \<open>\<open>{}\<close>: never an exponent.\<close>

fun show_f64 :: "f64 \<Rightarrow> string" where
  "show_f64 FNaN = ''NaN''"
| "show_f64 (FInf s) = (if s then ''-inf'' else ''inf'')"
| "show_f64 FNegZero = ''-0''"
| "show_f64 (FFin r) =
     (if r = 0 then ''0''
      else (if r < 0 then ''-'' else []) @ (let (ds, p) = dec_digits \<bar>r\<bar> in show_decimal False ds p))"

text \<open>\<open>{:?}\<close>: always a point or an exponent, the latter outside \<open>[1e-4, 1e16)\<close>.\<close>

fun debug_f64 :: "f64 \<Rightarrow> string" where
  "debug_f64 FNaN = ''NaN''"
| "debug_f64 (FInf s) = (if s then ''-inf'' else ''inf'')"
| "debug_f64 FNegZero = ''-0.0''"
| "debug_f64 (FFin r) =
     (if r = 0 then ''0.0''
      else (if r < 0 then ''-'' else []) @
           (let (ds, p) = dec_digits \<bar>r\<bar> in
            if \<bar>r\<bar> < 1 / 10000 \<or> 10 ^ 16 \<le> \<bar>r\<bar> then show_exp ds p else show_decimal True ds p))"

text \<open>\<open>str::parse::<f64>\<close>: sign, digits with at most one point, optional exponent; or a name.\<close>

definition parse_exp :: "string \<Rightarrow> int option" where
  "parse_exp s = (case s of [] \<Rightarrow> None
     | c # cs \<Rightarrow>
         (if c = CHR ''-'' then map_option uminus (parse_digits cs)
          else if c = CHR ''+'' then parse_digits cs
          else parse_digits s))"

definition parse_udec :: "string \<Rightarrow> rat option" where
  "parse_udec s =
     (let ip = takeWhile is_digit s; r1 = dropWhile is_digit s;
          (fp, r2) = (case r1 of [] \<Rightarrow> ([], [])
                      | c # cs \<Rightarrow> if c = CHR ''.'' then (takeWhile is_digit cs, dropWhile is_digit cs)
                                  else ([], r1));
          e = (case r2 of [] \<Rightarrow> Some 0
               | c # cs \<Rightarrow> if c = CHR ''e'' \<or> c = CHR ''E'' then parse_exp cs else None)
      in if ip @ fp = [] then None
         else map_option (\<lambda>e. of_int (digits_val (ip @ fp)) * pow10 (e - int (length fp))) e)"

definition parse_f64 :: "string \<Rightarrow> f64 option" where
  "parse_f64 s =
     (let (neg, u) = (case s of [] \<Rightarrow> (False, [])
                      | c # cs \<Rightarrow> if c = CHR ''-'' then (True, cs)
                                  else if c = CHR ''+'' then (False, cs) else (False, s));
          l = to_lowercase u
      in if l = ''nan'' then Some FNaN
         else if l = ''inf'' \<or> l = ''infinity'' then Some (FInf neg)
         else map_option (round64 neg) (parse_udec u))"

section \<open>Laws\<close>

lemma pow2_pos [simp]: "0 < pow2 k"
  by (simp add: pow2_def)

lemma pow2_nonneg_eq: "0 \<le> k \<Longrightarrow> pow2 k = 2 ^ nat k"
  by (simp add: pow2_def)

lemma pow2_eq_powi: "pow2 k = 2 powi k"
  by (simp add: pow2_def power_int_def field_simps)

lemma pow2_add: "pow2 (a + b) = pow2 a * pow2 b"
  by (simp add: pow2_eq_powi power_int_add)

lemma pow2_mono: "a \<le> b \<Longrightarrow> pow2 a \<le> pow2 b"
  by (simp add: pow2_eq_powi power_int_increasing)

lemma pow2_less_imp: "pow2 a < pow2 b \<Longrightarrow> a < b"
  using pow2_mono [of b a] by linarith

lemma ilog2_lower: "0 < n \<Longrightarrow> 2 ^ ilog2 n \<le> n"
proof (induction n rule: ilog2.induct)
  case (1 n)
  show ?case
  proof (cases "n < 2")
    case True
    with 1 show ?thesis by (simp add: ilog2.simps [of n])
  next
    case False
    then have "2 ^ ilog2 (n div 2) \<le> n div 2" using 1 by simp
    then have "2 * 2 ^ ilog2 (n div 2) \<le> n" by linarith
    with False show ?thesis by (simp add: ilog2.simps [of n])
  qed
qed

lemma ilog2_upper: "n < 2 ^ Suc (ilog2 n)"
proof (induction n rule: ilog2.induct)
  case (1 n)
  show ?case
  proof (cases "n < 2")
    case True
    then show ?thesis by (simp add: ilog2.simps [of n])
  next
    case False
    then have "n div 2 < 2 ^ Suc (ilog2 (n div 2))" using 1 by simp
    then have "n < 2 * 2 ^ Suc (ilog2 (n div 2))" by linarith
    with False show ?thesis by (simp add: ilog2.simps [of n])
  qed
qed

text \<open>The exponent is a lower bound, which is what makes rounding exact on short numbers.\<close>

lemma rlog2_lower:
  assumes "0 < r"
  shows "pow2 (rlog2 r) \<le> r"
proof -
  obtain n d where q: "quotient_of r = (n, d)" by (cases "quotient_of r")
  then have r: "r = of_int n / of_int d" and d: "0 < d"
    using quotient_of_div quotient_of_denom_pos by blast+
  with assms have n: "0 < n" by (simp add: zero_less_divide_iff)
  define a b where "a = ilog2 n" and "b = ilog2 d"
  have "of_int (2 ^ a) \<le> (of_int n :: rat)"
    unfolding a_def of_int_le_iff using n by (rule ilog2_lower)
  then have na: "(2::rat) ^ a \<le> of_int n" by simp
  have "of_int d < (of_int (2 ^ Suc b) :: rat)"
    unfolding b_def of_int_less_iff by (rule ilog2_upper)
  then have db: "of_int d \<le> (2::rat) ^ Suc b" by simp
  have "(2::rat) ^ a * of_int d \<le> of_int n * 2 ^ Suc b"
    using na db n d by (intro mult_mono) simp_all
  then have "2 ^ a * of_int d / 2 ^ Suc b \<le> (of_int n :: rat)"
    by (simp add: pos_divide_le_eq)
  then have *: "2 ^ a / 2 ^ Suc b \<le> r"
    using d by (simp add: r pos_le_divide_eq)
  have "pow2 (int a - int b - 1) * pow2 (int (Suc b)) = pow2 (int a)"
    by (simp flip: pow2_add)
  then have "pow2 (int a - int b - 1) * 2 ^ Suc b = 2 ^ a"
    by (simp only: pow2_nonneg_eq of_nat_0_le_iff nat_int)
  then have "pow2 (int a - int b - 1) = 2 ^ a / 2 ^ Suc b"
    by (simp add: nonzero_eq_divide_eq)
  with * have "pow2 (int a - int b - 1) \<le> r" by simp
  then show ?thesis
    by (simp add: rlog2_def q a_def b_def Let_def)
qed

lemma round_half_even_of_int [simp]: "round_half_even (of_int i) = i"
  by (simp add: round_half_even_def)

text \<open>Rounding is the identity on every number with at most 53 significant bits.\<close>

lemma round64_exact:
  assumes r: "r = of_int m * pow2 k" and m: "0 < m" "m < 2 ^ 53"
    and k: "- 1074 \<le> k" and small: "r < pow2 1024"
  shows "round64 neg r = FFin (if neg then - r else r)"
proof -
  have pos: "0 < r" using r m by simp
  have "pow2 (rlog2 r) \<le> r" using pos by (rule rlog2_lower)
  also have "r < pow2 (53 + k)"
  proof -
    have "(of_int m :: rat) < 2 ^ 53" using m
      by (metis of_int_less_iff of_int_numeral of_int_power)
    then show ?thesis using r by (simp add: pow2_add pow2_nonneg_eq)
  qed
  finally have "rlog2 r - 52 \<le> k" using pow2_less_imp by force
  define e where "e = max (rlog2 r - 52) (- 1074)"
  have ek: "e \<le> k" using \<open>rlog2 r - 52 \<le> k\<close> k by (simp add: e_def)
  have split: "pow2 k = pow2 (k - e) * pow2 e"
    using pow2_add [of "k - e" e] by simp
  have "r / pow2 e = of_int m * pow2 (k - e)"
    using r split by (simp add: less_imp_neq [OF pow2_pos, symmetric])
  also have "\<dots> = of_int (m * 2 ^ nat (k - e))"
    using ek by (simp add: pow2_nonneg_eq)
  finally have "of_int (round_half_even (r / pow2 e)) * pow2 e = r"
    by (metis nonzero_eq_divide_eq pow2_pos less_irrefl round_half_even_of_int)
  then show ?thesis
    using pos small by (simp add: round64_def Let_def flip: e_def)
qed

lemma f64_of_int_exact:
  assumes "\<bar>i\<bar> \<le> 2 ^ 53"
  shows "f64_of_int i = FFin (of_int i)"
proof (cases "i = 0")
  case True
  then show ?thesis by (simp add: f64_of_int_def round64_def)
next
  case False
  have "round64 (i < 0) (of_int \<bar>i\<bar>) = FFin (if i < 0 then - of_int \<bar>i\<bar> else of_int \<bar>i\<bar>)"
  proof (cases "\<bar>i\<bar> = 2 ^ 53")
    case True
    then have "(of_int \<bar>i\<bar> :: rat) = of_int (2 ^ 52) * pow2 1" by (simp add: pow2_def)
    then show ?thesis by (rule round64_exact) (simp_all add: True pow2_def)
  next
    case neq: False
    then have lt: "\<bar>i\<bar> < 2 ^ 53" using assms by simp
    have "(of_int \<bar>i\<bar> :: rat) = of_int \<bar>i\<bar> * pow2 0" by (simp add: pow2_def)
    moreover have "(of_int \<bar>i\<bar> :: rat) < pow2 1024"
    proof -
      have "(of_int \<bar>i\<bar> :: rat) < of_int (2 ^ 53)" using lt by (simp only: of_int_less_iff)
      also have "\<dots> \<le> pow2 1024" by (simp add: pow2_def)
      finally show ?thesis .
    qed
    ultimately show ?thesis
      using False lt by (intro round64_exact [where m = "\<bar>i\<bar>" and k = 0]) simp_all
  qed
  then show ?thesis by (simp add: f64_of_int_def)
qed

lemma f64_eq_refl: "\<not> f64_is_nan a \<Longrightarrow> f64_eq a a"
  by (cases a) (simp_all add: f64_eq_def cmp_of_def)

lemma cmp_of_simps [simp]:
  "cmp_of a b = Equal \<longleftrightarrow> a = b"
  "cmp_of a b = Less \<longleftrightarrow> a < b"
  "cmp_of a b = Greater \<longleftrightarrow> b < a"
  by (auto simp: cmp_of_def)

lemma cmp_of_refl [simp]: "cmp_of a a = Equal"
  by (simp add: cmp_of_def)

lemma cmp_of_of_int [simp]:
  "cmp_of (of_int i :: 'a::linordered_idom) (of_int j) = cmp_of i j"
  by (simp add: cmp_of_def)

lemma ord_reverse_cmp_of [simp]: "ord_reverse (cmp_of a b) = cmp_of b a"
  by (auto simp: cmp_of_def)

end
