(* ===== verification/Skvs_Schema.thy ===== *)
theory Skvs_Schema
  imports Skvs_Float "HOL-Library.Char_ord" "HOL-Library.List_Lexorder"
begin

text \<open>
  The data model of \<^verbatim>\<open>src/src/schema.rs\<close>: runtime values, their equality and their
  comparison, their JSON form, and the schema records. The key result is
  \<open>value_compare_key\<close>: wherever two values are comparable (no NaN, and an integer meets a
  real only within 53 bits) \<open>Value::compare\<close> is the order of \<open>value_key\<close>; outside of that
  it is not transitive (\<open>value_compare_not_transitive\<close>).
\<close>

type_synonym rowid = u64

datatype data_type = DNull | DInteger | DReal | DText | DBlob

datatype skvs_value =
    VNull
  | VInteger i64
  | VReal f64
  | VText string
  | VBlob bytes

type_synonym row = "(string \<times> skvs_value) list"

section \<open>JSON\<close>

text \<open>
  \<open>serde_json::Value\<close> with the three internal forms of a number; its text form and base64 are
  third-party code and enter as the fields of \<open>codec\<close>.
\<close>

datatype json_number = JPosInt u64 | JNegInt i64 | JFloat f64

datatype json =
    JNull
  | JBool bool
  | JNumber json_number
  | JString string
  | JArray "json list"
  | JObject "(string \<times> json) list"

record codec =
  json_to_string :: "json \<Rightarrow> string"
  json_from_str :: "string \<Rightarrow> string + json"
  base64_encode :: "bytes \<Rightarrow> string"
  base64_decode :: "string \<Rightarrow> bytes option"

fun number_as_i64 :: "json_number \<Rightarrow> i64 option" where
  "number_as_i64 (JPosInt n) = (if uint n < 2 ^ 63 then Some n else None)"
| "number_as_i64 (JNegInt i) = Some i"
| "number_as_i64 (JFloat f) = None"

fun number_as_f64 :: "json_number \<Rightarrow> f64 option" where
  "number_as_f64 (JPosInt n) = Some (f64_of_int (uint n))"
| "number_as_f64 (JNegInt i) = Some (f64_of_i64 i)"
| "number_as_f64 (JFloat f) = Some f"

definition number_of_i64 :: "i64 \<Rightarrow> json_number" where
  "number_of_i64 i = (if 0 \<le> sint i then JPosInt i else JNegInt i)"

definition number_from_f64 :: "f64 \<Rightarrow> json_number option" where
  "number_from_f64 f = (if f64_fin f = None then None else Some (JFloat f))"

text \<open>\<open>Value::from_json\<close>: \<open>None\<close> where the conversion is refused.\<close>

fun value_from_json :: "('x) codec_scheme \<Rightarrow> json \<Rightarrow> skvs_value option" where
  "value_from_json c JNull = Some VNull"
| "value_from_json c (JBool b) = Some (VInteger (if b then 1 else 0))"
| "value_from_json c (JNumber n) =
     (case number_as_i64 n of
        Some i \<Rightarrow> Some (VInteger i)
      | None \<Rightarrow> (case number_as_f64 n of Some f \<Rightarrow> Some (VReal f) | None \<Rightarrow> None))"
| "value_from_json c (JString s) = Some (VText s)"
| "value_from_json c (JObject obj) =
     (if length obj = 1 \<and> contains_key obj ''__blob__''
      then (case map_of obj ''__blob__'' of
              Some (JString b64) \<Rightarrow> map_option VBlob (base64_decode c b64)
            | _ \<Rightarrow> None)
      else Some (VBlob (str_bytes (json_to_string c (JObject obj)))))"
| "value_from_json c (JArray arr) = Some (VBlob (str_bytes (json_to_string c (JArray arr))))"

fun value_to_json :: "('x) codec_scheme \<Rightarrow> skvs_value \<Rightarrow> json" where
  "value_to_json c VNull = JNull"
| "value_to_json c (VInteger i) = JNumber (number_of_i64 i)"
| "value_to_json c (VReal f) =
     (case number_from_f64 f of Some n \<Rightarrow> JNumber n | None \<Rightarrow> JNull)"
| "value_to_json c (VText s) = JString s"
| "value_to_json c (VBlob b) = JString (base64_encode c b)"

section \<open>Equality and comparison\<close>

text \<open>The derived \<open>PartialEq\<close>: variants are never equal across, reals as floats.\<close>

fun value_eq :: "skvs_value \<Rightarrow> skvs_value \<Rightarrow> bool" where
  "value_eq VNull VNull = True"
| "value_eq (VInteger i) (VInteger j) = (i = j)"
| "value_eq (VReal f) (VReal g) = f64_eq f g"
| "value_eq (VText s) (VText t) = (s = t)"
| "value_eq (VBlob a) (VBlob b) = (a = b)"
| "value_eq _ _ = False"

definition is_null :: "skvs_value \<Rightarrow> bool" where
  "is_null v \<longleftrightarrow> v = VNull"

fun type_rank :: "skvs_value \<Rightarrow> nat" where
  "type_rank VNull = 0"
| "type_rank (VInteger _) = 1"
| "type_rank (VReal _) = 1"
| "type_rank (VText _) = 2"
| "type_rank (VBlob _) = 3"

definition unwrap_equal :: "ordering option \<Rightarrow> ordering" where
  "unwrap_equal r = (case r of Some o' \<Rightarrow> o' | None \<Rightarrow> Equal)"

fun value_compare :: "skvs_value \<Rightarrow> skvs_value \<Rightarrow> ordering" where
  "value_compare VNull VNull = Equal"
| "value_compare VNull _ = Less"
| "value_compare _ VNull = Greater"
| "value_compare (VInteger i1) (VInteger i2) = cmp_of (sint i1) (sint i2)"
| "value_compare (VReal f1) (VReal f2) = unwrap_equal (f64_partial_cmp f1 f2)"
| "value_compare (VInteger i1) (VReal f2) = unwrap_equal (f64_partial_cmp (f64_of_i64 i1) f2)"
| "value_compare (VReal f1) (VInteger i2) = unwrap_equal (f64_partial_cmp f1 (f64_of_i64 i2))"
| "value_compare (VText s1) (VText s2) = cmp_of s1 s2"
| "value_compare (VBlob b1) (VBlob b2) = cmp_of b1 b2"
| "value_compare a b = cmp_of (type_rank a) (type_rank b)"

section \<open>Schemas\<close>

record column_def =
  cd_name :: string
  cd_data_type :: data_type
  cd_primary_key :: bool
  cd_auto_increment :: bool
  cd_not_null :: bool
  cd_default :: "skvs_value option"
  cd_unique :: bool
  cd_check_expr :: "string option"

record unique_group =
  ug_columns :: "string list"
  ug_is_primary :: bool

datatype fk_action = FkNoAction | FkRestrict | FkCascade | FkSetNull | FkSetDefault

record foreign_key_def =
  fk_column :: string
  fk_ref_table :: string
  fk_ref_column :: string
  fk_on_delete :: fk_action
  fk_on_update :: fk_action

record index_def =
  idx_name :: string
  idx_columns :: "string list"
  idx_unique :: bool
  idx_partial_where :: "string option"
  idx_is_expression :: bool

datatype trigger_timing = TBefore | TAfter | TInsteadOf

datatype trigger_event = TInsert | TUpdate | TDelete

record trigger_def =
  tr_name :: string
  tr_timing :: trigger_timing
  tr_event :: trigger_event
  tr_table :: string
  tr_for_each_row :: bool
  tr_condition :: "string option"
  tr_body :: string

record table_schema =
  ts_name :: string
  ts_columns :: "(string \<times> column_def) list"
  ts_rowid_column :: "string option"
  ts_foreign_keys :: "foreign_key_def list"
  ts_indices :: "index_def list"
  ts_triggers :: "trigger_def list"
  ts_unique_groups :: "unique_group list"
  ts_table_checks :: "string list"
  ts_fts5_content_column :: "string option"

section \<open>An order key for comparable values\<close>

text \<open>
  The key a comparison is about: the type rank, then the number (infinities as \<open>- 1\<close> and
  \<open>1\<close> beside a finite \<open>0\<close>), the text, the bytes, compared lexicographically.
\<close>

datatype order_key = OrderKey (ok_rank: nat) (ok_inf: int) (ok_num: rat) (ok_text: string) (ok_blob: bytes)

instantiation order_key :: linorder
begin

definition less_eq_order_key :: "order_key \<Rightarrow> order_key \<Rightarrow> bool" where
  "a \<le> b \<longleftrightarrow> ok_rank a < ok_rank b \<or> (ok_rank a = ok_rank b \<and>
     (ok_inf a < ok_inf b \<or> (ok_inf a = ok_inf b \<and>
     (ok_num a < ok_num b \<or> (ok_num a = ok_num b \<and>
     (ok_text a < ok_text b \<or> (ok_text a = ok_text b \<and> ok_blob a \<le> ok_blob b)))))))"

definition less_order_key :: "order_key \<Rightarrow> order_key \<Rightarrow> bool" where
  "a < b \<longleftrightarrow> a \<le> b \<and> \<not> b \<le> (a :: order_key)"

instance
proof
  fix x y z :: order_key
  show "x < y \<longleftrightarrow> x \<le> y \<and> \<not> y \<le> x" by (simp add: less_order_key_def)
  show "x \<le> x" by (simp add: less_eq_order_key_def)
  show "x \<le> y \<Longrightarrow> y \<le> z \<Longrightarrow> x \<le> z"
    unfolding less_eq_order_key_def by (elim disjE conjE; force)
  show "x \<le> y \<Longrightarrow> y \<le> x \<Longrightarrow> x = y"
    unfolding less_eq_order_key_def by (elim disjE conjE; auto intro: order_key.expand)
  show "x \<le> y \<or> y \<le> x" unfolding less_eq_order_key_def by force
qed

end

definition i64_rat :: "i64 \<Rightarrow> rat" where
  "i64_rat i = of_int (sint i)"

fun f64_inf_rank :: "f64 \<Rightarrow> int" where
  "f64_inf_rank (FInf s) = (if s then -1 else 1)"
| "f64_inf_rank _ = 0"

definition f64_num :: "f64 \<Rightarrow> rat" where
  "f64_num f = (case f64_fin f of Some r \<Rightarrow> r | None \<Rightarrow> 0)"

fun value_key :: "skvs_value \<Rightarrow> order_key" where
  "value_key VNull = OrderKey 0 0 0 [] []"
| "value_key (VInteger i) = OrderKey 1 0 (i64_rat i) [] []"
| "value_key (VReal f) = OrderKey 1 (f64_inf_rank f) (f64_num f) [] []"
| "value_key (VText s) = OrderKey 2 0 0 s []"
| "value_key (VBlob b) = OrderKey 3 0 0 [] b"

fun value_nan :: "skvs_value \<Rightarrow> bool" where
  "value_nan (VReal f) = f64_is_nan f"
| "value_nan _ = False"

text \<open>Two values whose comparison is exact.\<close>

fun comparable :: "skvs_value \<Rightarrow> skvs_value \<Rightarrow> bool" where
  "comparable (VInteger i) (VReal f) = (\<bar>sint i\<bar> \<le> 2 ^ 53 \<and> \<not> f64_is_nan f)"
| "comparable (VReal f) (VInteger i) = (\<bar>sint i\<bar> \<le> 2 ^ 53 \<and> \<not> f64_is_nan f)"
| "comparable a b = (\<not> value_nan a \<and> \<not> value_nan b)"

definition comparable_set :: "skvs_value set \<Rightarrow> bool" where
  "comparable_set S \<longleftrightarrow> (\<forall>a\<in>S. \<forall>b\<in>S. comparable a b)"

lemma less_OrderKey [simp]:
  "OrderKey r i n s b < OrderKey r' i' n' s' b' \<longleftrightarrow>
     r < r' \<or> r = r' \<and> (i < i' \<or> i = i' \<and> (n < n' \<or> n = n' \<and> (s < s' \<or> s = s' \<and> b < b')))"
  by (auto simp: less_order_key_def less_eq_order_key_def)

lemma cmp_of_i64_rat [simp]: "cmp_of (i64_rat i) (i64_rat j) = cmp_of (sint i) (sint j)"
  unfolding i64_rat_def by (rule cmp_of_of_int)

lemma cmp_of_OrderKey:
  "cmp_of (OrderKey r i n s b) (OrderKey r' i' n' s' b') =
     (if r \<noteq> r' then cmp_of r r' else if i \<noteq> i' then cmp_of i i' else
      if n \<noteq> n' then cmp_of n n' else if s \<noteq> s' then cmp_of s s' else cmp_of b b')"
  by (auto simp: cmp_of_def)

lemma f64_partial_cmp_key:
  "\<not> f64_is_nan f \<Longrightarrow> \<not> f64_is_nan g \<Longrightarrow>
   f64_partial_cmp f g = Some (cmp_of (value_key (VReal f)) (value_key (VReal g)))"
  by (cases f; cases g) (auto simp: cmp_of_OrderKey cmp_of_def f64_num_def)

lemma f64_of_i64_exact:
  "\<bar>sint i\<bar> \<le> 2 ^ 53 \<Longrightarrow> f64_of_i64 i = FFin (i64_rat i)"
  unfolding f64_of_i64_def i64_rat_def by (rule f64_of_int_exact)

lemma i64_rat_iff [simp]:
  "i64_rat i = i64_rat j \<longleftrightarrow> sint i = sint j"
  "i64_rat i < i64_rat j \<longleftrightarrow> sint i < sint j"
  by (simp_all only: i64_rat_def of_int_eq_iff of_int_less_iff)

lemma value_compare_key:
  assumes "comparable a b"
  shows "value_compare a b = cmp_of (value_key a) (value_key b)"
  using assms
  by (cases a; cases b)
    (auto simp: unwrap_equal_def f64_partial_cmp_key f64_of_i64_exact f64_num_def cmp_of_OrderKey
      cmp_of_def)

lemma comparable_set_key:
  "comparable_set S \<Longrightarrow> a \<in> S \<Longrightarrow> b \<in> S \<Longrightarrow>
   value_compare a b = cmp_of (value_key a) (value_key b)"
  by (simp add: comparable_set_def value_compare_key)

lemma comparable_set_mono: "comparable_set S \<Longrightarrow> T \<subseteq> S \<Longrightarrow> comparable_set T"
  by (auto simp: comparable_set_def)

lemma f64_partial_cmp_swap:
  "f64_partial_cmp g f = map_option ord_reverse (f64_partial_cmp f g)"
  by (cases f; cases g) auto

lemma unwrap_equal_swap:
  "unwrap_equal (f64_partial_cmp g f) = ord_reverse (unwrap_equal (f64_partial_cmp f g))"
  by (subst f64_partial_cmp_swap) (simp add: unwrap_equal_def split: option.splits)

lemma f64_eq_sym: "f64_eq a b = f64_eq b a"
proof -
  have "f64_partial_cmp a b = Some Equal \<Longrightarrow> f64_partial_cmp b a = Some Equal" for a b
    by (subst f64_partial_cmp_swap) simp
  then show ?thesis by (auto simp: f64_eq_def)
qed

text \<open>Comparison is antisymmetric in every case, NaN included.\<close>

lemma value_compare_swap: "value_compare b a = ord_reverse (value_compare a b)"
  by (cases a; cases b) (simp_all, (rule unwrap_equal_swap)+)

lemma value_eq_sym: "value_eq a b = value_eq b a"
  by (cases a; cases b) (auto simp: f64_eq_sym)

lemma value_eq_compare: "value_eq a b \<Longrightarrow> value_compare a b = Equal"
  by (cases a; cases b) (auto simp: f64_eq_def unwrap_equal_def)

lemma value_eq_refl: "\<not> value_nan a \<Longrightarrow> value_eq a a"
  by (cases a) (auto intro: f64_eq_refl)

lemma value_eq_null [simp]: "value_eq VNull b \<longleftrightarrow> b = VNull" "value_eq b VNull \<longleftrightarrow> b = VNull"
  by (cases b; simp)+

lemma is_null_simps [simp]:
  "is_null VNull" "\<not> is_null (VInteger i)" "\<not> is_null (VReal f)" "\<not> is_null (VText s)"
  "\<not> is_null (VBlob b)"
  by (simp_all add: is_null_def)

end
