(* ===== verification/Skvs_Ast.thy ===== *)
theory Skvs_Ast
  imports Skvs_Schema
begin

text \<open>
  The syntax trees the engine matches on (the crate \<open>sqlparser\<close> 0.40), restricted to the
  variants and fields the source reads; every other variant is one catch-all constructor, as in
  the source's \<open>_\<close> arms. The parser itself, the \<open>Display\<close> and \<open>Debug\<close> renderings of trees,
  and the iteration order of the concurrent hash maps are third-party code: they are the fields
  of the record \<open>env\<close>, an argument of every definition that uses them.
\<close>

datatype ident = Ident (id_value: string) (id_quote: "char option")

type_synonym object_name = "ident list"

datatype unary_operator = UMinus | UPlus | UNot | UOtherOp

datatype binary_operator =
    BAnd | BOr | BEq | BNotEq | BGt | BLt | BGtEq | BLtEq | BStringConcat
  | BPlus | BMinus | BMultiply | BDivide | BModulo | BOtherOp

datatype sql_value =
    Number string
  | SingleQuotedString string
  | DoubleQuotedString string
  | SqlNull
  | SqlBoolean bool
  | Placeholder string
  | SqlOther

datatype expr =
    Identifier ident
  | CompoundIdentifier "ident list"
  | ValueE sql_value
  | Nested expr
  | UnaryOp unary_operator expr
  | BinaryOp expr binary_operator expr
  | IsNull expr
  | IsNotNull expr
  | Between expr bool expr expr
  | InList expr "expr list" bool
  | Like bool expr expr
  | ILike bool expr expr
  | Case "expr option" "expr list" "expr list" "expr option"
  | Function object_name "func_arg list" bool
  | Subquery
  | ExistsE
  | OtherExpr
and func_arg =
    UnnamedArg expr
  | NamedArg expr
  | WildcardArg
  | OtherArg

section \<open>Queries\<close>

datatype table_factor =
    TableFactor object_name "ident option"
  | OtherFactor string

datatype join_constraint = On expr | Using "ident list" | NaturalC | NoConstraint

datatype join_operator =
    Inner join_constraint
  | LeftOuter join_constraint
  | RightOuter join_constraint
  | FullOuter join_constraint
  | CrossJoin
  | OtherJoin string

record join =
  j_relation :: table_factor
  j_operator :: join_operator

record table_with_joins =
  tj_relation :: table_factor
  tj_joins :: "join list"

datatype select_item =
    UnnamedExpr expr
  | ExprWithAlias expr ident
  | QualifiedWildcard
  | Wildcard

datatype group_by_expr = GroupByAll | GroupByExprs "expr list"

record order_by_expr =
  ob_expr :: expr
  ob_asc :: "bool option"

record select_stmt =
  sel_distinct :: bool
  sel_projection :: "select_item list"
  sel_from :: "table_with_joins list"
  sel_selection :: "expr option"
  sel_group_by :: group_by_expr

datatype set_expr = SelectBody select_stmt | ValuesBody "expr list list" | OtherBody

record query =
  q_body :: set_expr
  q_order_by :: "order_by_expr list"
  q_limit :: "expr option"
  q_offset :: "expr option"

section \<open>Statements\<close>

datatype sql_data_type =
    SqlInt | SqlInteger | SqlFloat | SqlDouble | SqlText | SqlString | SqlVarchar | SqlBlob
  | SqlOtherType

datatype column_option =
    NotNullOpt
  | UniqueOpt bool
  | DefaultOpt expr
  | CheckOpt expr
  | DialectOpt "string list"
  | OtherOpt

record sql_column_def =
  sc_name :: ident
  sc_data_type :: sql_data_type
  sc_options :: "column_option list"

datatype referential_action = RaCascade | RaSetNull | RaRestrict | RaSetDefault | RaNoAction

datatype table_constraint =
    UniqueC "ident list" bool
  | ForeignKeyC "ident list" object_name "ident list" "referential_action option"
      "referential_action option"
  | CheckC expr
  | OtherC

datatype alter_op =
    AddColumn sql_column_def
  | DropColumn ident bool
  | RenameColumn ident ident
  | RenameTable object_name
  | OtherAlter string

datatype object_type = ObjTable | ObjIndex | ObjView | ObjOther string

record assignment =
  as_id :: "ident list"
  as_value :: expr

datatype statement =
    SQuery query
  | SInsert object_name "ident list" "query option"
  | SUpdate table_factor "assignment list" "expr option"
  | SDelete "object_name list" "table_with_joins list" "expr option"
  | SCreateTable object_name "sql_column_def list" "table_constraint list" bool
  | SAlterTable object_name bool "alter_op list"
  | SCreateIndex "object_name option" object_name "expr list" bool bool
  | SCreateView object_name query
  | SCreateVirtualTable object_name bool ident "ident list"
  | SDrop object_type "object_name list" bool
  | SStartTransaction
  | SCommit
  | SRollback
  | OtherStatement

section \<open>The third-party code\<close>

record env = codec +
  parse_sql :: "string \<Rightarrow> string + statement list"
  parse_expr_sql :: "string \<Rightarrow> string + expr"
  ident_to_string :: "ident \<Rightarrow> string"
  object_name_to_string :: "object_name \<Rightarrow> string"
  expr_to_string :: "expr \<Rightarrow> string"
  query_to_string :: "query \<Rightarrow> string"
  statement_debug :: "statement \<Rightarrow> string"
  iter_rows :: "(rowid \<times> row) list \<Rightarrow> (rowid \<times> row) list"
  iter_schemas :: "(string \<times> table_schema) list \<Rightarrow> (string \<times> table_schema) list"
  iter_raw :: "(bytes \<times> bytes) list \<Rightarrow> (bytes \<times> bytes) list"

text \<open>
  What the code relies on: iterating a map visits each of its entries exactly once.
\<close>

definition iter_ok :: "('x) env_scheme \<Rightarrow> bool" where
  "iter_ok E \<longleftrightarrow> (\<forall>xs. mset (iter_rows E xs) = mset xs) \<and>
     (\<forall>xs. mset (iter_schemas E xs) = mset xs) \<and> (\<forall>xs. mset (iter_raw E xs) = mset xs)"

lemma iter_rows_set [simp]: "iter_ok E \<Longrightarrow> set (iter_rows E xs) = set xs"
  unfolding iter_ok_def by (metis set_mset_mset)

lemma iter_raw_set [simp]: "iter_ok E \<Longrightarrow> set (iter_raw E xs) = set xs"
  unfolding iter_ok_def by (metis set_mset_mset)

end
