(* ===== verification/Skvs_Json.thy ===== *)
theory Skvs_Json
  imports Skvs_Ast
begin

text \<open>
  The JSON functions of \<^verbatim>\<open>src/src/json.rs\<close>: path extraction, construction and
  \<open>json_set\<close>. An object is an association list; its text form (and the key order there) is
  the third-party serialiser of \<open>codec\<close>.
\<close>

definition json_str_bytes :: "('x) codec_scheme \<Rightarrow> json \<Rightarrow> bytes" where
  "json_str_bytes c j = str_bytes (json_to_string c j)"

fun json_value_to_skvs :: "('x) codec_scheme \<Rightarrow> json \<Rightarrow> skvs_value" where
  "json_value_to_skvs c JNull = VNull"
| "json_value_to_skvs c (JBool b) = VInteger (if b then 1 else 0)"
| "json_value_to_skvs c (JNumber n) =
     (case number_as_i64 n of
        Some i \<Rightarrow> VInteger i
      | None \<Rightarrow> (case number_as_f64 n of Some f \<Rightarrow> VReal f | None \<Rightarrow> VNull))"
| "json_value_to_skvs c (JString s) = VText s"
| "json_value_to_skvs c (JArray arr) = VBlob (json_str_bytes c (JArray arr))"
| "json_value_to_skvs c (JObject obj) = VBlob (json_str_bytes c (JObject obj))"

fun skvs_value_to_json :: "('x) codec_scheme \<Rightarrow> skvs_value \<Rightarrow> json" where
  "skvs_value_to_json c VNull = JNull"
| "skvs_value_to_json c (VInteger i) = JNumber (number_of_i64 i)"
| "skvs_value_to_json c (VReal f) =
     (case number_from_f64 f of Some n \<Rightarrow> JNumber n | None \<Rightarrow> JNull)"
| "skvs_value_to_json c (VText s) = JString s"
| "skvs_value_to_json c (VBlob b) =
     (case json_from_str c (bytes_str b) of
        Inr j \<Rightarrow> j
      | Inl _ \<Rightarrow> JString (base64_encode c b))"

section \<open>Paths\<close>

definition is_index_part :: "string \<Rightarrow> bool" where
  "is_index_part p \<longleftrightarrow> 2 \<le> length p \<and> hd p = CHR ''['' \<and> last p = CHR '']''"

definition index_text :: "string \<Rightarrow> string" where
  "index_text p = butlast (tl p)"

fun json_walk :: "('x) codec_scheme \<Rightarrow> json \<Rightarrow> string list \<Rightarrow> skvs_value outcome" where
  "json_walk c cur [] = Done (json_value_to_skvs c cur)"
| "json_walk c cur (part # parts) =
     (if is_index_part part
      then (case parse_usize (index_text part) of
              None \<Rightarrow> Fail (EJson ''Invalid array index'')
            | Some idx \<Rightarrow>
                (case cur of
                   JArray arr \<Rightarrow> (if idx < length arr then json_walk c (arr ! idx) parts
                                 else Done VNull)
                 | _ \<Rightarrow> Done VNull))
      else (case cur of
              JObject obj \<Rightarrow> (case map_of obj part of
                                Some v \<Rightarrow> json_walk c v parts
                              | None \<Rightarrow> Done VNull)
            | _ \<Rightarrow> Done VNull))"

definition strip_char :: "char \<Rightarrow> string \<Rightarrow> string" where
  "strip_char ch s = (case s of x # xs \<Rightarrow> (if x = ch then xs else s) | [] \<Rightarrow> s)"

definition json_extract :: "('x) codec_scheme \<Rightarrow> string \<Rightarrow> string \<Rightarrow> skvs_value outcome" where
  "json_extract c json_str path =
     (case json_from_str c json_str of
        Inl e \<Rightarrow> Fail (EJson (''Invalid JSON: '' @ e))
      | Inr val \<Rightarrow>
          (let path = strip_char (CHR ''.'') (strip_char (CHR ''$'') path) in
           if path = [] then Done (json_value_to_skvs c val)
           else json_walk c val (split_char (CHR ''.'') path)))"

definition json_array :: "('x) codec_scheme \<Rightarrow> skvs_value list \<Rightarrow> string outcome" where
  "json_array c vs = Done (json_to_string c (JArray (map (skvs_value_to_json c) vs)))"

definition json_object :: "('x) codec_scheme \<Rightarrow> string list \<Rightarrow> skvs_value list \<Rightarrow> string outcome" where
  "json_object c keys vals =
     (if length keys \<noteq> length vals then Fail (EJson ''Keys and values length mismatch'')
      else Done (json_to_string c (JObject
             (foldl (\<lambda>obj (k, v). AList.update k (skvs_value_to_json c v) obj) [] (zip keys vals)))))"

text \<open>
  \<open>json_set\<close> walks to the parent of the last part through mutable references, creating empty
  objects for missing keys, and writes there; the recursion returns the updated tree.
\<close>

fun json_set_at :: "json \<Rightarrow> string list \<Rightarrow> json \<Rightarrow> json outcome" where
  "json_set_at cur [] new = Done cur"
| "json_set_at cur [lst] new =
     (if is_index_part lst
      then (case parse_usize (index_text lst) of
              None \<Rightarrow> Fail (EJson ''Invalid array index'')
            | Some idx \<Rightarrow>
                (case cur of
                   JArray arr \<Rightarrow> (if idx < length arr then Done (JArray (arr[idx := new]))
                                 else Fail (EJson ''Array index out of bounds''))
                 | _ \<Rightarrow> Fail (EJson ''Target is not an array'')))
      else (case cur of
              JObject obj \<Rightarrow> Done (JObject (AList.update lst new obj))
            | _ \<Rightarrow> Fail (EJson ''Target is not an object'')))"
| "json_set_at cur (part # p # parts) new =
     (if is_index_part part
      then (case parse_usize (index_text part) of
              None \<Rightarrow> Fail (EJson ''Invalid array index'')
            | Some idx \<Rightarrow>
                (case cur of
                   JArray arr \<Rightarrow>
                     (if idx < length arr
                      then obind (json_set_at (arr ! idx) (p # parts) new)
                             (\<lambda>j. Done (JArray (arr[idx := j])))
                      else Fail (EJson ''Array index out of bounds''))
                 | _ \<Rightarrow> Fail (EJson ''Path not an array'')))
      else (case cur of
              JObject obj \<Rightarrow>
                (let obj' = entry_or_insert part (JObject []) obj in
                 obind (json_set_at (case map_of obj' part of Some j \<Rightarrow> j | None \<Rightarrow> JNull) (p # parts) new)
                   (\<lambda>j. Done (JObject (AList.update part j obj'))))
            | _ \<Rightarrow> Fail (EJson ''Path not an object'')))"

definition json_set :: "('x) codec_scheme \<Rightarrow> string \<Rightarrow> string \<Rightarrow> skvs_value \<Rightarrow> string outcome" where
  "json_set c json_str path new_value =
     (case json_from_str c json_str of
        Inl e \<Rightarrow> Fail (EJson (''Invalid JSON: '' @ e))
      | Inr val \<Rightarrow>
          obind (json_set_at val (split_char (CHR ''.'') path) (skvs_value_to_json c new_value))
            (\<lambda>j. Done (json_to_string c j)))"

section \<open>Reading back what was written\<close>

lemma split_char_nonempty: "split_char c s \<noteq> []"
  by (induction s) (auto split: list.splits)

text \<open>The value found along a path of keys and indices, without the conversions.\<close>

fun json_at :: "json \<Rightarrow> string list \<Rightarrow> json option" where
  "json_at cur [] = Some cur"
| "json_at cur (part # parts) =
     (if is_index_part part
      then (case (parse_usize (index_text part), cur) of
              (Some idx, JArray arr) \<Rightarrow> (if idx < length arr then json_at (arr ! idx) parts else None)
            | _ \<Rightarrow> None)
      else (case cur of
              JObject obj \<Rightarrow> (case map_of obj part of Some v \<Rightarrow> json_at v parts | None \<Rightarrow> None)
            | _ \<Rightarrow> None))"

lemma json_walk_at: "json_at cur parts = Some v \<Longrightarrow> json_walk c cur parts = Done (json_value_to_skvs c v)"
  by (induction cur parts rule: json_at.induct)
    (auto split: if_splits option.splits json.splits)

lemma json_set_at_get:
  "json_set_at cur parts new = Done j \<Longrightarrow> parts \<noteq> [] \<Longrightarrow> json_at j parts = Some new"
proof (induction cur parts new arbitrary: j rule: json_set_at.induct)
  case (1 cur new)
  then show ?case by simp
next
  case (2 cur lst new)
  then show ?case by (auto split: if_splits option.splits json.splits)
next
  case (3 cur part p parts new)
  note IH = "3.IH" and step = json_at.simps(2) [of _ part "p # parts"]
  show ?case
  proof (cases "is_index_part part")
    case True
    with "3.prems" obtain idx arr j' where *: "parse_usize (index_text part) = Some idx"
      "cur = JArray arr" "idx < length arr" "json_set_at (arr ! idx) (p # parts) new = Done j'"
      "j = JArray (arr[idx := j'])"
      by (auto split: if_splits option.splits json.splits simp: outcome_simps)
    then have "json_at j' (p # parts) = Some new" using IH(1) True by simp
    with True * show ?thesis by (simp add: step del: json_at.simps)
  next
    case False
    with "3.prems" obtain obj j' where *: "cur = JObject obj"
      "json_set_at (case map_of (entry_or_insert part (JObject []) obj) part of
          Some j \<Rightarrow> j | None \<Rightarrow> JNull) (p # parts) new = Done j'"
      "j = JObject (AList.update part j' (entry_or_insert part (JObject []) obj))"
      by (auto split: if_splits option.splits json.splits simp: outcome_simps Let_def)
    then have "json_at j' (p # parts) = Some new" using IH(2) False by simp
    with False * show ?thesis by (simp add: step del: json_at.simps)
  qed
qed

end
