(* ===== verification/Skvs_Expr.thy ===== *)
theory Skvs_Expr
  imports Skvs_Json
begin

text \<open>
  The scalar evaluator of \<^verbatim>\<open>src/src/expr.rs\<close>. \<open>eval E row params e i\<close> evaluates \<open>e\<close> from
  placeholder position \<open>i\<close> and returns the value with the position after it. The only panic is
  \<open>i64::MIN % -1\<close>, which the language checks in every build; the other overflows (\<open>-i\<close>,
  \<open>abs\<close>) wrap, as in the release build the project ships. Its lemmas are in \<open>Skvs_Expr_Facts\<close> and \<open>Skvs_Scalar\<close>.
\<close>

section \<open>Values and operators\<close>

fun truthy :: "skvs_value \<Rightarrow> bool" where
  "truthy VNull = False"
| "truthy (VInteger i) = (i \<noteq> 0)"
| "truthy (VReal f) = (\<not> f64_eq f (FFin 0))"
| "truthy (VText s) = (s \<noteq> [])"
| "truthy (VBlob b) = (b \<noteq> [])"

definition bool_val :: "bool \<Rightarrow> skvs_value" where
  "bool_val b = VInteger (if b then 1 else 0)"

fun like_match_chars :: "string \<Rightarrow> string \<Rightarrow> bool" where
  "like_match_chars text [] = (text = [])"
| "like_match_chars text (c # pat) =
     (if c = CHR ''%''
      then like_match_chars text pat
           \<or> (case text of [] \<Rightarrow> False | t # ts \<Rightarrow> like_match_chars ts (c # pat))
      else if c = CHR ''_''
      then (case text of [] \<Rightarrow> False | t # ts \<Rightarrow> like_match_chars ts pat)
      else (case text of [] \<Rightarrow> False | t # ts \<Rightarrow> t = c \<and> like_match_chars ts pat))"

definition sql_like_match :: "string \<Rightarrow> string \<Rightarrow> bool \<Rightarrow> bool" where
  "sql_like_match text pattern case_insensitive =
     (if case_insensitive then like_match_chars (to_lowercase text) (to_lowercase pattern)
      else like_match_chars text pattern)"

fun like_value :: "bool \<Rightarrow> skvs_value \<Rightarrow> skvs_value \<Rightarrow> bool" where
  "like_value ci (VText s) (VText pat) = sql_like_match s pat ci"
| "like_value ci _ _ = False"

fun to_f64 :: "skvs_value \<Rightarrow> f64 option" where
  "to_f64 (VInteger i) = Some (f64_of_i64 i)"
| "to_f64 (VReal f) = Some f"
| "to_f64 _ = None"

fun to_display_string :: "skvs_value \<Rightarrow> string" where
  "to_display_string VNull = []"
| "to_display_string (VInteger i) = show_int (sint i)"
| "to_display_string (VReal f) = show_f64 f"
| "to_display_string (VText s) = s"
| "to_display_string (VBlob b) = ''x'' @ [CHR 0x27] @ hex_encode b @ [CHR 0x27]"

definition numeric_result :: "f64 \<Rightarrow> bool \<Rightarrow> skvs_value" where
  "numeric_result f prefer_int =
     (if prefer_int \<and> f64_eq (f64_fract f) (FFin 0)
         \<and> f64_partial_cmp (f64_abs f) (f64_of_int (2 ^ 63 - 1)) = Some Less
      then VInteger (f64_to_i64 f) else VReal f)"

fun both_int :: "skvs_value \<Rightarrow> skvs_value \<Rightarrow> bool" where
  "both_int (VInteger _) (VInteger _) = True"
| "both_int _ _ = False"

text \<open>\<open>%\<close> on \<open>i64\<close>: truncated, and a panic on \<open>i64::MIN % -1\<close>.\<close>

definition i64_rem :: "i64 \<Rightarrow> i64 \<Rightarrow> skvs_value outcome" where
  "i64_rem a b =
     (if sint a = - (2 ^ 63) \<and> sint b = - 1 then Panic
      else Done (VInteger (word_of_int (sgn (sint a) * (\<bar>sint a\<bar> mod \<bar>sint b\<bar>)))))"

definition arithmetic :: "skvs_value \<Rightarrow> binary_operator \<Rightarrow> skvs_value \<Rightarrow> skvs_value outcome" where
  "arithmetic l op r =
     (case (to_f64 l, to_f64 r) of
        (Some lf, Some rf) \<Rightarrow>
          (case op of
             BPlus \<Rightarrow> Done (numeric_result (f64_add lf rf) (both_int l r))
           | BMinus \<Rightarrow> Done (numeric_result (f64_sub lf rf) (both_int l r))
           | BMultiply \<Rightarrow> Done (numeric_result (f64_mul lf rf) (both_int l r))
           | BDivide \<Rightarrow> (if f64_eq rf (FFin 0) then Done VNull
                        else Done (numeric_result (f64_div lf rf) False))
           | BModulo \<Rightarrow> (if f64_eq rf (FFin 0) then Done VNull
                        else (case (l, r) of
                                (VInteger li, VInteger ri) \<Rightarrow> i64_rem li ri
                              | _ \<Rightarrow> Done (VReal (f64_rem lf rf))))
           | _ \<Rightarrow> Done VNull)
      | _ \<Rightarrow> Done VNull)"

fun unary_value :: "unary_operator \<Rightarrow> skvs_value \<Rightarrow> skvs_value" where
  "unary_value UMinus (VInteger i) = VInteger (- i)"
| "unary_value UMinus (VReal f) = VReal (f64_neg f)"
| "unary_value UMinus v = v"
| "unary_value UPlus v = v"
| "unary_value UNot v = bool_val (\<not> truthy v)"
| "unary_value UOtherOp v = v"

text \<open>The strict binary operators, on the two values.\<close>

definition binary_value :: "binary_operator \<Rightarrow> skvs_value \<Rightarrow> skvs_value \<Rightarrow> skvs_value outcome" where
  "binary_value op l r =
     (case op of
        BEq \<Rightarrow> Done (bool_val (value_eq l r))
      | BNotEq \<Rightarrow> Done (bool_val (\<not> value_eq l r))
      | BGt \<Rightarrow> Done (bool_val (value_compare l r = Greater))
      | BLt \<Rightarrow> Done (bool_val (value_compare l r = Less))
      | BGtEq \<Rightarrow> Done (bool_val (value_compare l r \<noteq> Less))
      | BLtEq \<Rightarrow> Done (bool_val (value_compare l r \<noteq> Greater))
      | BStringConcat \<Rightarrow> Done (VText (to_display_string l @ to_display_string r))
      | BPlus \<Rightarrow> arithmetic l op r
      | BMinus \<Rightarrow> arithmetic l op r
      | BMultiply \<Rightarrow> arithmetic l op r
      | BDivide \<Rightarrow> arithmetic l op r
      | BModulo \<Rightarrow> arithmetic l op r
      | _ \<Rightarrow> Done VNull)"

definition lookup_column :: "row option \<Rightarrow> string \<Rightarrow> skvs_value" where
  "lookup_column ctx name =
     (case ctx of None \<Rightarrow> VNull
      | Some r \<Rightarrow> (case map_of r name of Some v \<Rightarrow> v | None \<Rightarrow> VNull))"

definition lookup_compound :: "row option \<Rightarrow> ident list \<Rightarrow> skvs_value" where
  "lookup_compound ctx parts =
     (let full = join ''.'' (map id_value parts) in
      case (case ctx of None \<Rightarrow> None | Some r \<Rightarrow> map_of r full) of
        Some v \<Rightarrow> v
      | None \<Rightarrow> (if parts = [] then VNull else lookup_column ctx (id_value (last parts))))"

definition number_literal :: "string \<Rightarrow> skvs_value" where
  "number_literal n =
     (case parse_i64 n of
        Some i \<Rightarrow> VInteger i
      | None \<Rightarrow> (case parse_f64 n of Some f \<Rightarrow> VReal f | None \<Rightarrow> VNull))"

fun eval_literal :: "sql_value \<Rightarrow> skvs_value list \<Rightarrow> nat \<Rightarrow> skvs_value \<times> nat" where
  "eval_literal (Number n) params i = (number_literal n, i)"
| "eval_literal (SingleQuotedString s) params i = (VText s, i)"
| "eval_literal (DoubleQuotedString s) params i = (VText s, i)"
| "eval_literal SqlNull params i = (VNull, i)"
| "eval_literal (SqlBoolean b) params i = (VInteger (if b then 1 else 0), i)"
| "eval_literal (Placeholder p) params i =
     ((if i < length params then params ! i else VNull), Suc i)"
| "eval_literal SqlOther params i = (VNull, i)"

section \<open>Scalar functions\<close>

definition arg_first :: "skvs_value list \<Rightarrow> skvs_value option" where
  "arg_first args = (case args of [] \<Rightarrow> None | v # _ \<Rightarrow> Some v)"

definition arg_nth :: "skvs_value list \<Rightarrow> nat \<Rightarrow> skvs_value option" where
  "arg_nth args n = (if n < length args then Some (args ! n) else None)"

definition or_null :: "skvs_value option \<Rightarrow> skvs_value" where
  "or_null v = (case v of Some v \<Rightarrow> v | None \<Rightarrow> VNull)"

text \<open>\<open>crate::json\<close> results go through \<open>unwrap_or(Value::Null)\<close>.\<close>

definition unwrap_or_null :: "skvs_value outcome \<Rightarrow> skvs_value" where
  "unwrap_or_null r = (case r of Done v \<Rightarrow> v | _ \<Rightarrow> VNull)"

definition text_result :: "string outcome \<Rightarrow> skvs_value" where
  "text_result r = (case r of Done s \<Rightarrow> VText s | _ \<Rightarrow> VNull)"

fun object_pairs :: "skvs_value list \<Rightarrow> (string \<times> skvs_value) list" where
  "object_pairs (k # v # rest) =
     ((case k of VText s \<Rightarrow> s | other \<Rightarrow> to_display_string other), v) # object_pairs rest"
| "object_pairs _ = []"

definition on_text :: "(string \<Rightarrow> skvs_value) \<Rightarrow> skvs_value list \<Rightarrow> skvs_value" where
  "on_text f args = (case arg_first args of Some (VText s) \<Rightarrow> f s | other \<Rightarrow> or_null other)"

definition substr_text :: "string \<Rightarrow> int \<Rightarrow> int option \<Rightarrow> string" where
  "substr_text chars start len =
     (let n = int (length chars);
          start_idx = max 0 (if 0 < start then start - 1 else max 0 (n + start));
          l = (case len of Some i \<Rightarrow> max 0 i | None \<Rightarrow> max 0 (n - start_idx));
          end_idx = min (start_idx + l) n
      in if n \<le> start_idx then []
         else take (nat (end_idx - start_idx)) (drop (nat start_idx) chars))"

definition fn_substr :: "skvs_value list \<Rightarrow> skvs_value" where
  "fn_substr args =
     (case arg_first args of
        Some (VText s) \<Rightarrow>
          VText (substr_text s (case arg_nth args 1 of Some (VInteger i) \<Rightarrow> sint i | _ \<Rightarrow> 1)
                   (case arg_nth args 2 of Some (VInteger i) \<Rightarrow> Some (sint i) | _ \<Rightarrow> None))
      | _ \<Rightarrow> VNull)"

definition fn_round :: "skvs_value list \<Rightarrow> skvs_value" where
  "fn_round args =
     (let places = (case arg_nth args 1 of Some (VInteger i) \<Rightarrow> sint (ucast i :: 32 word) | _ \<Rightarrow> 0) in
      case to_f64 (or_null (arg_first args)) of
        Some f \<Rightarrow> (let mult = f64_powi (FFin 10) places
                  in VReal (f64_div (f64_round (f64_mul f mult)) mult))
      | None \<Rightarrow> VNull)"

definition fn_abs :: "skvs_value list \<Rightarrow> skvs_value" where
  "fn_abs args =
     (case arg_first args of
        Some (VInteger i) \<Rightarrow> VInteger (if sint i < 0 then - i else i)
      | Some (VReal f) \<Rightarrow> VReal (f64_abs f)
      | _ \<Rightarrow> VNull)"

definition fn_length :: "skvs_value list \<Rightarrow> skvs_value" where
  "fn_length args =
     (case arg_first args of
        Some (VText s) \<Rightarrow> VInteger (word_of_nat (length s))
      | Some (VBlob b) \<Rightarrow> VInteger (word_of_nat (length b))
      | _ \<Rightarrow> VNull)"

definition fn_typeof :: "skvs_value list \<Rightarrow> skvs_value" where
  "fn_typeof args = VText
     (case arg_first args of
        None \<Rightarrow> ''null''
      | Some VNull \<Rightarrow> ''null''
      | Some (VInteger _) \<Rightarrow> ''integer''
      | Some (VReal _) \<Rightarrow> ''real''
      | Some (VText _) \<Rightarrow> ''text''
      | Some (VBlob _) \<Rightarrow> ''blob'')"

definition fn_hex :: "skvs_value list \<Rightarrow> skvs_value" where
  "fn_hex args =
     (case arg_first args of
        Some (VBlob b) \<Rightarrow> VText (hex_encode b)
      | Some (VText s) \<Rightarrow> VText (hex_encode (str_bytes s))
      | _ \<Rightarrow> VNull)"

definition fn_replace :: "skvs_value list \<Rightarrow> skvs_value" where
  "fn_replace args =
     (case (arg_first args, arg_nth args 1, arg_nth args 2) of
        (Some (VText s), Some (VText from), Some (VText to)) \<Rightarrow> VText (str_replace s from to)
      | _ \<Rightarrow> VNull)"

definition fn_json_extract :: "('x) codec_scheme \<Rightarrow> skvs_value list \<Rightarrow> skvs_value" where
  "fn_json_extract c args =
     (case arg_first args of
        Some (VText json_str) \<Rightarrow>
          unwrap_or_null (json_extract c json_str
            (case arg_nth args 1 of Some (VText s) \<Rightarrow> s | _ \<Rightarrow> ''$''))
      | _ \<Rightarrow> VNull)"

definition fn_json_set :: "('x) codec_scheme \<Rightarrow> skvs_value list \<Rightarrow> skvs_value" where
  "fn_json_set c args =
     (case (arg_first args, arg_nth args 1) of
        (Some (VText json_str), Some (VText path)) \<Rightarrow>
          text_result (json_set c json_str path (or_null (arg_nth args 2)))
      | _ \<Rightarrow> VNull)"

definition apply_function :: "('x) codec_scheme \<Rightarrow> string \<Rightarrow> skvs_value list \<Rightarrow> skvs_value" where
  "apply_function c name args =
     (if name = ''json_extract'' then fn_json_extract c args
      else if name = ''json_array'' then text_result (json_array c args)
      else if name = ''json_object'' then
        text_result (json_object c (map fst (object_pairs args)) (map snd (object_pairs args)))
      else if name = ''json_set'' then fn_json_set c args
      else if name = ''upper'' then on_text (\<lambda>s. VText (to_uppercase s)) args
      else if name = ''lower'' then on_text (\<lambda>s. VText (to_lowercase s)) args
      else if name = ''length'' \<or> name = ''len'' then fn_length args
      else if name = ''abs'' then fn_abs args
      else if name = ''round'' then fn_round args
      else if name = ''coalesce'' then or_null (List.find (\<lambda>v. \<not> is_null v) args)
      else if name = ''ifnull'' then
        (let a = or_null (arg_first args) in if is_null a then or_null (arg_nth args 1) else a)
      else if name = ''nullif'' then
        (let a = or_null (arg_first args) in
         if value_eq a (or_null (arg_nth args 1)) then VNull else a)
      else if name = ''trim'' then on_text (\<lambda>s. VText (trim s)) args
      else if name = ''ltrim'' then on_text (\<lambda>s. VText (trim_start s)) args
      else if name = ''rtrim'' then on_text (\<lambda>s. VText (trim_end s)) args
      else if name = ''substr'' \<or> name = ''substring'' then fn_substr args
      else if name = ''replace'' then fn_replace args
      else if name = ''typeof'' then fn_typeof args
      else if name = ''hex'' then fn_hex args
      else VNull)"

section \<open>The evaluator\<close>

text \<open>
  \<open>AND\<close> stops at a false left side, \<open>OR\<close> evaluates both sides either way, \<open>IN\<close> stops at the
  first match (\<open>eval_any\<close>), \<open>CASE\<close> re-evaluates its operand for every branch it tries
  (\<open>eval_case\<close>): these decide how far the placeholder position moves.
\<close>

function (sequential)
  eval :: "('x) env_scheme \<Rightarrow> row option \<Rightarrow> skvs_value list \<Rightarrow> expr \<Rightarrow> nat \<Rightarrow> (skvs_value \<times> nat) outcome"
  and eval_args :: "('x) env_scheme \<Rightarrow> row option \<Rightarrow> skvs_value list \<Rightarrow> func_arg list \<Rightarrow> nat
        \<Rightarrow> (skvs_value list \<times> nat) outcome"
  and eval_any :: "('x) env_scheme \<Rightarrow> row option \<Rightarrow> skvs_value list \<Rightarrow> skvs_value \<Rightarrow> expr list \<Rightarrow> nat
        \<Rightarrow> (bool \<times> nat) outcome"
  and eval_case :: "('x) env_scheme \<Rightarrow> row option \<Rightarrow> skvs_value list \<Rightarrow> expr option \<Rightarrow> expr list
        \<Rightarrow> expr list \<Rightarrow> expr option \<Rightarrow> nat \<Rightarrow> (skvs_value \<times> nat) outcome"
where
  "eval E ctx ps (Identifier x) i = Done (lookup_column ctx (id_value x), i)"
| "eval E ctx ps (CompoundIdentifier parts) i = Done (lookup_compound ctx parts, i)"
| "eval E ctx ps (ValueE v) i = Done (eval_literal v ps i)"
| "eval E ctx ps (Nested e) i = eval E ctx ps e i"
| "eval E ctx ps (UnaryOp op e) i =
     obind (eval E ctx ps e i) (\<lambda>(v, i). Done (unary_value op v, i))"
| "eval E ctx ps (BinaryOp l op r) i =
     (if op = BAnd
      then obind (eval E ctx ps l i) (\<lambda>(lv, i).
             if \<not> truthy lv then Done (bool_val False, i)
             else obind (eval E ctx ps r i) (\<lambda>(rv, i). Done (bool_val (truthy rv), i)))
      else if op = BOr
      then obind (eval E ctx ps l i) (\<lambda>(lv, i).
             if truthy lv then obind (eval E ctx ps r i) (\<lambda>(rv, i). Done (bool_val True, i))
             else obind (eval E ctx ps r i) (\<lambda>(rv, i). Done (bool_val (truthy rv), i)))
      else obind (eval E ctx ps l i) (\<lambda>(lv, i).
             obind (eval E ctx ps r i) (\<lambda>(rv, i).
               obind (binary_value op lv rv) (\<lambda>v. Done (v, i)))))"
| "eval E ctx ps (IsNull e) i =
     obind (eval E ctx ps e i) (\<lambda>(v, i). Done (bool_val (is_null v), i))"
| "eval E ctx ps (IsNotNull e) i =
     obind (eval E ctx ps e i) (\<lambda>(v, i). Done (bool_val (\<not> is_null v), i))"
| "eval E ctx ps (Between e negated low high) i =
     obind (eval E ctx ps e i) (\<lambda>(v, i).
       obind (eval E ctx ps low i) (\<lambda>(lo, i).
         obind (eval E ctx ps high i) (\<lambda>(hi, i).
           Done (bool_val ((value_compare v lo \<noteq> Less \<and> value_compare v hi \<noteq> Greater) \<noteq> negated), i))))"
| "eval E ctx ps (InList e es negated) i =
     obind (eval E ctx ps e i) (\<lambda>(v, i).
       obind (eval_any E ctx ps v es i) (\<lambda>(found, i). Done (bool_val (found \<noteq> negated), i)))"
| "eval E ctx ps (Like negated e pattern) i =
     obind (eval E ctx ps e i) (\<lambda>(v, i).
       obind (eval E ctx ps pattern i) (\<lambda>(p, i).
         Done (bool_val (like_value False v p \<noteq> negated), i)))"
| "eval E ctx ps (ILike negated e pattern) i =
     obind (eval E ctx ps e i) (\<lambda>(v, i).
       obind (eval E ctx ps pattern i) (\<lambda>(p, i).
         Done (bool_val (like_value True v p \<noteq> negated), i)))"
| "eval E ctx ps (Case opr conds results els) i = eval_case E ctx ps opr conds results els i"
| "eval E ctx ps (Function name args d) i =
     obind (eval_args E ctx ps args i) (\<lambda>(vs, i).
       Done (apply_function E (to_lowercase (object_name_to_string E name)) vs, i))"
| "eval E ctx ps Subquery i = Done (VNull, i)"
| "eval E ctx ps ExistsE i = Done (VNull, i)"
| "eval E ctx ps OtherExpr i = Done (VNull, i)"
| "eval_args E ctx ps [] i = Done ([], i)"
| "eval_args E ctx ps (UnnamedArg e # args) i =
     obind (eval E ctx ps e i) (\<lambda>(v, i).
       obind (eval_args E ctx ps args i) (\<lambda>(vs, i). Done (v # vs, i)))"
| "eval_args E ctx ps (NamedArg e # args) i =
     obind (eval E ctx ps e i) (\<lambda>(v, i).
       obind (eval_args E ctx ps args i) (\<lambda>(vs, i). Done (v # vs, i)))"
| "eval_args E ctx ps (_ # args) i =
     obind (eval_args E ctx ps args i) (\<lambda>(vs, i). Done (VNull # vs, i))"
| "eval_any E ctx ps v [] i = Done (False, i)"
| "eval_any E ctx ps v (e # es) i =
     obind (eval E ctx ps e i) (\<lambda>(w, i).
       if value_eq w v then Done (True, i) else eval_any E ctx ps v es i)"
| "eval_case E ctx ps opr (c # cs) (r # rs) els i =
     (case opr of
        Some oe \<Rightarrow>
          obind (eval E ctx ps oe i) (\<lambda>(opv, i).
            obind (eval E ctx ps c i) (\<lambda>(cv, i).
              if value_eq opv cv then eval E ctx ps r i
              else eval_case E ctx ps opr cs rs els i))
      | None \<Rightarrow>
          obind (eval E ctx ps c i) (\<lambda>(cv, i).
            if truthy cv then eval E ctx ps r i
            else eval_case E ctx ps opr cs rs els i))"
| "eval_case E ctx ps opr _ _ els i =
     (case els of Some e \<Rightarrow> eval E ctx ps e i | None \<Rightarrow> Done (VNull, i))"
  by pat_completeness auto
termination
  by (relation "measure (\<lambda>x. case x of
        Inl (Inl (E, ctx, ps, e, i)) \<Rightarrow> size e
      | Inl (Inr (E, ctx, ps, args, i)) \<Rightarrow> size_list size args
      | Inr (Inl (E, ctx, ps, v, es, i)) \<Rightarrow> size_list size es
      | Inr (Inr (E, ctx, ps, opr, cs, rs, els, i)) \<Rightarrow>
          size_option size opr + size_list size cs + size_list size rs + size_option size els)") auto

text \<open>Placeholders an expression consumes, as the source counts them.\<close>

fun count_placeholders :: "expr \<Rightarrow> nat"
  and count_arg :: "func_arg \<Rightarrow> nat" where
  "count_placeholders (ValueE (Placeholder p)) = 1"
| "count_placeholders (ValueE v) = 0"
| "count_placeholders (Identifier i) = 0"
| "count_placeholders (CompoundIdentifier is) = 0"
| "count_placeholders (UnaryOp op e) = count_placeholders e"
| "count_placeholders (Nested e) = count_placeholders e"
| "count_placeholders (BinaryOp l op r) = count_placeholders l + count_placeholders r"
| "count_placeholders (IsNull e) = count_placeholders e"
| "count_placeholders (IsNotNull e) = count_placeholders e"
| "count_placeholders (Between e n lo hi) =
     count_placeholders e + count_placeholders lo + count_placeholders hi"
| "count_placeholders (InList e es n) =
     count_placeholders e + sum_list (map count_placeholders es)"
| "count_placeholders (Like n e p) = count_placeholders e + count_placeholders p"
| "count_placeholders (ILike n e p) = count_placeholders e + count_placeholders p"
| "count_placeholders (Case opr cs rs el) =
     (case opr of Some e \<Rightarrow> count_placeholders e | None \<Rightarrow> 0)
     + sum_list (map count_placeholders cs) + sum_list (map count_placeholders rs)
     + (case el of Some e \<Rightarrow> count_placeholders e | None \<Rightarrow> 0)"
| "count_placeholders (Function f args d) = sum_list (map count_arg args)"
| "count_placeholders Subquery = 0"
| "count_placeholders ExistsE = 0"
| "count_placeholders OtherExpr = 0"
| "count_arg (UnnamedArg e) = count_placeholders e"
| "count_arg (NamedArg e) = count_placeholders e"
| "count_arg WildcardArg = 0"
| "count_arg OtherArg = 0"

end
