(* ===== verification/Skvs_Expr_Facts.thy ===== *)
theory Skvs_Expr_Facts
  imports Skvs_Expr
begin

text \<open>
  What holds of the evaluator: it returns on every expression without \<open>%\<close>, it moves the
  placeholder position by what \<open>count_placeholders\<close> counts (exactly, on expressions that skip
  and repeat nothing), it ignores the row on expressions without columns, \<open>LIKE\<close> is the
  declarative \<open>like_spec\<close>, and integer arithmetic, which goes through floats, is exact up to
  53 bits.
\<close>

section \<open>Predicates on all subexpressions\<close>

fun expr_all :: "(expr \<Rightarrow> bool) \<Rightarrow> expr \<Rightarrow> bool"
  and arg_all :: "(expr \<Rightarrow> bool) \<Rightarrow> func_arg \<Rightarrow> bool" where
  "expr_all P (Nested e) = (P (Nested e) \<and> expr_all P e)"
| "expr_all P (UnaryOp op e) = (P (UnaryOp op e) \<and> expr_all P e)"
| "expr_all P (BinaryOp l op r) = (P (BinaryOp l op r) \<and> expr_all P l \<and> expr_all P r)"
| "expr_all P (IsNull e) = (P (IsNull e) \<and> expr_all P e)"
| "expr_all P (IsNotNull e) = (P (IsNotNull e) \<and> expr_all P e)"
| "expr_all P (Between e n lo hi) =
     (P (Between e n lo hi) \<and> expr_all P e \<and> expr_all P lo \<and> expr_all P hi)"
| "expr_all P (InList e es n) = (P (InList e es n) \<and> expr_all P e \<and> (\<forall>x\<in>set es. expr_all P x))"
| "expr_all P (Like n e p) = (P (Like n e p) \<and> expr_all P e \<and> expr_all P p)"
| "expr_all P (ILike n e p) = (P (ILike n e p) \<and> expr_all P e \<and> expr_all P p)"
| "expr_all P (Case opr cs rs el) =
     (P (Case opr cs rs el) \<and> (case opr of Some e \<Rightarrow> expr_all P e | None \<Rightarrow> True) \<and>
      (\<forall>x\<in>set cs. expr_all P x) \<and> (\<forall>x\<in>set rs. expr_all P x) \<and>
      (case el of Some e \<Rightarrow> expr_all P e | None \<Rightarrow> True))"
| "expr_all P (Function f args d) = (P (Function f args d) \<and> (\<forall>a\<in>set args. arg_all P a))"
| "expr_all P e = P e"
| "arg_all P (UnnamedArg e) = expr_all P e"
| "arg_all P (NamedArg e) = expr_all P e"
| "arg_all P WildcardArg = True"
| "arg_all P OtherArg = True"

definition opt_all :: "('a \<Rightarrow> bool) \<Rightarrow> 'a option \<Rightarrow> bool" where
  "opt_all P x = (case x of Some y \<Rightarrow> P y | None \<Rightarrow> True)"

fun modulo_free :: "expr \<Rightarrow> bool" where
  "modulo_free (BinaryOp l op r) = (op \<noteq> BModulo)"
| "modulo_free _ = True"

fun column_free :: "expr \<Rightarrow> bool" where
  "column_free (Identifier x) = False"
| "column_free (CompoundIdentifier xs) = False"
| "column_free _ = True"

fun case_free :: "expr \<Rightarrow> bool" where
  "case_free (Case opr cs rs el) = False"
| "case_free _ = True"

text \<open>No construct that skips or repeats a subexpression.\<close>

fun strict_node :: "expr \<Rightarrow> bool" where
  "strict_node (Case opr cs rs el) = False"
| "strict_node (InList e es n) = False"
| "strict_node (BinaryOp l op r) = (op \<noteq> BAnd)"
| "strict_node _ = True"

section \<open>Totality\<close>

lemma arithmetic_total: "op \<noteq> BModulo \<Longrightarrow> is_done (arithmetic l op r)"
  by (auto simp: arithmetic_def split: option.splits binary_operator.splits)

lemma binary_value_total: "op \<noteq> BModulo \<Longrightarrow> is_done (binary_value op l r)"
  using arithmetic_total by (auto simp: binary_value_def split: binary_operator.splits)

lemma eval_total_all:
  "expr_all modulo_free e \<Longrightarrow> is_done (eval E ctx ps e i)"
  "\<forall>a\<in>set args. arg_all modulo_free a \<Longrightarrow> is_done (eval_args E ctx ps args i)"
  "\<forall>x\<in>set es. expr_all modulo_free x \<Longrightarrow> is_done (eval_any E ctx ps v es i)"
  "opt_all (expr_all modulo_free) opr \<Longrightarrow> \<forall>x\<in>set cs. expr_all modulo_free x \<Longrightarrow>
   \<forall>x\<in>set rs. expr_all modulo_free x \<Longrightarrow> opt_all (expr_all modulo_free) els \<Longrightarrow>
   is_done (eval_case E ctx ps opr cs rs els i)"
proof (induction E ctx ps e i and E ctx ps args i and E ctx ps v es i
    and E ctx ps opr cs rs els i rule: eval_eval_args_eval_any_eval_case.induct)
  case (6 E ctx ps l op r i)
  then show ?case
    using binary_value_total [of op] by (auto 0 3 intro!: is_done_bind split: prod.splits)
qed (auto 0 3 intro!: is_done_bind simp: opt_all_def split: prod.splits option.splits)

lemma eval_total: "expr_all modulo_free e \<Longrightarrow> \<exists>v j. eval E ctx ps e i = Done (v, j)"
  using eval_total_all(1) [of e E ctx ps i] by (auto simp: is_done_iff)

section \<open>Placeholders\<close>

lemma eval_literal_index: "snd (eval_literal v ps i) = i + count_placeholders (ValueE v)"
  by (cases v) auto

lemma eval_index_all:
  "expr_all case_free e \<Longrightarrow> eval E ctx ps e i = Done (v, j) \<Longrightarrow>
     i \<le> j \<and> j \<le> i + count_placeholders e \<and> (expr_all strict_node e \<longrightarrow> j = i + count_placeholders e)"
  "\<forall>a\<in>set args. arg_all case_free a \<Longrightarrow> eval_args E ctx ps args i = Done (vs, j) \<Longrightarrow>
     i \<le> j \<and> j \<le> i + sum_list (map count_arg args) \<and>
     ((\<forall>a\<in>set args. arg_all strict_node a) \<longrightarrow> j = i + sum_list (map count_arg args))"
  "\<forall>x\<in>set es. expr_all case_free x \<Longrightarrow> eval_any E ctx ps w es i = Done (b, j) \<Longrightarrow>
     i \<le> j \<and> j \<le> i + sum_list (map count_placeholders es)"
  "eval_case E ctx ps opr cs rs els i = Done z \<Longrightarrow> True"
proof (induction E ctx ps e i and E ctx ps args i and E ctx ps w es i
    and E ctx ps opr cs rs els i arbitrary: v j and vs j and b j and z
    rule: eval_eval_args_eval_any_eval_case.induct)
  case (3 E ctx ps lit i)
  then show ?case using eval_literal_index [of lit ps i] by auto
next
  case (6 E ctx ps l op r i)
  then show ?case
    by (auto simp: outcome_simps split: if_splits) fastforce+
qed (auto simp: outcome_simps split: if_splits; fastforce)+


section \<open>Expressions without columns\<close>

lemma eval_column_free_all:
  "expr_all column_free e \<Longrightarrow> eval E ctx ps e i = eval E ctx' ps e i"
  "\<forall>a\<in>set args. arg_all column_free a \<Longrightarrow> eval_args E ctx ps args i = eval_args E ctx' ps args i"
  "\<forall>x\<in>set es. expr_all column_free x \<Longrightarrow> eval_any E ctx ps w es i = eval_any E ctx' ps w es i"
  "opt_all (expr_all column_free) opr \<Longrightarrow> \<forall>x\<in>set cs. expr_all column_free x \<Longrightarrow>
   \<forall>x\<in>set rs. expr_all column_free x \<Longrightarrow> opt_all (expr_all column_free) els \<Longrightarrow>
   eval_case E ctx ps opr cs rs els i = eval_case E ctx' ps opr cs rs els i"
proof (induction E ctx ps e i and E ctx ps args i and E ctx ps w es i
    and E ctx ps opr cs rs els i rule: eval_eval_args_eval_any_eval_case.induct)
qed (auto simp: opt_all_def split: prod.splits option.splits intro!: obind_cong)

lemmas eval_column_free = eval_column_free_all(1)

section \<open>LIKE\<close>

text \<open>The meaning of a pattern: \<open>%\<close> any run, \<open>_\<close> one character, anything else itself.\<close>

inductive like_spec :: "string \<Rightarrow> string \<Rightarrow> bool" where
  nil: "like_spec [] []"
| run: "like_spec t p \<Longrightarrow> like_spec (u @ t) (CHR ''%'' # p)"
| one: "like_spec t p \<Longrightarrow> like_spec (x # t) (CHR ''_'' # p)"
| lit: "c \<noteq> CHR ''%'' \<Longrightarrow> c \<noteq> CHR ''_'' \<Longrightarrow> like_spec t p \<Longrightarrow> like_spec (c # t) (c # p)"

inductive_cases like_spec_nilE: "like_spec t []"
inductive_cases like_spec_consE: "like_spec t (c # p)"

declare like_match_chars.simps(2) [simp del]

lemma like_match_cons [simp]:
  "like_match_chars t (CHR ''%'' # p) \<longleftrightarrow>
     like_match_chars t p \<or> (\<exists>x ts. t = x # ts \<and> like_match_chars ts (CHR ''%'' # p))"
  "like_match_chars t (CHR ''_'' # p) \<longleftrightarrow> (\<exists>x ts. t = x # ts \<and> like_match_chars ts p)"
  "c \<noteq> CHR ''%'' \<Longrightarrow> c \<noteq> CHR ''_'' \<Longrightarrow>
     like_match_chars t (c # p) \<longleftrightarrow> (\<exists>ts. t = c # ts \<and> like_match_chars ts p)"
  by (subst like_match_chars.simps(2), auto split: list.splits)
     (auto simp: like_match_chars.simps(2) split: list.splits)

declare like_match_cons(1) [simp del]

lemma like_match_run: "like_match_chars t p \<Longrightarrow> like_match_chars (u @ t) (CHR ''%'' # p)"
proof (induction u)
  case Nil
  then show ?case by (subst like_match_cons(1)) simp
next
  case (Cons x u)
  then show ?case by (subst like_match_cons(1)) simp
qed

lemma like_match_complete: "like_spec t p \<Longrightarrow> like_match_chars t p"
proof (induction rule: like_spec.induct)
  case (run t p u)
  then show ?case by (intro like_match_run)
qed auto

lemma like_spec_run_cons: "like_spec ts (CHR ''%'' # pat) \<Longrightarrow> like_spec (x # ts) (CHR ''%'' # pat)"
proof -
  assume "like_spec ts (CHR ''%'' # pat)"
  then obtain u t where "ts = u @ t" "like_spec t pat"
    by (auto elim: like_spec_consE)
  then show ?thesis using like_spec.run [of t pat "x # u"] by simp
qed

lemma like_match_sound: "like_match_chars t p \<Longrightarrow> like_spec t p"
proof (induction t p rule: like_match_chars.induct)
  case (1 s)
  then show ?case by (auto intro: like_spec.intros)
next
  case (2 s c pat)
  consider (pct) "c = CHR ''%''" | (us) "c = CHR ''_''" | (other) "c \<noteq> CHR ''%''" "c \<noteq> CHR ''_''"
    by blast
  then show ?case
  proof cases
    case pct
    have "like_spec s pat \<Longrightarrow> like_spec s (CHR ''%'' # pat)"
      using like_spec.run [of s pat "[]"] by simp
    moreover from pct "2.prems" have "like_match_chars s pat \<or>
        (\<exists>x ts. s = x # ts \<and> like_match_chars ts (CHR ''%'' # pat))"
      by (simp add: like_match_cons(1) [of s pat, symmetric])
    ultimately show ?thesis
      using pct "2.IH"(1,2) like_spec_run_cons by auto
  next
    case us
    with 2 show ?thesis by (auto intro: like_spec.intros)
  next
    case other
    with 2 show ?thesis by (auto intro: like_spec.intros)
  qed
qed

lemma like_match_spec: "like_match_chars t p \<longleftrightarrow> like_spec t p"
  using like_match_sound like_match_complete by blast

section \<open>Integer arithmetic through floats\<close>

lemma rat_trunc_of_int [simp]: "rat_trunc (of_int s) = s"
  by (simp add: rat_trunc_def floor_minus)

lemma f64_of_int_max: "f64_of_int 9223372036854775807 = FFin (2 ^ 63)"
proof -
  have "rlog2 9223372036854775807 = 62"
    by (simp add: rlog2_def ilog2.simps pow2_def)
  moreover have "\<lfloor>9223372036854775807 / 1024 :: rat\<rfloor> = 9007199254740991"
    by (simp add: floor_eq_iff)
  ultimately show ?thesis
    by (simp add: f64_of_int_def round64_def pow2_def round_half_even_def Let_def)
qed

lemma numeric_result_int:
  assumes "\<bar>s\<bar> \<le> 2 ^ 53"
  shows "numeric_result (FFin (of_int s)) True = VInteger (word_of_int s)"
proof -
  have abs: "f64_abs (FFin (of_int s)) = FFin (of_int \<bar>s\<bar>)"
    by (auto simp: f64_abs_def)
  have "(of_int \<bar>s\<bar> :: rat) < of_int (2 ^ 63)"
    unfolding of_int_less_iff by (rule le_less_trans [OF assms]) simp
  then have lt: "(of_int \<bar>s\<bar> :: rat) < 2 ^ 63" by simp
  have "max (- (2 ^ 63)) (min (2 ^ 63 - 1) s) = s" using assms by simp
  then show ?thesis
    using lt by (simp add: numeric_result_def abs f64_of_int_max f64_eq_def cmp_of_def del: of_int_abs)
qed

lemma numeric_result_neg_zero: "numeric_result FNegZero True = VInteger 0"
  by (simp add: numeric_result_def f64_of_int_max f64_abs_def f64_eq_def cmp_of_def)

lemma f64_add_int:
  "f64_add (FFin (of_int a)) (FFin (of_int b)) = f64_of_int (a + b)"
  by (simp add: f64_add_def f64_of_int_def Let_def flip: of_int_add)

lemma f64_neg_int: "b \<noteq> 0 \<Longrightarrow> f64_neg (FFin (of_int b)) = FFin (of_int (- b))"
  by simp

lemma f64_sub_int:
  "f64_sub (FFin (of_int a)) (FFin (of_int b)) = f64_of_int (a - b)"
proof (cases "b = 0")
  case True
  then show ?thesis
    using f64_add_int [of a 0]
    by (cases "a = 0") (simp_all add: f64_sub_def f64_add_def f64_of_int_def)
next
  case False
  then show ?thesis using f64_add_int [of a "- b"] by (simp add: f64_sub_def)
qed

lemma f64_mul_int:
  assumes "a * b \<noteq> 0"
  shows "f64_mul (FFin (of_int a)) (FFin (of_int b)) = f64_of_int (a * b)"
proof -
  have "((a < 0) \<noteq> (b < 0)) = (a * b < 0)"
    using assms by (auto simp: mult_less_0_iff)
  moreover have "\<bar>of_int a :: rat\<bar> * \<bar>of_int b\<bar> = of_int \<bar>a * b\<bar>"
    by (simp add: abs_mult)
  ultimately show ?thesis
    by (simp add: f64_mul_def f64_of_int_def)
qed

lemma f64_mul_int_zero:
  "a * b = 0 \<Longrightarrow> f64_mul (FFin (of_int a)) (FFin (of_int b)) = zero_of ((a < 0) \<noteq> (b < 0))"
  by (auto simp: f64_mul_def zero_of_def round64_def)

lemma numeric_result_of_int:
  "\<bar>s\<bar> \<le> 2 ^ 53 \<Longrightarrow> numeric_result (f64_of_int s) True = VInteger (word_of_int s)"
  by (simp only: f64_of_int_exact numeric_result_int)

lemma numeric_result_zero: "numeric_result (zero_of s) True = VInteger 0"
  using numeric_result_int [of 0] by (simp add: zero_of_def numeric_result_neg_zero)

definition small_int :: "i64 \<Rightarrow> bool" where
  "small_int i \<longleftrightarrow> \<bar>sint i\<bar> \<le> 2 ^ 53"

lemma to_f64_small: "small_int i \<Longrightarrow> to_f64 (VInteger i) = Some (FFin (of_int (sint i)))"
  by (simp only: to_f64.simps f64_of_i64_def small_int_def f64_of_int_exact)

lemma arithmetic_exact:
  assumes "small_int a" "small_int b"
  shows "\<bar>sint a + sint b\<bar> \<le> 2 ^ 53 \<Longrightarrow>
           arithmetic (VInteger a) BPlus (VInteger b) = Done (VInteger (a + b))"
    and "\<bar>sint a - sint b\<bar> \<le> 2 ^ 53 \<Longrightarrow>
           arithmetic (VInteger a) BMinus (VInteger b) = Done (VInteger (a - b))"
    and "\<bar>sint a * sint b\<bar> \<le> 2 ^ 53 \<Longrightarrow>
           arithmetic (VInteger a) BMultiply (VInteger b) = Done (VInteger (a * b))"
proof -
  note f = assms [THEN to_f64_small]
  have w: "word_of_int (sint a + sint b) = a + b" "word_of_int (sint a - sint b) = a - b"
    "word_of_int (sint a * sint b) = a * b"
    by (simp_all add: wi_hom_syms)
  show "\<bar>sint a + sint b\<bar> \<le> 2 ^ 53 \<Longrightarrow>
      arithmetic (VInteger a) BPlus (VInteger b) = Done (VInteger (a + b))"
    unfolding arithmetic_def f by (simp only: option.case prod.case binary_operator.case
      f64_add_int both_int.simps numeric_result_of_int w)
  show "\<bar>sint a - sint b\<bar> \<le> 2 ^ 53 \<Longrightarrow>
      arithmetic (VInteger a) BMinus (VInteger b) = Done (VInteger (a - b))"
    unfolding arithmetic_def f by (simp only: option.case prod.case binary_operator.case
      f64_sub_int both_int.simps numeric_result_of_int w)
  show "\<bar>sint a * sint b\<bar> \<le> 2 ^ 53 \<Longrightarrow>
      arithmetic (VInteger a) BMultiply (VInteger b) = Done (VInteger (a * b))"
  proof (cases "sint a * sint b = 0")
    case True
    then have "a * b = 0" using w(3) by (metis word_of_int_0)
    then show ?thesis
      unfolding arithmetic_def f by (simp only: option.case prod.case binary_operator.case
        f64_mul_int_zero [OF True] both_int.simps numeric_result_zero)
  next
    case False
    then show "\<bar>sint a * sint b\<bar> \<le> 2 ^ 53 \<Longrightarrow> ?thesis"
      unfolding arithmetic_def f by (simp only: option.case prod.case binary_operator.case
        f64_mul_int [OF False] both_int.simps numeric_result_of_int w)
  qed
qed

text \<open>Beyond 53 bits the sum is rounded.\<close>

lemma f64_of_int_rounds: "f64_of_int 9007199254740993 = FFin 9007199254740992"
proof -
  have "rlog2 9007199254740993 = 53"
    by (simp add: rlog2_def ilog2.simps pow2_def)
  moreover have "\<lfloor>9007199254740993 / 2 :: rat\<rfloor> = 4503599627370496"
    by (simp add: floor_eq_iff)
  ultimately show ?thesis
    by (simp add: f64_of_int_def round64_def pow2_def round_half_even_def Let_def)
qed

lemma arithmetic_rounds:
  "arithmetic (VInteger 9007199254740993) BPlus (VInteger 0) = Done (VInteger 9007199254740992)"
  using numeric_result_int [of 9007199254740992] f64_add_int [of 9007199254740992 0]
    f64_of_int_exact [of 0] f64_of_int_exact [of 9007199254740992]
  by (simp add: arithmetic_def f64_of_i64_def f64_of_int_rounds)

section \<open>Substrings\<close>

lemma substr_text_positive:
  assumes "0 < start" "0 \<le> len"
  shows "substr_text s start (Some len) = take (nat len) (drop (nat (start - 1)) s)"
proof (cases "int (length s) \<le> start - 1")
  case True
  then show ?thesis using assms by (simp add: substr_text_def Let_def)
next
  case False
  have "take (nat (min (start - 1 + len) (int (length s)) - (start - 1))) (drop (nat (start - 1)) s)
      = take (nat len) (drop (nat (start - 1)) s)"
    using False assms by (cases "start - 1 + len \<le> int (length s)") (simp_all add: min_def)
  then show ?thesis using False assms by (simp add: substr_text_def Let_def)
qed

text \<open>A number of magnitude at least one does not round to zero.\<close>

lemma round64_nonzero:
  assumes "1 \<le> r"
  shows "\<not> f64_eq (round64 neg r) (FFin 0)"
proof -
  define e where "e = max (rlog2 r - 52) (- 1074)"
  have "pow2 (rlog2 r - 52) \<le> pow2 (rlog2 r)" by (rule pow2_mono) simp
  also have "\<dots> \<le> r" by (rule rlog2_lower) (use assms in simp)
  finally have a: "pow2 (rlog2 r - 52) \<le> r" .
  have "pow2 (- 1074) \<le> 1" by (simp add: pow2_def)
  with a have "pow2 e \<le> r" using assms unfolding e_def max_def
    by (cases "rlog2 r - 52 \<le> - 1074") (auto intro: order_trans)
  then have "1 \<le> r / pow2 e" by (simp add: pow2_pos)
  then have "1 \<le> \<lfloor>r / pow2 e\<rfloor>" by (simp add: le_floor_iff)
  moreover have "\<lfloor>x\<rfloor> \<le> round_half_even x" for x
    unfolding round_half_even_def Let_def by (simp only: split: if_split) linarith
  ultimately have "1 \<le> round_half_even (r / pow2 e)" by (meson order_trans)
  moreover have "pow2 e \<noteq> 0" by (metis less_irrefl pow2_pos)
  ultimately have "of_int (round_half_even (r / pow2 e)) * pow2 e \<noteq> 0" by simp
  then show ?thesis
    using assms by (auto simp: round64_def Let_def f64_eq_def cmp_of_def simp flip: e_def)
qed

lemma f64_of_int_zero: "f64_eq (f64_of_int i) (FFin 0) \<longleftrightarrow> i = 0"
proof (cases "i = 0")
  case True
  then show ?thesis by (simp add: f64_of_int_def round64_def f64_eq_def)
next
  case False
  then have "1 \<le> \<bar>i\<bar>" by linarith
  then have "(1 :: rat) \<le> of_int \<bar>i\<bar>" by (metis of_int_1 of_int_le_iff)
  from round64_nonzero [OF this] False show ?thesis by (simp add: f64_of_int_def)
qed

lemma f64_of_i64_zero: "f64_eq (f64_of_i64 j) (FFin 0) \<longleftrightarrow> j = 0"
  unfolding f64_of_i64_def f64_of_int_zero by (metis signed_0 sint_0 signed_word_eqI)

text \<open>The remainder of two integers never goes through floats.\<close>

lemma arithmetic_int_modulo:
  "arithmetic (VInteger i) BModulo (VInteger j) = (if j = 0 then Done VNull else i64_rem i j)"
  by (simp add: arithmetic_def f64_of_i64_zero)

lemma arithmetic_code [code]:
  "arithmetic l op r =
     (case (l, op, r) of
        (VInteger i, BModulo, VInteger j) \<Rightarrow> (if j = 0 then Done VNull else i64_rem i j)
      | _ \<Rightarrow>
        (case (to_f64 l, to_f64 r) of
           (Some lf, Some rf) \<Rightarrow>
             (case op of
                BPlus \<Rightarrow> Done (numeric_result (f64_add lf rf) (both_int l r))
              | BMinus \<Rightarrow> Done (numeric_result (f64_sub lf rf) (both_int l r))
              | BMultiply \<Rightarrow> Done (numeric_result (f64_mul lf rf) (both_int l r))
              | BDivide \<Rightarrow> (if f64_eq rf (FFin 0) then Done VNull
                           else Done (numeric_result (f64_div lf rf) False))
              | BModulo \<Rightarrow> (if f64_eq rf (FFin 0) then Done VNull
                           else Done (VReal (f64_rem lf rf)))
              | _ \<Rightarrow> Done VNull)
         | _ \<Rightarrow> Done VNull))"
  by (cases l; cases r; cases op) (simp_all add: arithmetic_int_modulo, simp_all add: arithmetic_def)

end
