(* ===== verification/Skvs_BTree.thy ===== *)
theory Skvs_BTree
  imports Skvs_Schema
begin

text \<open>
  The ordered containers the engine uses with a comparison function: \<open>BTreeMap\<close> (secondary
  indexes) as a list in key order, and the stable \<open>sort_by\<close>. The locale \<open>keyed_order\<close> states
  what a comparison promises (on operands it can order exactly it is the order of a key), and
  its lemmas say what the containers then do. With a comparison that breaks that contract the
  standard library promises nothing but memory safety, and no lemma speaks about it.
\<close>

section \<open>Operations\<close>

type_synonym ('k, 'v) btree = "('k \<times> 'v) list"

fun bt_lookup :: "('k \<Rightarrow> 'k \<Rightarrow> ordering) \<Rightarrow> ('k, 'v) btree \<Rightarrow> 'k \<Rightarrow> 'v option" where
  "bt_lookup cmp [] k = None"
| "bt_lookup cmp ((k', v) # m) k =
     (case cmp k k' of Less \<Rightarrow> None | Equal \<Rightarrow> Some v | Greater \<Rightarrow> bt_lookup cmp m k)"

text \<open>\<open>map.entry(k).or_insert(d)\<close> followed by a change of the value in place.\<close>

fun bt_entry :: "('k \<Rightarrow> 'k \<Rightarrow> ordering) \<Rightarrow> 'k \<Rightarrow> 'v \<Rightarrow> ('v \<Rightarrow> 'v) \<Rightarrow> ('k, 'v) btree \<Rightarrow> ('k, 'v) btree" where
  "bt_entry cmp k d f [] = [(k, f d)]"
| "bt_entry cmp k d f ((k', v) # m) =
     (case cmp k k' of
        Less \<Rightarrow> (k, f d) # (k', v) # m
      | Equal \<Rightarrow> (k', f v) # m
      | Greater \<Rightarrow> (k', v) # bt_entry cmp k d f m)"

fun bt_modify :: "('k \<Rightarrow> 'k \<Rightarrow> ordering) \<Rightarrow> 'k \<Rightarrow> ('v \<Rightarrow> 'v) \<Rightarrow> ('k, 'v) btree \<Rightarrow> ('k, 'v) btree" where
  "bt_modify cmp k f [] = []"
| "bt_modify cmp k f ((k', v) # m) =
     (case cmp k k' of
        Less \<Rightarrow> (k', v) # m
      | Equal \<Rightarrow> (k', f v) # m
      | Greater \<Rightarrow> (k', v) # bt_modify cmp k f m)"

fun bt_remove :: "('k \<Rightarrow> 'k \<Rightarrow> ordering) \<Rightarrow> 'k \<Rightarrow> ('k, 'v) btree \<Rightarrow> ('k, 'v) btree" where
  "bt_remove cmp k [] = []"
| "bt_remove cmp k ((k', v) # m) =
     (case cmp k k' of
        Less \<Rightarrow> (k', v) # m
      | Equal \<Rightarrow> m
      | Greater \<Rightarrow> (k', v) # bt_remove cmp k m)"

datatype 'k bound = Included 'k | Excluded 'k | Unbounded

fun above :: "('k \<Rightarrow> 'k \<Rightarrow> ordering) \<Rightarrow> 'k bound \<Rightarrow> 'k \<Rightarrow> bool" where
  "above cmp (Included b) k = (cmp k b \<noteq> Less)"
| "above cmp (Excluded b) k = (cmp k b = Greater)"
| "above cmp Unbounded k = True"

fun below :: "('k \<Rightarrow> 'k \<Rightarrow> ordering) \<Rightarrow> 'k bound \<Rightarrow> 'k \<Rightarrow> bool" where
  "below cmp (Included b) k = (cmp k b \<noteq> Greater)"
| "below cmp (Excluded b) k = (cmp k b = Less)"
| "below cmp Unbounded k = True"

text \<open>\<open>BTreeMap::range\<close> panics on a start behind the end, and on two equal excluded bounds.\<close>

fun range_panics :: "('k \<Rightarrow> 'k \<Rightarrow> ordering) \<Rightarrow> 'k bound \<Rightarrow> 'k bound \<Rightarrow> bool" where
  "range_panics cmp (Included a) (Included b) = (cmp a b = Greater)"
| "range_panics cmp (Included a) (Excluded b) = (cmp a b = Greater)"
| "range_panics cmp (Excluded a) (Included b) = (cmp a b = Greater)"
| "range_panics cmp (Excluded a) (Excluded b) = (cmp a b \<noteq> Less)"
| "range_panics cmp _ _ = False"

definition bt_range ::
  "('k \<Rightarrow> 'k \<Rightarrow> ordering) \<Rightarrow> 'k bound \<Rightarrow> 'k bound \<Rightarrow> ('k, 'v) btree \<Rightarrow> ('k, 'v) btree outcome" where
  "bt_range cmp lo hi m =
     (if range_panics cmp lo hi then Panic
      else Done (filter (\<lambda>(k, _). above cmp lo k \<and> below cmp hi k) m))"

text \<open>\<open>slice::sort_by\<close>: stable.\<close>

fun insort_by :: "('a \<Rightarrow> 'a \<Rightarrow> ordering) \<Rightarrow> 'a \<Rightarrow> 'a list \<Rightarrow> 'a list" where
  "insort_by cmp x [] = [x]"
| "insort_by cmp x (y # ys) = (if cmp x y = Greater then y # insort_by cmp x ys else x # y # ys)"

definition sort_by :: "('a \<Rightarrow> 'a \<Rightarrow> ordering) \<Rightarrow> 'a list \<Rightarrow> 'a list" where
  "sort_by cmp xs = foldr (insort_by cmp) xs []"

lemma mset_insort_by [simp]: "mset (insort_by cmp x xs) = add_mset x (mset xs)"
  by (induction xs) auto

lemma mset_sort_by [simp]: "mset (sort_by cmp xs) = mset xs"
  unfolding sort_by_def by (induction xs) auto

lemma set_insort_by [simp]: "set (insort_by cmp x xs) = insert x (set xs)"
  by (induction xs) auto

lemma set_sort_by [simp]: "set (sort_by cmp xs) = set xs"
  by (metis mset_sort_by set_mset_mset)

section \<open>A comparison that is the order of a key\<close>

definition good :: "('a \<Rightarrow> 'a \<Rightarrow> bool) \<Rightarrow> 'a set \<Rightarrow> bool" where
  "good ok S \<longleftrightarrow> (\<forall>a\<in>S. \<forall>b\<in>S. ok a b)"

text \<open>A well-formed map: its keys are mutually comparable and strictly increasing.\<close>

definition bt_wf :: "('a \<Rightarrow> 'b :: linorder) \<Rightarrow> ('a \<Rightarrow> 'a \<Rightarrow> bool) \<Rightarrow> ('a, 'v) btree \<Rightarrow> bool" where
  "bt_wf key ok m \<longleftrightarrow>
     good ok (fst ` set m) \<and> sorted_wrt (\<lambda>x y. key (fst x) < key (fst y)) m"

text \<open>The map from order keys to values it stands for.\<close>

definition bt_abs :: "('a \<Rightarrow> 'b) \<Rightarrow> ('a, 'v) btree \<Rightarrow> 'b \<Rightarrow> 'v option" where
  "bt_abs key m = map_of (map (\<lambda>(k, v). (key k, v)) m)"

locale keyed_order =
  fixes cmp :: "'a \<Rightarrow> 'a \<Rightarrow> ordering"
    and key :: "'a \<Rightarrow> 'b :: linorder"
    and ok :: "'a \<Rightarrow> 'a \<Rightarrow> bool"
  assumes cmp_key: "ok a b \<Longrightarrow> cmp a b = cmp_of (key a) (key b)"
begin

lemma good_mono: "good ok S \<Longrightarrow> T \<subseteq> S \<Longrightarrow> good ok T"
  by (auto simp: good_def)

lemma good_cmp: "good ok S \<Longrightarrow> a \<in> S \<Longrightarrow> b \<in> S \<Longrightarrow> cmp a b = cmp_of (key a) (key b)"
  by (auto simp: good_def cmp_key)

lemma bt_abs_Nil [simp]: "bt_abs key [] = (\<lambda>_. None)"
  by (auto simp: bt_abs_def)

lemma bt_abs_Cons: "bt_abs key ((k, v) # m) = (bt_abs key m)(key k \<mapsto> v)"
  by (simp add: bt_abs_def)

lemma bt_wf_Nil [simp]: "bt_wf key ok []"
  by (simp add: bt_wf_def good_def)

lemma bt_abs_above:
  "bt_wf key ok ((k', v) # m) \<Longrightarrow> x \<le> key k' \<Longrightarrow> bt_abs key m x = None"
  by (auto simp: bt_wf_def bt_abs_def map_of_eq_None_iff)

lemma bt_wf_ConsD: "bt_wf key ok (x # m) \<Longrightarrow> bt_wf key ok m"
  by (auto simp: bt_wf_def intro: good_mono)

lemma good_head: "good ok (insert k (fst ` set ((k', v) # m))) \<Longrightarrow> cmp k k' = cmp_of (key k) (key k')"
  by (rule good_cmp) auto

lemma good_tail: "good ok (insert k (fst ` set (x # m))) \<Longrightarrow> good ok (insert k (fst ` set m))"
  by (auto intro: good_mono)

lemma bt_lookup_abs:
  "bt_wf key ok m \<Longrightarrow> good ok (insert k (fst ` set m)) \<Longrightarrow> bt_lookup cmp m k = bt_abs key m (key k)"
proof (induction m)
  case (Cons x m)
  obtain k' v where x: "x = (k', v)" by force
  show ?case
    using Cons.IH [OF bt_wf_ConsD [OF Cons.prems(1)] good_tail [OF Cons.prems(2)]]
      Cons.prems x bt_abs_above [of k' v m "key k"]
    by (auto simp: good_head bt_abs_Cons cmp_of_def)
qed simp

lemma keys_bt_entry:
  "fst ` set (bt_entry cmp k d f m) \<subseteq> insert k (fst ` set m)"
proof (induction m)
  case (Cons x m)
  obtain k' v where x: "x = (k', v)" by force
  show ?case using Cons.IH by (cases "cmp k k'") (auto simp: x)
qed simp

lemma bt_entry_abs:
  "bt_wf key ok m \<Longrightarrow> good ok (insert k (fst ` set m)) \<Longrightarrow>
   bt_abs key (bt_entry cmp k d f m) =
     (bt_abs key m)(key k \<mapsto> f (case bt_abs key m (key k) of Some v \<Rightarrow> v | None \<Rightarrow> d))"
proof (induction m)
  case Nil
  then show ?case by (simp add: bt_abs_Cons)
next
  case (Cons x m)
  obtain k' v where x: "x = (k', v)" by force
  show ?case
    using Cons.IH [OF bt_wf_ConsD [OF Cons.prems(1)] good_tail [OF Cons.prems(2)]]
      Cons.prems x bt_abs_above [of k' v m "key k"]
    by (auto simp: good_head bt_abs_Cons cmp_of_def fun_eq_iff)
qed

lemma sorted_key_mono:
  "fst ` set m' \<subseteq> insert k (fst ` set m) \<Longrightarrow> key k' < key k \<Longrightarrow>
   sorted_wrt (\<lambda>x y. key (fst x) < key (fst y)) ((k', v) # m) \<Longrightarrow>
   \<forall>y \<in> set m'. key k' < key (fst y)"
  by (auto 0 4)

lemma bt_entry_wf:
  "bt_wf key ok m \<Longrightarrow> good ok (insert k (fst ` set m)) \<Longrightarrow> bt_wf key ok (bt_entry cmp k d f m)"
proof (induction m)
  case Nil
  then show ?case by (simp add: bt_wf_def)
next
  case (Cons x m)
  obtain k' v where x: "x = (k', v)" by force
  have IH: "bt_wf key ok (bt_entry cmp k d f m)"
    using Cons.IH [OF bt_wf_ConsD [OF Cons.prems(1)] good_tail [OF Cons.prems(2)]] .
  have g: "good ok (fst ` set (bt_entry cmp k d f (x # m)))"
    by (rule good_mono [OF Cons.prems(2) keys_bt_entry])
  have s: "sorted_wrt (\<lambda>x y. key (fst x) < key (fst y)) (x # m)"
    using Cons.prems(1) by (simp add: bt_wf_def)
  show ?case
    using IH g s x Cons.prems(2) keys_bt_entry [of k d f m]
      sorted_key_mono [of "bt_entry cmp k d f m" k m k' v]
    by (auto simp: good_head bt_wf_def cmp_of_def split: if_splits)
qed

lemma keys_bt_modify [simp]: "map fst (bt_modify cmp k f m) = map fst m"
  by (induction m) (auto split: ordering.splits)

lemma sorted_wrt_keys:
  "sorted_wrt (\<lambda>x y. key (fst x) < key (fst y)) m \<longleftrightarrow> sorted_wrt (\<lambda>x y. key x < key y) (map fst m)"
  by (simp add: sorted_wrt_map)

lemma bt_modify_wf: "bt_wf key ok m \<Longrightarrow> bt_wf key ok (bt_modify cmp k f m)"
  by (simp add: bt_wf_def sorted_wrt_keys set_map [symmetric] del: set_map)

lemma bt_modify_abs:
  "bt_wf key ok m \<Longrightarrow> good ok (insert k (fst ` set m)) \<Longrightarrow>
   bt_abs key (bt_modify cmp k f m) = (bt_abs key m)(key k := map_option f (bt_abs key m (key k)))"
proof (induction m)
  case (Cons x m)
  obtain k' v where x: "x = (k', v)" by force
  show ?case
    using Cons.IH [OF bt_wf_ConsD [OF Cons.prems(1)] good_tail [OF Cons.prems(2)]]
      Cons.prems x bt_abs_above [of k' v m "key k"]
    by (auto simp: good_head bt_abs_Cons cmp_of_def fun_eq_iff)
qed auto

lemma keys_bt_remove: "set (bt_remove cmp k m) \<subseteq> set m"
  by (induction m) (auto split: ordering.splits)

lemma bt_remove_wf: "bt_wf key ok m \<Longrightarrow> bt_wf key ok (bt_remove cmp k m)"
proof (induction m)
  case (Cons x m)
  have g: "good ok (fst ` set (bt_remove cmp k (x # m)))"
    using Cons.prems keys_bt_remove [of k "x # m"] by (auto simp: bt_wf_def intro: good_mono)
  show ?case
    using g Cons.IH [OF bt_wf_ConsD [OF Cons.prems]] Cons.prems keys_bt_remove [of k m]
    by (cases x) (auto simp: bt_wf_def split: ordering.splits)
qed simp

lemma bt_remove_abs:
  "bt_wf key ok m \<Longrightarrow> good ok (insert k (fst ` set m)) \<Longrightarrow>
   bt_abs key (bt_remove cmp k m) = (bt_abs key m)(key k := None)"
proof (induction m)
  case (Cons x m)
  obtain k' v where x: "x = (k', v)" by force
  show ?case
    using Cons.IH [OF bt_wf_ConsD [OF Cons.prems(1)] good_tail [OF Cons.prems(2)]]
      Cons.prems x bt_abs_above [of k' v m "key k"]
    by (auto simp: good_head bt_abs_Cons cmp_of_def fun_eq_iff)
qed auto

lemma bt_abs_set: "bt_wf key ok m \<Longrightarrow> bt_abs key m q = Some v \<longleftrightarrow> (\<exists>k. (k, v) \<in> set m \<and> key k = q)"
proof (induction m)
  case (Cons x m)
  obtain k' w where x: "x = (k', w)" by force
  have "bt_abs key m (key k') = None"
    using bt_abs_above [of k' w m "key k'"] Cons.prems x by simp
  then show ?case
    using Cons.IH [OF bt_wf_ConsD [OF Cons.prems]] x by (auto simp: bt_abs_Cons)
qed simp

lemma insort_by_key:
  "good ok (insert x (set xs)) \<Longrightarrow> insort_by cmp x xs = insort_key key x xs"
proof (induction xs)
  case (Cons y ys)
  have "cmp x y = cmp_of (key x) (key y)" by (rule good_cmp [OF Cons.prems]) auto
  moreover have "good ok (insert x (set ys))" using Cons.prems by (auto intro: good_mono)
  ultimately show ?case using Cons.IH by (auto simp: cmp_of_def)
qed simp

lemma sort_by_key: "good ok (set xs) \<Longrightarrow> sort_by cmp xs = sort_key key xs"
proof (induction xs)
  case (Cons x xs)
  have "good ok (set xs)" using Cons.prems by (auto intro: good_mono)
  then have "sort_by cmp xs = sort_key key xs" by (rule Cons.IH)
  moreover have "good ok (insert x (set (sort_key key xs)))" using Cons.prems by simp
  ultimately show ?case
    using insort_by_key [of x "sort_key key xs"] by (simp add: sort_by_def)
qed (simp add: sort_by_def)

end

text \<open>\<open>Value::compare\<close> keeps the contract on values it compares exactly.\<close>

interpretation value_order: keyed_order value_compare value_key comparable
  by unfold_locales (rule value_compare_key)

lemma good_comparable_set: "good comparable S \<longleftrightarrow> comparable_set S"
  by (simp add: good_def comparable_set_def)

end
