(* ===== verification/Skvs_Aggregate.thy ===== *)
theory Skvs_Aggregate
  imports Skvs_Expr_Facts Skvs_BTree
begin

text \<open>
  GROUP BY and its aggregates, ORDER BY, LIMIT, DISTINCT and the SELECT list of
  \<^verbatim>\<open>src/src/sql/select.rs\<close>. Groups and distinct rows are told apart by the \<open>Debug\<close> rendering
  of their values. What the groups and aggregates are is in \<open>Skvs_Groups\<close>, that ORDER BY sorts in
  \<open>Skvs_Order\<close>.
\<close>

section \<open>Debug renderings\<close>

definition escape_char :: "char \<Rightarrow> string" where
  "escape_char c =
     (if c = CHR 0x00 then [CHR 0x5C, CHR ''0'']
      else if c = CHR 0x09 then [CHR 0x5C, CHR ''t'']
      else if c = CHR 0x0D then [CHR 0x5C, CHR ''r'']
      else if c = CHR 0x0A then [CHR 0x5C, CHR ''n'']
      else if c = CHR 0x22 \<or> c = CHR 0x5C then [CHR 0x5C, c]
      else if 32 \<le> char_val c \<and> char_val c \<le> 126 then [c]
      else [CHR 0x5C] @ ''u{'' @
        (if char_val c < 16 then [hex_digit (char_val c)]
         else [hex_digit (char_val c div 16), hex_digit (char_val c mod 16)]) @ ''}'')"

definition debug_str :: "string \<Rightarrow> string" where
  "debug_str s = [CHR 0x22] @ concat (map escape_char s) @ [CHR 0x22]"

fun value_debug :: "skvs_value \<Rightarrow> string" where
  "value_debug VNull = ''Null''"
| "value_debug (VInteger i) = ''Integer('' @ show_int (sint i) @ '')''"
| "value_debug (VReal f) = ''Real('' @ debug_f64 f @ '')''"
| "value_debug (VText s) = ''Text('' @ debug_str s @ '')''"
| "value_debug (VBlob b) =
     ''Blob(['' @ join '', '' (map (\<lambda>w. show_uint (uint w)) b) @ ''])''"

text \<open>\<open>Vec::retain\<close> with a set of the keys seen: the first of each key stays.\<close>

fun retain_first :: "('a \<Rightarrow> string) \<Rightarrow> string list \<Rightarrow> 'a list \<Rightarrow> 'a list" where
  "retain_first key seen [] = []"
| "retain_first key seen (x # xs) =
     (if key x \<in> set seen then retain_first key seen xs
      else x # retain_first key (key x # seen) xs)"

definition row_key :: "row \<Rightarrow> string" where
  "row_key r = concat (map (\<lambda>(k, v). k @ '':'' @ value_debug v) r)"

definition distinct_rows :: "row list \<Rightarrow> row list" where
  "distinct_rows rows = retain_first row_key [] rows"

section \<open>Aggregates\<close>

definition aggregate_ident :: "func_arg list \<Rightarrow> string option" where
  "aggregate_ident args =
     (case args of
        UnnamedArg (Identifier i) # _ \<Rightarrow> Some (id_value i)
      | UnnamedArg (CompoundIdentifier parts) # _ \<Rightarrow>
          (if parts = [] then None else Some (id_value (last parts)))
      | _ \<Rightarrow> None)"

definition is_star :: "func_arg list \<Rightarrow> bool" where
  "is_star args \<longleftrightarrow> (case args of WildcardArg # _ \<Rightarrow> True | _ \<Rightarrow> False)"

definition numeric :: "skvs_value option \<Rightarrow> f64 option" where
  "numeric v =
     (case v of
        Some (VInteger i) \<Rightarrow> Some (f64_of_i64 i)
      | Some (VReal f) \<Rightarrow> Some f
      | _ \<Rightarrow> None)"

definition column_values :: "row list \<Rightarrow> string \<Rightarrow> skvs_value list" where
  "column_values rows col = List.map_filter (\<lambda>r. map_of r col) rows"

definition numeric_values :: "row list \<Rightarrow> string \<Rightarrow> f64 list" where
  "numeric_values rows col = List.map_filter (\<lambda>r. numeric (map_of r col)) rows"

definition f64_sum :: "f64 list \<Rightarrow> f64" where
  "f64_sum fs = foldl f64_add (FFin 0) fs"

text \<open>\<open>max_by\<close> keeps the last of equal elements, \<open>min_by\<close> the first.\<close>

definition max_value :: "skvs_value list \<Rightarrow> skvs_value" where
  "max_value vs =
     (case vs of
        [] \<Rightarrow> VNull
      | v # vs \<Rightarrow> foldl (\<lambda>x y. if value_compare x y = Greater then x else y) v vs)"

definition min_value :: "skvs_value list \<Rightarrow> skvs_value" where
  "min_value vs =
     (case vs of
        [] \<Rightarrow> VNull
      | v # vs \<Rightarrow> foldl (\<lambda>x y. if value_compare x y = Greater then y else x) v vs)"

definition count_rows :: "func_arg list \<Rightarrow> bool \<Rightarrow> row list \<Rightarrow> skvs_value" where
  "count_rows args is_distinct rows =
     VInteger (word_of_nat
       (if is_star args \<or> args = [] then length rows
        else (case aggregate_ident args of
                Some col \<Rightarrow>
                  (let vals = filter (\<lambda>v. \<not> is_null v) (column_values rows col)
                   in length (if is_distinct then retain_first value_debug [] vals else vals))
              | None \<Rightarrow> length rows)))"

definition sum_rows :: "string \<Rightarrow> row list \<Rightarrow> skvs_value" where
  "sum_rows col rows =
     (let total = f64_sum (numeric_values rows col)
      in if f64_eq (f64_fract total) (FFin 0) then VInteger (f64_to_i64 total) else VReal total)"

definition avg_rows :: "string \<Rightarrow> row list \<Rightarrow> skvs_value" where
  "avg_rows col rows =
     (let vals = numeric_values rows col
      in if vals = [] then VNull
         else VReal (f64_div (f64_sum vals) (f64_of_int (int (length vals)))))"

definition on_column :: "(string \<Rightarrow> skvs_value) \<Rightarrow> func_arg list \<Rightarrow> skvs_value" where
  "on_column f args = (case aggregate_ident args of Some col \<Rightarrow> f col | None \<Rightarrow> VNull)"

definition evaluate_aggregate :: "('x) env_scheme \<Rightarrow> expr \<Rightarrow> row list \<Rightarrow> skvs_value" where
  "evaluate_aggregate E e rows =
     (case e of
        Function name args is_distinct \<Rightarrow>
          (let f = to_lowercase (object_name_to_string E name) in
           if f = ''count'' then count_rows args is_distinct rows
           else if f = ''sum'' then on_column (\<lambda>col. sum_rows col rows) args
           else if f = ''avg'' then on_column (\<lambda>col. avg_rows col rows) args
           else if f = ''max'' then on_column (\<lambda>col. max_value (column_values rows col)) args
           else if f = ''min'' then on_column (\<lambda>col. min_value (column_values rows col)) args
           else VNull)
      | Identifier i \<Rightarrow>
          (case rows of
             [] \<Rightarrow> VNull
           | r # _ \<Rightarrow> (case map_of r (id_value i) of Some v \<Rightarrow> v | None \<Rightarrow> VNull))
      | _ \<Rightarrow> VNull)"

section \<open>GROUP BY\<close>

definition group_key :: "('x) env_scheme \<Rightarrow> expr list \<Rightarrow> row \<Rightarrow> string outcome" where
  "group_key E exprs r =
     obind (omap (\<lambda>e. obind (eval E (Some r) [] e 0) (\<lambda>(v, _). Done (value_debug v))) exprs)
       (\<lambda>ks. Done (join [CHR 0x01] ks))"

definition group_push :: "string \<times> row \<Rightarrow> (string \<times> row list) list \<Rightarrow> (string \<times> row list) list" where
  "group_push kr groups =
     AList.update (fst kr)
       ((case map_of groups (fst kr) of Some rs \<Rightarrow> rs | None \<Rightarrow> []) @ [snd kr]) groups"

definition group_rows :: "(string \<times> row) list \<Rightarrow> (string \<times> row list) list" where
  "group_rows keyed = fold group_push keyed []"

definition group_item :: "('x) env_scheme \<Rightarrow> row list \<Rightarrow> select_item \<Rightarrow> row \<Rightarrow> row" where
  "group_item E rows item out =
     (case item of
        UnnamedExpr e \<Rightarrow>
          AList.update (case e of Identifier i \<Rightarrow> id_value i | _ \<Rightarrow> expr_to_string E e)
            (evaluate_aggregate E e rows) out
      | ExprWithAlias e alias \<Rightarrow>
          AList.update (ident_to_string E alias) (evaluate_aggregate E e rows) out
      | _ \<Rightarrow> out)"

definition apply_group_by ::
  "('x) env_scheme \<Rightarrow> row list \<Rightarrow> group_by_expr \<Rightarrow> select_item list \<Rightarrow> row list outcome" where
  "apply_group_by E rows group_by projection =
     (case group_by of
        GroupByAll \<Rightarrow> Done rows
      | GroupByExprs exprs \<Rightarrow>
          (if exprs = [] then Done rows
           else obind (omap (\<lambda>r. obind (group_key E exprs r) (\<lambda>k. Done (k, r))) rows) (\<lambda>keyed.
             Done (map (\<lambda>(_, rs). fold (group_item E rs) projection []) (group_rows keyed)))))"

definition is_grouped :: "group_by_expr \<Rightarrow> bool" where
  "is_grouped g = (case g of GroupByExprs exprs \<Rightarrow> exprs \<noteq> [] | GroupByAll \<Rightarrow> False)"

section \<open>ORDER BY, LIMIT\<close>

definition order_compare :: "bool \<Rightarrow> skvs_value \<times> row \<Rightarrow> skvs_value \<times> row \<Rightarrow> ordering" where
  "order_compare asc a b =
     (let c = value_compare (fst a) (fst b) in if asc then c else ord_reverse c)"

text \<open>
  One pass; the expression is evaluated only when the sort compares two rows.
\<close>

definition order_pass :: "('x) env_scheme \<Rightarrow> order_by_expr \<Rightarrow> row list \<Rightarrow> row list outcome" where
  "order_pass E ob rows =
     (if length rows < 2 then Done rows
      else obind (omap (\<lambda>r. obind (eval E (Some r) [] (ob_expr ob) 0) (\<lambda>(v, _). Done (v, r))) rows)
        (\<lambda>keyed. Done (map snd (sort_by (order_compare (ob_asc ob \<noteq> Some False)) keyed))))"

fun order_passes :: "('x) env_scheme \<Rightarrow> order_by_expr list \<Rightarrow> row list \<Rightarrow> row list outcome" where
  "order_passes E [] rows = Done rows"
| "order_passes E (ob # obs) rows = obind (order_pass E ob rows) (order_passes E obs)"

definition apply_order_by :: "('x) env_scheme \<Rightarrow> row list \<Rightarrow> order_by_expr list \<Rightarrow> row list outcome" where
  "apply_order_by E rows order_by = order_passes E (rev order_by) rows"

definition expr_to_usize :: "expr \<Rightarrow> nat option" where
  "expr_to_usize e = (case e of ValueE (Number s) \<Rightarrow> parse_usize s | _ \<Rightarrow> None)"

definition apply_limit :: "row list \<Rightarrow> expr \<Rightarrow> expr option \<Rightarrow> row list" where
  "apply_limit rows limit_expr offset =
     (let limit = (case expr_to_usize limit_expr of Some n \<Rightarrow> n | None \<Rightarrow> length rows);
          offset_val = (case offset of
                          Some e \<Rightarrow> (case expr_to_usize e of Some n \<Rightarrow> n | None \<Rightarrow> 0)
                        | None \<Rightarrow> 0)
      in take limit (drop offset_val rows))"

section \<open>The SELECT list\<close>

definition column_name :: "('x) env_scheme \<Rightarrow> expr \<Rightarrow> string" where
  "column_name E e =
     (case e of
        Identifier i \<Rightarrow> id_value i
      | CompoundIdentifier parts \<Rightarrow>
          (if parts = [] then expr_to_string E e else id_value (last parts))
      | _ \<Rightarrow> expr_to_string E e)"

definition project_item ::
  "('x) env_scheme \<Rightarrow> skvs_value list \<Rightarrow> row \<Rightarrow> select_item \<Rightarrow> row \<Rightarrow> row outcome" where
  "project_item E ps r item out =
     (case item of
        Wildcard \<Rightarrow> Done (fold (\<lambda>(k, v) c. AList.update k v c) r out)
      | QualifiedWildcard \<Rightarrow> Done (fold (\<lambda>(k, v) c. AList.update k v c) r out)
      | UnnamedExpr e \<Rightarrow>
          obind (eval E (Some r) ps e 0) (\<lambda>(v, _). Done (AList.update (column_name E e) v out))
      | ExprWithAlias e alias \<Rightarrow>
          obind (eval E (Some r) ps e 0)
            (\<lambda>(v, _). Done (AList.update (ident_to_string E alias) v out)))"

fun project_row ::
  "('x) env_scheme \<Rightarrow> skvs_value list \<Rightarrow> row \<Rightarrow> select_item list \<Rightarrow> row \<Rightarrow> row outcome" where
  "project_row E ps r [] out = Done out"
| "project_row E ps r (item # items) out =
     obind (project_item E ps r item out) (project_row E ps r items)"

definition apply_projection ::
  "('x) env_scheme \<Rightarrow> row list \<Rightarrow> select_item list \<Rightarrow> skvs_value list \<Rightarrow> row list outcome" where
  "apply_projection E rows projection ps =
     (if list_all (\<lambda>item. item = Wildcard) projection then Done rows
      else omap (\<lambda>r. project_row E ps r projection []) rows)"

definition has_wildcard :: "select_item list \<Rightarrow> bool" where
  "has_wildcard projection \<longleftrightarrow>
     projection = [] \<or> list_ex (\<lambda>i. i = Wildcard \<or> i = QualifiedWildcard) projection"

definition get_projection_columns :: "('x) env_scheme \<Rightarrow> select_item list \<Rightarrow> string list" where
  "get_projection_columns E projection =
     (if projection = [] then [''*'']
      else map (\<lambda>item. case item of
                  UnnamedExpr e \<Rightarrow> column_name E e
                | ExprWithAlias e alias \<Rightarrow> ident_to_string E alias
                | _ \<Rightarrow> ''*'') projection)"

end
