(* ===== verification/Skvs_Fts.thy ===== *)
theory Skvs_Fts
  imports Skvs_Schema
begin

text \<open>
  The full-text index of \<^verbatim>\<open>src/src/fts.rs\<close>: tokens to row ids, document lengths and the
  document counter. The regular expression \<^verbatim>\<open>[a-zA-Z0-9]+\<close> is read as "maximal runs of
  ASCII letters and digits". \<open>fts_search_spec\<close>: on an index that covers a set of documents
  (\<open>fts_covers\<close>, kept by adding and removing documents) a search returns exactly the documents
  that contain every token of the query.
\<close>

record fts_index =
  fi_inverted :: "string \<Rightarrow> rowid set option"
  fi_doc_lengths :: "rowid \<Rightarrow> nat option"
  fi_total_docs :: u64

definition fts_new :: fts_index where
  "fts_new = \<lparr>fi_inverted = (\<lambda>_. None), fi_doc_lengths = (\<lambda>_. None), fi_total_docs = 0\<rparr>"

definition is_alnum :: "char \<Rightarrow> bool" where
  "is_alnum c \<longleftrightarrow> is_digit c \<or> (97 \<le> char_val c \<and> char_val c \<le> 122)
     \<or> (65 \<le> char_val c \<and> char_val c \<le> 90)"

text \<open>The non-overlapping matches of the expression, left to right.\<close>

fun alnum_runs :: "string \<Rightarrow> string \<Rightarrow> string list" where
  "alnum_runs acc [] = (if acc = [] then [] else [rev acc])"
| "alnum_runs acc (c # cs) =
     (if is_alnum c then alnum_runs (c # acc) cs
      else if acc = [] then alnum_runs [] cs else rev acc # alnum_runs [] cs)"

definition stopwords :: "string list" where
  "stopwords = [''a'', ''an'', ''the'', ''is'', ''are'', ''was'', ''were'', ''in'', ''on'', ''at'',
     ''to'', ''for'', ''of'', ''with'', ''without'', ''and'', ''or'', ''but'', ''so'', ''for'', ''yet'']"

definition tokenize :: "string \<Rightarrow> string list" where
  "tokenize s =
     filter (\<lambda>w. 2 < length w \<and> w \<notin> set stopwords) (alnum_runs [] (to_lowercase s))"

fun fts_insert_tokens :: "rowid \<Rightarrow> string list \<Rightarrow> (string \<Rightarrow> rowid set option) \<Rightarrow> (string \<Rightarrow> rowid set option)" where
  "fts_insert_tokens rid [] im = im"
| "fts_insert_tokens rid (tok # toks) im =
     fts_insert_tokens rid toks
       (im(tok := Some (insert rid (case im tok of Some s \<Rightarrow> s | None \<Rightarrow> {}))))"

definition add_document :: "fts_index \<Rightarrow> rowid \<Rightarrow> string \<Rightarrow> fts_index" where
  "add_document ix rid content =
     (let tokens = tokenize content in
      ix\<lparr>fi_doc_lengths := (fi_doc_lengths ix)(rid := Some (length tokens)),
         fi_total_docs := fi_total_docs ix + 1,
         fi_inverted := fts_insert_tokens rid tokens (fi_inverted ix)\<rparr>)"

fun fts_remove_tokens :: "rowid \<Rightarrow> string list \<Rightarrow> (string \<Rightarrow> rowid set option) \<Rightarrow> (string \<Rightarrow> rowid set option)" where
  "fts_remove_tokens rid [] im = im"
| "fts_remove_tokens rid (tok # toks) im =
     fts_remove_tokens rid toks
       (case im tok of
          Some docs \<Rightarrow> im(tok := (if docs - {rid} = {} then None else Some (docs - {rid})))
        | None \<Rightarrow> im)"

definition remove_document :: "fts_index \<Rightarrow> rowid \<Rightarrow> string \<Rightarrow> fts_index" where
  "remove_document ix rid content =
     ix\<lparr>fi_inverted := fts_remove_tokens rid (tokenize content) (fi_inverted ix),
        fi_doc_lengths := (fi_doc_lengths ix)(rid := None),
        fi_total_docs := fi_total_docs ix - 1\<rparr>"

fun fts_search_loop :: "(string \<Rightarrow> rowid set option) \<Rightarrow> string list \<Rightarrow> rowid set option \<Rightarrow> rowid set" where
  "fts_search_loop im [] results = (case results of Some s \<Rightarrow> s | None \<Rightarrow> {})"
| "fts_search_loop im (tok # toks) results =
     (case im tok of
        Some docs \<Rightarrow>
          fts_search_loop im toks
            (case results of Some current \<Rightarrow> Some (current \<inter> docs) | None \<Rightarrow> Some docs)
      | None \<Rightarrow> {})"

definition fts_search :: "fts_index \<Rightarrow> string \<Rightarrow> rowid set" where
  "fts_search ix query =
     (let tokens = tokenize query in
      if tokens = [] then {} else fts_search_loop (fi_inverted ix) tokens None)"

record fts_table =
  ft_name :: string
  ft_index :: fts_index
  ft_content_column :: string

definition fts_table_new :: "string \<Rightarrow> string \<Rightarrow> fts_table" where
  "fts_table_new name content_column =
     \<lparr>ft_name = name, ft_index = fts_new, ft_content_column = content_column\<rparr>"

section \<open>The documents an index covers\<close>

definition postings :: "(string \<Rightarrow> rowid set option) \<Rightarrow> string \<Rightarrow> rowid set" where
  "postings im tok = (case im tok of Some s \<Rightarrow> s | None \<Rightarrow> {})"

text \<open>
  The index of a document map: a token's postings are the documents containing it, and there
  are no empty posting sets.
\<close>

definition fts_covers :: "fts_index \<Rightarrow> (rowid \<Rightarrow> string option) \<Rightarrow> bool" where
  "fts_covers ix docs \<longleftrightarrow>
     (\<forall>tok. postings (fi_inverted ix) tok = {r. \<exists>c. docs r = Some c \<and> tok \<in> set (tokenize c)}) \<and>
     (\<forall>tok. fi_inverted ix tok \<noteq> Some {}) \<and>
     fi_doc_lengths ix = map_option (\<lambda>c. length (tokenize c)) \<circ> docs"

lemma postings_insert_tokens:
  "postings (fts_insert_tokens rid toks im) tok =
     (if tok \<in> set toks then insert rid (postings im tok) else postings im tok)"
  by (induction toks arbitrary: im) (auto simp: postings_def)

lemma postings_remove_tokens:
  "postings (fts_remove_tokens rid toks im) tok =
     (if tok \<in> set toks then postings im tok - {rid} else postings im tok)"
  by (induction toks arbitrary: im) (auto simp: postings_def split: option.splits)

lemma insert_tokens_nonempty:
  "\<forall>tok. im tok \<noteq> Some {} \<Longrightarrow> fts_insert_tokens rid toks im tok \<noteq> Some {}"
  by (induction toks arbitrary: im) auto

lemma remove_tokens_nonempty:
  "\<forall>tok. im tok \<noteq> Some {} \<Longrightarrow> fts_remove_tokens rid toks im tok \<noteq> Some {}"
  by (induction toks arbitrary: im) (auto split: option.splits)

lemma fts_covers_new: "fts_covers fts_new (\<lambda>_. None)"
  by (auto simp: fts_covers_def fts_new_def postings_def)

lemma add_document_covers:
  "fts_covers ix docs \<Longrightarrow> docs rid = None \<Longrightarrow>
   fts_covers (add_document ix rid content) (docs(rid \<mapsto> content))"
  by (auto simp: fts_covers_def add_document_def Let_def postings_insert_tokens
      insert_tokens_nonempty)

lemma remove_document_covers:
  "fts_covers ix docs \<Longrightarrow> docs rid = Some content \<Longrightarrow>
   fts_covers (remove_document ix rid content) (docs(rid := None))"
  by (auto simp: fts_covers_def remove_document_def postings_remove_tokens
      remove_tokens_nonempty)

lemma fts_search_loop_Some:
  "fts_search_loop im toks (Some acc) = acc \<inter> (\<Inter>tok\<in>set toks. postings im tok)"
  by (induction toks arbitrary: acc) (auto simp: postings_def split: option.splits)

lemma fts_search_spec:
  assumes "fts_covers ix docs"
  shows "fts_search ix query =
     (if tokenize query = [] then {}
      else {r. \<exists>c. docs r = Some c \<and> set (tokenize query) \<subseteq> set (tokenize c)})"
proof (cases "tokenize query")
  case Nil
  then show ?thesis by (simp add: fts_search_def)
next
  case (Cons t ts)
  have "fts_search ix query = (\<Inter>tok\<in>set (t # ts). postings (fi_inverted ix) tok)"
    using Cons by (auto simp: fts_search_def fts_search_loop_Some postings_def split: option.splits)
  then show ?thesis
    using assms Cons by (auto simp: fts_covers_def)
qed

end
