(* ===== verification/Skvs_State.thy ===== *)
theory Skvs_State
  imports Skvs_Ast Skvs_Fts
begin

text \<open>
  The shared state of \<^verbatim>\<open>src/src/state.rs\<close>, with the transaction records of
  \<^verbatim>\<open>src/src/transaction.rs\<close> it holds. Every outer map is keyed by database id and created
  lazily, as in the source. A table's row store is reached through a reference into a heap
  (the \<open>Arc<DashMap<RowId, Row>>\<close> a handler keeps while it runs), so that dropping or
  renaming a table under a running handler behaves as in the program. The spill directory is a
  map from paths to file contents.
\<close>

type_synonym rows = "(rowid \<times> row) list"
type_synonym store_ref = nat
type_synonym index_store = "(skvs_value \<times> rowid list) list"

datatype undo_op =
    UndoInsert string rowid
  | UndoDelete string rowid row
  | UndoUpdate string rowid row

record txn_entry =
  te_db_id :: u32
  te_journal :: "undo_op list"

record txn_manager =
  tm_next_id :: u32
  tm_active :: "u32 \<Rightarrow> txn_entry option"

record database_config =
  dc_id :: u32
  dc_name :: string

record kvs =
  k_dbs :: "u32 \<Rightarrow> (string \<times> store_ref) list option"
  k_heap :: "store_ref \<Rightarrow> rows"
  k_next_ref :: nat
  k_schemas :: "u32 \<Rightarrow> (string \<times> table_schema) list option"
  k_rowid_gens :: "u32 \<Rightarrow> (string \<times> nat) list option"
  k_db_names :: "string \<Rightarrow> u32 option"
  k_raw :: "u32 \<Rightarrow> (string \<times> (bytes \<times> bytes) list) list option"
  k_indexes :: "u32 \<Rightarrow> string \<Rightarrow> index_store"
  k_triggers :: "u32 \<Rightarrow> (string \<times> trigger_def list) list option"
  k_views :: "u32 \<Rightarrow> (string \<times> string) list option"
  k_fts :: "u32 \<Rightarrow> (string \<Rightarrow> fts_table option) option"
  k_txns :: txn_manager
  k_max_entries :: nat
  k_overflow_dir :: string
  k_files :: "string \<Rightarrow> bytes option"

section \<open>Construction\<close>

definition txn_new :: txn_manager where
  "txn_new = \<lparr>tm_next_id = 1, tm_active = (\<lambda>_. None)\<rparr>"

definition kvs_empty :: "nat \<Rightarrow> string \<Rightarrow> (string \<Rightarrow> bytes option) \<Rightarrow> kvs" where
  "kvs_empty max_entries dir files =
     \<lparr>k_dbs = (\<lambda>_. None), k_heap = (\<lambda>_. []), k_next_ref = 0, k_schemas = (\<lambda>_. None),
      k_rowid_gens = (\<lambda>_. None), k_db_names = (\<lambda>_. None), k_raw = (\<lambda>_. None),
      k_indexes = (\<lambda>_ _. []), k_triggers = (\<lambda>_. None), k_views = (\<lambda>_. None),
      k_fts = (\<lambda>_. None), k_txns = txn_new, k_max_entries = max_entries,
      k_overflow_dir = dir, k_files = files\<rparr>"

definition add_database :: "database_config \<Rightarrow> kvs \<Rightarrow> kvs" where
  "add_database db s =
     s\<lparr>k_dbs := (k_dbs s)(dc_id db := Some []),
       k_schemas := (k_schemas s)(dc_id db := Some []),
       k_rowid_gens := (k_rowid_gens s)(dc_id db := Some []),
       k_raw := (k_raw s)(dc_id db := Some []),
       k_indexes := (k_indexes s)(dc_id db := (\<lambda>_. [])),
       k_triggers := (k_triggers s)(dc_id db := Some []),
       k_views := (k_views s)(dc_id db := Some []),
       k_fts := (k_fts s)(dc_id db := Some (\<lambda>_. None)),
       k_db_names := (k_db_names s)(dc_name db := Some (dc_id db))\<rparr>"

definition new_with_config ::
  "database_config list \<Rightarrow> nat \<Rightarrow> string \<Rightarrow> (string \<Rightarrow> bytes option) \<Rightarrow> kvs" where
  "new_with_config databases max_entries overflow_dir files =
     fold add_database databases (kvs_empty max_entries overflow_dir files)"

definition kvs_new :: "database_config list \<Rightarrow> (string \<Rightarrow> bytes option) \<Rightarrow> kvs" where
  "kvs_new databases files = new_with_config databases 0 ''/tmp/skvs-overflow'' files"

section \<open>Tables, schemas, row ids\<close>

definition get_db_id :: "kvs \<Rightarrow> string \<Rightarrow> u32 option" where
  "get_db_id s name = k_db_names s name"

definition get_table_store :: "kvs \<Rightarrow> u32 \<Rightarrow> string \<Rightarrow> store_ref option" where
  "get_table_store s db_id table =
     (case k_dbs s db_id of Some db \<Rightarrow> map_of db table | None \<Rightarrow> None)"

definition get_schema :: "kvs \<Rightarrow> u32 \<Rightarrow> string \<Rightarrow> table_schema option" where
  "get_schema s db_id table =
     (case k_schemas s db_id of Some m \<Rightarrow> map_of m table | None \<Rightarrow> None)"

text \<open>\<open>entry(db_id).or_insert_with(...)\<close> on an outer map.\<close>

definition outer :: "(u32 \<Rightarrow> 'm option) \<Rightarrow> 'm \<Rightarrow> u32 \<Rightarrow> 'm" where
  "outer f d db_id = (case f db_id of Some m \<Rightarrow> m | None \<Rightarrow> d)"

definition store_insert :: "store_ref \<Rightarrow> rowid \<Rightarrow> row \<Rightarrow> kvs \<Rightarrow> kvs" where
  "store_insert ref rid r s = s\<lparr>k_heap := (k_heap s)(ref := AList.update rid r (k_heap s ref))\<rparr>"

definition store_remove :: "store_ref \<Rightarrow> rowid \<Rightarrow> kvs \<Rightarrow> kvs" where
  "store_remove ref rid s = s\<lparr>k_heap := (k_heap s)(ref := AList.delete rid (k_heap s ref))\<rparr>"

definition store_get :: "kvs \<Rightarrow> store_ref \<Rightarrow> rowid \<Rightarrow> row option" where
  "store_get s ref rid = map_of (k_heap s ref) rid"

text \<open>\<open>Arc::new(DashMap::new())\<close>: a fresh, empty row store.\<close>

definition alloc_store :: "kvs \<Rightarrow> store_ref \<times> kvs" where
  "alloc_store s =
     (k_next_ref s, s\<lparr>k_next_ref := Suc (k_next_ref s), k_heap := (k_heap s)(k_next_ref s := [])\<rparr>)"

text \<open>
  The row id counters are \<open>AtomicU64\<close>s that wrap: a counter is kept as the unbounded number
  whose 64-bit residue the atomic holds, so that "it has not wrapped yet" can be said
  (\<open>< 2 ^ 64\<close>); whatever is read from it is the residue.
\<close>

definition rowid_gen :: "kvs \<Rightarrow> u32 \<Rightarrow> string \<Rightarrow> nat" where
  "rowid_gen s db_id table =
     (case map_of (outer (k_rowid_gens s) [] db_id) table of Some g \<Rightarrow> g | None \<Rightarrow> 1)"

definition set_rowid_gen :: "u32 \<Rightarrow> string \<Rightarrow> nat \<Rightarrow> kvs \<Rightarrow> kvs" where
  "set_rowid_gen db_id table g s =
     s\<lparr>k_rowid_gens := (k_rowid_gens s)(db_id :=
          Some (AList.update table g (outer (k_rowid_gens s) [] db_id)))\<rparr>"

definition get_next_rowid :: "u32 \<Rightarrow> string \<Rightarrow> (kvs, rowid) exec" where
  "get_next_rowid db_id table s =
     (Done (word_of_nat (rowid_gen s db_id table)),
      set_rowid_gen db_id table (Suc (rowid_gen s db_id table)) s)"

definition set_min_next_rowid :: "u32 \<Rightarrow> string \<Rightarrow> u64 \<Rightarrow> kvs \<Rightarrow> kvs" where
  "set_min_next_rowid db_id table min_next s =
     (let g = rowid_gen s db_id table in
      set_rowid_gen db_id table
        (if (word_of_nat g :: u64) < min_next then unat min_next else g) s)"

section \<open>Index stores\<close>

definition index_key :: "string \<Rightarrow> string \<Rightarrow> string" where
  "index_key table index_name = table @ [CHR 0x00] @ index_name"

text \<open>
  A store is created empty at its first use (\<open>get_or_create_index_store\<close>), so an absent store
  and an empty one are the same here, and reading creates nothing that can be seen.
\<close>

definition get_index_store :: "kvs \<Rightarrow> u32 \<Rightarrow> string \<Rightarrow> string \<Rightarrow> index_store" where
  "get_index_store s db_id table index_name = k_indexes s db_id (index_key table index_name)"

definition set_index_store :: "u32 \<Rightarrow> string \<Rightarrow> string \<Rightarrow> index_store \<Rightarrow> kvs \<Rightarrow> kvs" where
  "set_index_store db_id table index_name st s =
     s\<lparr>k_indexes := (k_indexes s)(db_id :=
          (k_indexes s db_id)(index_key table index_name := st))\<rparr>"

definition drop_index_store :: "u32 \<Rightarrow> string \<Rightarrow> string \<Rightarrow> kvs \<Rightarrow> kvs" where
  "drop_index_store db_id table index_name s = set_index_store db_id table index_name [] s"

section \<open>Raw key/value tables\<close>

definition path_join :: "string \<Rightarrow> string \<Rightarrow> string" where
  "path_join a b = (if starts_with b ''/'' then b else a @ ''/'' @ b)"

definition overflow_path :: "kvs \<Rightarrow> u32 \<Rightarrow> string \<Rightarrow> bytes \<Rightarrow> string" where
  "overflow_path s db_id table key =
     path_join (path_join (path_join (k_overflow_dir s) (show_int (uint db_id))) table) (hex_encode key)"

text \<open>
  The file system decides how a spill file is written or removed. A write that fails may leave
  anything at the path, given what was to be written and what was there (\<open>create_dir_all\<close> may fail
  before the file is touched, \<open>write\<close> after it was truncated); one that succeeds leaves what was
  written. A failed removal leaves the file, and the program ignores it.
\<close>

datatype io_write = Written | WriteFailed "bytes option"

record spill_fs =
  fs_write :: "string \<Rightarrow> bytes \<Rightarrow> bytes option \<Rightarrow> io_write"
  fs_unlink :: "string \<Rightarrow> bool"

definition spill_works :: spill_fs where
  "spill_works = \<lparr>fs_write = \<lambda>_ _ _. Written, fs_unlink = \<lambda>_. True\<rparr>"

definition write_overflow_file ::
  "spill_fs \<Rightarrow> u32 \<Rightarrow> string \<Rightarrow> bytes \<Rightarrow> bytes \<Rightarrow> kvs \<Rightarrow> bool \<times> kvs" where
  "write_overflow_file w db_id table key val s =
     (let p = overflow_path s db_id table key in
      case fs_write w p val (k_files s p) of
        Written \<Rightarrow> (True, s\<lparr>k_files := (k_files s)(p := Some val)\<rparr>)
      | WriteFailed left \<Rightarrow> (False, s\<lparr>k_files := (k_files s)(p := left)\<rparr>))"

definition remove_overflow_file :: "spill_fs \<Rightarrow> u32 \<Rightarrow> string \<Rightarrow> bytes \<Rightarrow> kvs \<Rightarrow> kvs" where
  "remove_overflow_file w db_id table key s =
     (let p = overflow_path s db_id table key in
      if fs_unlink w p then s\<lparr>k_files := (k_files s)(p := None)\<rparr> else s)"

definition raw_table :: "kvs \<Rightarrow> u32 \<Rightarrow> string \<Rightarrow> (bytes \<times> bytes) list" where
  "raw_table s db_id table =
     (case map_of (outer (k_raw s) [] db_id) table of Some t \<Rightarrow> t | None \<Rightarrow> [])"

definition set_raw_table :: "u32 \<Rightarrow> string \<Rightarrow> (bytes \<times> bytes) list \<Rightarrow> kvs \<Rightarrow> kvs" where
  "set_raw_table db_id table t s =
     s\<lparr>k_raw := (k_raw s)(db_id := Some (AList.update table t (outer (k_raw s) [] db_id)))\<rparr>"

fun evict_keys :: "spill_fs \<Rightarrow> u32 \<Rightarrow> string \<Rightarrow> bytes list \<Rightarrow> kvs \<Rightarrow> kvs" where
  "evict_keys w db_id table [] s = s"
| "evict_keys w db_id table (key # keys) s =
     (case map_of (raw_table s db_id table) key of
        Some val \<Rightarrow>
          (let s1 = set_raw_table db_id table (AList.delete key (raw_table s db_id table)) s;
               (ok, s2) = write_overflow_file w db_id table key val s1;
               s3 = (if ok then s2
                     else set_raw_table db_id table (AList.update key val (raw_table s2 db_id table)) s2)
           in evict_keys w db_id table keys s3)
      | None \<Rightarrow> evict_keys w db_id table keys s)"

definition evict_to_disk :: "('x) env_scheme \<Rightarrow> spill_fs \<Rightarrow> u32 \<Rightarrow> string \<Rightarrow> kvs \<Rightarrow> kvs" where
  "evict_to_disk E w db_id table s =
     (let t = raw_table s db_id table; overflow = length t - k_max_entries s;
          to_evict = map fst (take overflow (iter_raw E t))
      in evict_keys w db_id table to_evict s)"

definition put_raw ::
  "('x) env_scheme \<Rightarrow> spill_fs \<Rightarrow> u32 \<Rightarrow> string \<Rightarrow> bytes \<Rightarrow> bytes \<Rightarrow> kvs \<Rightarrow> kvs" where
  "put_raw E w db_id table key val s =
     (let s1 = remove_overflow_file w db_id table key s;
          s2 = set_raw_table db_id table (AList.update key val (raw_table s1 db_id table)) s1
      in if 0 < k_max_entries s2 \<and> k_max_entries s2 < length (raw_table s2 db_id table)
         then evict_to_disk E w db_id table s2 else s2)"

definition get_raw :: "kvs \<Rightarrow> u32 \<Rightarrow> string \<Rightarrow> bytes \<Rightarrow> bytes option" where
  "get_raw s db_id table key =
     (case map_of (raw_table s db_id table) key of
        Some v \<Rightarrow> Some v
      | None \<Rightarrow> k_files s (overflow_path s db_id table key))"

definition remove_raw :: "spill_fs \<Rightarrow> u32 \<Rightarrow> string \<Rightarrow> bytes \<Rightarrow> kvs \<Rightarrow> kvs" where
  "remove_raw w db_id table key s =
     (let s1 = (case k_raw s db_id of
                  Some db \<Rightarrow> (case map_of db table of
                                Some t \<Rightarrow> set_raw_table db_id table (AList.delete key t) s
                              | None \<Rightarrow> s)
                | None \<Rightarrow> s)
      in remove_overflow_file w db_id table key s1)"

section \<open>Triggers, views, full-text tables\<close>

definition add_trigger :: "u32 \<Rightarrow> string \<Rightarrow> trigger_def \<Rightarrow> kvs \<Rightarrow> kvs" where
  "add_trigger db_id table trg s =
     (let m = outer (k_triggers s) [] db_id;
          ts = (case map_of m table of Some ts \<Rightarrow> ts | None \<Rightarrow> [])
      in s\<lparr>k_triggers := (k_triggers s)(db_id := Some (AList.update table (ts @ [trg]) m))\<rparr>)"

definition get_triggers :: "kvs \<Rightarrow> u32 \<Rightarrow> string \<Rightarrow> trigger_def list" where
  "get_triggers s db_id table =
     (case k_triggers s db_id of
        Some m \<Rightarrow> (case map_of m table of Some ts \<Rightarrow> ts | None \<Rightarrow> [])
      | None \<Rightarrow> [])"

definition add_view :: "u32 \<Rightarrow> string \<Rightarrow> string \<Rightarrow> kvs \<Rightarrow> kvs" where
  "add_view db_id name query s =
     s\<lparr>k_views := (k_views s)(db_id := Some (AList.update name query (outer (k_views s) [] db_id)))\<rparr>"

definition remove_view :: "u32 \<Rightarrow> string \<Rightarrow> (kvs, unit) exec" where
  "remove_view db_id name s =
     (case k_views s db_id of
        Some m \<Rightarrow> (Done (), s\<lparr>k_views := (k_views s)(db_id := Some (AList.delete name m))\<rparr>)
      | None \<Rightarrow> (Fail (ESchema (''View '' @ name @ '' not found'')), s))"

definition get_view_definition :: "kvs \<Rightarrow> u32 \<Rightarrow> string \<Rightarrow> string option" where
  "get_view_definition s db_id name =
     (case k_views s db_id of Some m \<Rightarrow> map_of m name | None \<Rightarrow> None)"

definition register_fts_table :: "u32 \<Rightarrow> string \<Rightarrow> fts_table \<Rightarrow> kvs \<Rightarrow> kvs" where
  "register_fts_table db_id name t s =
     s\<lparr>k_fts := (k_fts s)(db_id := Some ((outer (k_fts s) (\<lambda>_. None) db_id)(name := Some t)))\<rparr>"

definition get_fts_table :: "kvs \<Rightarrow> u32 \<Rightarrow> string \<Rightarrow> fts_table option" where
  "get_fts_table s db_id name =
     (case k_fts s db_id of Some m \<Rightarrow> m name | None \<Rightarrow> None)"

end
