(* ===== verification/Skvs_Demo.thy ===== *)
theory Skvs_Demo
  imports Skvs_State
begin

text \<open>
  Concrete inputs for the witnesses: an environment that renders names plainly and iterates maps
  in their own order, and a database with one table \<open>t\<close>.
\<close>

definition plain_env :: env where
  "plain_env =
     \<lparr>json_to_string = (\<lambda>_. ''{}''), json_from_str = (\<lambda>_. Inl ''no parser''),
      base64_encode = (\<lambda>_. []), base64_decode = (\<lambda>_. None),
      parse_sql = (\<lambda>_. Inl ''no parser''), parse_expr_sql = (\<lambda>_. Inl ''no parser''),
      ident_to_string = id_value, object_name_to_string = (\<lambda>n. join ''.'' (map id_value n)),
      expr_to_string = (\<lambda>e. case e of Identifier i \<Rightarrow> id_value i | _ \<Rightarrow> ''expr''),
      query_to_string = (\<lambda>_. ''SELECT''), statement_debug = (\<lambda>_. ''Statement''),
      iter_rows = (\<lambda>xs. xs), iter_schemas = (\<lambda>xs. xs), iter_raw = (\<lambda>xs. xs)\<rparr>"

lemma plain_env_ok [simp]: "iter_ok plain_env"
  by (simp add: iter_ok_def plain_env_def)

lemma plain_env_simps [simp]:
  "parse_sql plain_env sql = Inl ''no parser''"
  "parse_expr_sql plain_env sql = Inl ''no parser''"
  "ident_to_string plain_env = id_value"
  "object_name_to_string plain_env n = join ''.'' (map id_value n)"
  "iter_rows plain_env xs = xs" "iter_schemas plain_env ys = ys" "iter_raw plain_env zs = zs"
  by (simp_all add: plain_env_def)

abbreviation nm :: "string \<Rightarrow> ident" where
  "nm s \<equiv> Ident s None"

definition int_column :: "string \<Rightarrow> bool \<Rightarrow> column_def" where
  "int_column name uniq =
     \<lparr>cd_name = name, cd_data_type = DInteger, cd_primary_key = False, cd_auto_increment = False,
      cd_not_null = False, cd_default = None, cd_unique = uniq, cd_check_expr = None\<rparr>"

definition demo_schema :: "string \<Rightarrow> bool \<Rightarrow> index_def list \<Rightarrow> table_schema" where
  "demo_schema name uniq idxs =
     \<lparr>ts_name = name, ts_columns = [(''a'', int_column ''a'' uniq)], ts_rowid_column = None,
      ts_foreign_keys = [], ts_indices = idxs, ts_triggers = [], ts_unique_groups = [],
      ts_table_checks = [], ts_fts5_content_column = None\<rparr>"

text \<open>Database 0 with the table \<open>t (a)\<close> over the given rows; row ids go on at \<open>g\<close>.\<close>

definition demo_state :: "bool \<Rightarrow> index_def list \<Rightarrow> nat \<Rightarrow> rows \<Rightarrow> kvs" where
  "demo_state uniq idxs g rs =
     (kvs_empty 0 ''/tmp'' (\<lambda>_. None))
       \<lparr>k_dbs := (\<lambda>db. if db = 0 then Some [(''t'', 0)] else None),
        k_heap := (\<lambda>ref. if ref = 0 then rs else []),
        k_next_ref := 1,
        k_schemas := (\<lambda>db. if db = 0 then Some [(''t'', demo_schema ''t'' uniq idxs)] else None),
        k_rowid_gens := (\<lambda>db. if db = 0 then Some [(''t'', g)] else None)\<rparr>"

lemma demo_state_simps [simp]:
  "get_table_store (demo_state uniq idxs g rs) db t = (if db = 0 \<and> t = ''t'' then Some 0 else None)"
  "get_schema (demo_state uniq idxs g rs) db t =
     (if db = 0 \<and> t = ''t'' then Some (demo_schema ''t'' uniq idxs) else None)"
  "k_heap (demo_state uniq idxs g rs) ref = (if ref = 0 then rs else [])"
  "rowid_gen (demo_state uniq idxs g rs) db t = (if db = 0 \<and> t = ''t'' then g else 1)"
  "k_txns (demo_state uniq idxs g rs) = txn_new"
  "get_triggers (demo_state uniq idxs g rs) db t = []"
  "get_view_definition (demo_state uniq idxs g rs) db t = None"
  "get_fts_table (demo_state uniq idxs g rs) db t = None"
  "k_indexes (demo_state uniq idxs g rs) db n = []"
  by (simp_all add: demo_state_def kvs_empty_def get_table_store_def get_schema_def rowid_gen_def
      outer_def get_triggers_def get_view_definition_def get_fts_table_def)

end
