(* ===== verification/Skvs_Order.thy ===== *)
theory Skvs_Order
  imports Skvs_Aggregate Skvs_Demo
begin

text \<open>
  ORDER BY as a stable lexicographic sort (\<open>order_by_sorts\<close>): a sort by a total preorder refines the
  order its input had among equals, so passing over the keys from the last to the first sorts by all
  of them.
\<close>

section \<open>Stable sorting by a total preorder\<close>

definition preorders :: "'a set \<Rightarrow> ('a \<Rightarrow> 'a \<Rightarrow> ordering) \<Rightarrow> bool" where
  "preorders S cmp \<longleftrightarrow>
     (\<forall>a\<in>S. \<forall>b\<in>S. cmp b a = ord_reverse (cmp a b)) \<and>
     (\<forall>a\<in>S. \<forall>b\<in>S. \<forall>c\<in>S. cmp a b \<noteq> Greater \<longrightarrow> cmp b c \<noteq> Greater \<longrightarrow> cmp a c \<noteq> Greater)"

lemma preorders_swap: "preorders S cmp \<Longrightarrow> a \<in> S \<Longrightarrow> b \<in> S \<Longrightarrow> cmp b a = ord_reverse (cmp a b)"
  unfolding preorders_def by blast

lemma preorders_trans:
  "preorders S cmp \<Longrightarrow> a \<in> S \<Longrightarrow> b \<in> S \<Longrightarrow> c \<in> S \<Longrightarrow> cmp a b \<noteq> Greater \<Longrightarrow> cmp b c \<noteq> Greater \<Longrightarrow>
   cmp a c \<noteq> Greater"
  unfolding preorders_def by meson

lemma preorders_mono:
  assumes "preorders S cmp" "T \<subseteq> S"
  shows "preorders T cmp"
  unfolding preorders_def
proof (intro conjI ballI impI)
  fix a b assume "a \<in> T" "b \<in> T"
  then show "cmp b a = ord_reverse (cmp a b)"
    using assms(2) by (intro preorders_swap [OF assms(1)]) auto
next
  fix a b c assume "a \<in> T" "b \<in> T" "c \<in> T" "cmp a b \<noteq> Greater" "cmp b c \<noteq> Greater"
  then show "cmp a c \<noteq> Greater"
    using assms(2) by (intro preorders_trans [OF assms(1), of a b c]) auto
qed

text \<open>Sorted by \<open>cmp\<close>, and among equals by \<open>P\<close>.\<close>

definition refines :: "('a \<Rightarrow> 'a \<Rightarrow> ordering) \<Rightarrow> ('a \<Rightarrow> 'a \<Rightarrow> bool) \<Rightarrow> 'a \<Rightarrow> 'a \<Rightarrow> bool" where
  "refines cmp P a b \<longleftrightarrow> cmp a b \<noteq> Greater \<and> (cmp a b = Equal \<longrightarrow> P a b)"

lemma insort_by_refines:
  "preorders (insert x (set ys)) cmp \<Longrightarrow> sorted_wrt (refines cmp P) ys \<Longrightarrow> \<forall>y\<in>set ys. P x y \<Longrightarrow>
   sorted_wrt (refines cmp P) (insort_by cmp x ys)"
proof (induction ys)
  case (Cons y ys)
  have IH: "sorted_wrt (refines cmp P) (insort_by cmp x ys)"
    using Cons preorders_mono [OF Cons.prems(1), of "insert x (set ys)"] by auto
  show ?case
  proof (cases "cmp x y = Greater")
    case True
    have "cmp y x = Less"
      using preorders_swap [OF Cons.prems(1), of x y] True by simp
    then have "\<forall>z\<in>insert x (set ys). refines cmp P y z" using Cons.prems(2) by (simp add: refines_def)
    then show ?thesis using IH True by simp
  next
    case False
    have "cmp x z \<noteq> Greater" if "z \<in> set ys" for z
    proof -
      have "cmp y z \<noteq> Greater" using Cons.prems(2) that by (auto simp: refines_def)
      then show ?thesis using preorders_trans [OF Cons.prems(1), of x y z] False that by simp
    qed
    then have "\<forall>z\<in>insert y (set ys). refines cmp P x z" using Cons.prems(3) False by (auto simp: refines_def)
    then show ?thesis using Cons.prems(2) False by simp
  qed
qed simp

lemma sort_by_refines:
  "preorders (set xs) cmp \<Longrightarrow> sorted_wrt P xs \<Longrightarrow> sorted_wrt (refines cmp P) (sort_by cmp xs)"
proof (induction xs)
  case (Cons x xs)
  have "sorted_wrt (refines cmp P) (sort_by cmp xs)"
    using Cons preorders_mono [OF Cons.prems(1), of "set xs"] by auto
  moreover have "preorders (insert x (set (sort_by cmp xs))) cmp" using Cons.prems(1) by simp
  ultimately have "sorted_wrt (refines cmp P) (insort_by cmp x (sort_by cmp xs))"
    using insort_by_refines [of x "sort_by cmp xs" cmp P] Cons.prems(2) by simp
  then show ?case by (simp add: sort_by_def)
qed (simp add: sort_by_def)

lemma insort_by_filter:
  assumes "preorders S cmp" "x \<in> S" "insert a (set ys) \<subseteq> S"
  shows "filter (\<lambda>y. cmp y x = Equal) (insort_by cmp a ys) = filter (\<lambda>y. cmp y x = Equal) (a # ys)"
  using assms(3)
proof (induction ys)
  case (Cons y ys)
  have "cmp a y \<noteq> Greater" if "cmp a x = Equal" "cmp y x = Equal"
    using preorders_swap [OF assms(1), of y x] preorders_trans [OF assms(1), of a x y] assms(2) Cons.prems that
    by simp
  then show ?case using Cons by auto
qed simp

lemma sort_by_stable:
  assumes "preorders S cmp" "x \<in> S" "set xs \<subseteq> S"
  shows "filter (\<lambda>y. cmp y x = Equal) (sort_by cmp xs) = filter (\<lambda>y. cmp y x = Equal) xs"
  using assms(3)
proof (induction xs)
  case (Cons a xs)
  have "insert a (set (sort_by cmp xs)) \<subseteq> S" using Cons.prems by simp
  note insort_by_filter [OF assms(1,2) this]
  then show ?case using Cons by (simp add: sort_by_def)
qed (simp add: sort_by_def)

section \<open>ORDER BY\<close>

fun lex_compare :: "(order_by_expr \<Rightarrow> row \<Rightarrow> skvs_value) \<Rightarrow> order_by_expr list \<Rightarrow> row \<Rightarrow> row \<Rightarrow> ordering" where
  "lex_compare key [] a b = Equal"
| "lex_compare key (ob # obs) a b =
     (case order_compare (ob_asc ob \<noteq> Some False) (key ob a, a) (key ob b, b) of
        Equal \<Rightarrow> lex_compare key obs a b
      | c \<Rightarrow> c)"

lemma order_compare_preorders:
  assumes "comparable_set (fst ` S)"
  shows "preorders S (order_compare asc)"
proof -
  have c: "value_compare (fst a) (fst b) = cmp_of (value_key (fst a)) (value_key (fst b))"
    if "a \<in> S" "b \<in> S" for a b
    using comparable_set_key [OF assms] that by simp
  show ?thesis
    unfolding preorders_def order_compare_def Let_def
  proof (intro conjI ballI impI)
    fix a b assume "a \<in> S" "b \<in> S"
    then show "(if asc then value_compare (fst b) (fst a) else ord_reverse (value_compare (fst b) (fst a))) =
        ord_reverse (if asc then value_compare (fst a) (fst b) else ord_reverse (value_compare (fst a) (fst b)))"
      by (auto simp: c cmp_of_def)
  next
    fix a b d
    assume "a \<in> S" "b \<in> S" "d \<in> S"
      and "(if asc then value_compare (fst a) (fst b) else ord_reverse (value_compare (fst a) (fst b))) \<noteq> Greater"
      and "(if asc then value_compare (fst b) (fst d) else ord_reverse (value_compare (fst b) (fst d))) \<noteq> Greater"
    then show "(if asc then value_compare (fst a) (fst d) else ord_reverse (value_compare (fst a) (fst d))) \<noteq> Greater"
      by (cases asc) (auto simp: c cmp_of_def split: if_splits)
  qed
qed

text \<open>The keys of the rows: what the ORDER BY expressions evaluate to, comparable column by column.\<close>

definition order_keys ::
  "('x) env_scheme \<Rightarrow> order_by_expr list \<Rightarrow> row list \<Rightarrow> (order_by_expr \<Rightarrow> row \<Rightarrow> skvs_value) \<Rightarrow> bool" where
  "order_keys E obs rows key \<longleftrightarrow>
     (\<forall>ob\<in>set obs. comparable_set (key ob ` set rows) \<and>
        (\<forall>r\<in>set rows. \<exists>j. eval E (Some r) [] (ob_expr ob) 0 = Done (key ob r, j)))"

lemma order_pass_sorts:
  assumes "order_keys E [ob] rows key" and "sorted_wrt P rows"
  obtains ys where "order_pass E ob rows = Done ys" "mset ys = mset rows"
    "sorted_wrt (refines (lex_compare key [ob]) P) ys"
    "\<forall>x\<in>set rows. filter (\<lambda>r. lex_compare key [ob] r x = Equal) ys =
                   filter (\<lambda>r. lex_compare key [ob] r x = Equal) rows"
proof (cases "length rows < 2")
  case True
  then have "sorted_wrt (refines (lex_compare key [ob]) P) rows" by (cases rows) auto
  then show ?thesis using that [of rows] True by (simp add: order_pass_def)
next
  case False
  let ?asc = "ob_asc ob \<noteq> Some False"
  let ?keyed = "map (\<lambda>r. (key ob r, r)) rows"
  let ?out = "sort_by (order_compare ?asc) ?keyed"
  have ev: "obind (eval E (Some r) [] (ob_expr ob) 0) (\<lambda>(v, _). Done (v, r)) = Done (key ob r, r)"
    if "r \<in> set rows" for r
    using assms(1) that by (auto simp: order_keys_def)
  have pass: "order_pass E ob rows = Done (map snd ?out)"
    using False by (simp add: order_pass_def omap_Done [OF ev])
  have pre: "preorders (set ?keyed) (order_compare ?asc)"
    using assms(1) by (intro order_compare_preorders) (simp add: order_keys_def image_image)
  have lex: "lex_compare key [ob] a b = order_compare ?asc (key ob a, a) (key ob b, b)" for a b
    by (simp split: ordering.split)
  have keyed: "fst z = key ob (snd z)" if "z \<in> set ?out" for z using that by auto
  have lexed: "lex_compare key [ob] (snd z) x = order_compare ?asc z (key ob x, x)"
    if "z \<in> set ?out" for z x
    unfolding lex order_compare_def fst_conv keyed [OF that] ..
  have ref: "refines (lex_compare key [ob]) P (snd z) (snd w)"
    if "z \<in> set ?out" "w \<in> set ?out" "refines (order_compare ?asc) (\<lambda>a b. P (snd a) (snd b)) z w" for z w
    using that(3) unfolding refines_def lexed [OF that(1)] order_compare_def fst_conv keyed [OF that(2)] .
  have "sorted_wrt (\<lambda>a b. P (snd a) (snd b)) ?keyed" using assms(2) by (simp add: sorted_wrt_map)
  then have "sorted_wrt (refines (order_compare ?asc) (\<lambda>a b. P (snd a) (snd b))) ?out"
    by (rule sort_by_refines [OF pre])
  then have "sorted_wrt (\<lambda>a b. refines (lex_compare key [ob]) P (snd a) (snd b)) ?out"
    by (rule sorted_wrt_mono_rel [rotated]) (rule ref)
  then have sorted: "sorted_wrt (refines (lex_compare key [ob]) P) (map snd ?out)"
    by (simp add: sorted_wrt_map)
  have "mset (map snd ?out) = image_mset snd (mset ?keyed)" by simp
  then have perm: "mset (map snd ?out) = mset rows"
    unfolding mset_map by (simp add: multiset.map_comp o_def)
  have stable: "filter (\<lambda>r. lex_compare key [ob] r x = Equal) (map snd ?out) =
      filter (\<lambda>r. lex_compare key [ob] r x = Equal) rows" if "x \<in> set rows" for x
  proof -
    have x: "(key ob x, x) \<in> set ?keyed" using that by simp
    have "filter (\<lambda>r. lex_compare key [ob] r x = Equal) (map snd ?out) =
        map snd (filter (\<lambda>z. order_compare ?asc z (key ob x, x) = Equal) ?out)"
      unfolding filter_map o_def using lexed by (intro arg_cong [where f = "map snd"] filter_cong) simp_all
    also have "\<dots> = map snd (filter (\<lambda>z. order_compare ?asc z (key ob x, x) = Equal) ?keyed)"
      by (simp only: sort_by_stable [OF pre x order_refl])
    also have "\<dots> = filter (\<lambda>r. lex_compare key [ob] r x = Equal) rows"
      by (simp only: lex filter_map o_def map_map snd_conv map_ident)
    finally show ?thesis .
  qed
  show ?thesis by (rule that [OF pass perm sorted]) (use stable in blast)
qed

lemma order_passes_snoc:
  "order_passes E (obs @ [ob]) rows = obind (order_passes E obs rows) (order_pass E ob)"
proof (induction obs arbitrary: rows)
  case Nil
  show ?case by (cases "order_pass E ob rows") auto
next
  case (Cons a obs)
  then show ?case by (cases "order_pass E a rows") simp_all
qed

lemma lex_compare_single:
  "lex_compare key (ob # obs) a b =
     (case lex_compare key [ob] a b of Equal \<Rightarrow> lex_compare key obs a b | c \<Rightarrow> c)"
  by (simp split: ordering.split)

text \<open>C26. ORDER BY permutes the rows, leaves them sorted by the list of keys (each ascending or
  descending, earlier keys first), and keeps rows with equal keys in their order (a stable sort),
  where the values of each key compare exactly.\<close>

theorem order_by_sorts:
  assumes "order_keys E obs rows key"
  shows "\<exists>ys. apply_order_by E rows obs = Done ys \<and> mset ys = mset rows \<and>
      sorted_wrt (\<lambda>a b. lex_compare key obs a b \<noteq> Greater) ys \<and>
      (\<forall>x\<in>set rows. filter (\<lambda>r. lex_compare key obs r x = Equal) ys =
                     filter (\<lambda>r. lex_compare key obs r x = Equal) rows)"
  using assms
proof (induction obs)
  case Nil
  show ?case by (simp add: apply_order_by_def)
next
  case (Cons ob obs)
  then have "order_keys E obs rows key" by (simp add: order_keys_def)
  then obtain ys where ys: "order_passes E (rev obs) rows = Done ys" "mset ys = mset rows"
    "sorted_wrt (\<lambda>a b. lex_compare key obs a b \<noteq> Greater) ys"
    "\<And>x. x \<in> set rows \<Longrightarrow> filter (\<lambda>r. lex_compare key obs r x = Equal) ys =
                     filter (\<lambda>r. lex_compare key obs r x = Equal) rows"
    using Cons.IH by (auto simp: apply_order_by_def)
  have set: "set ys = set rows" using ys(2) by (rule mset_eq_setD)
  have "order_keys E [ob] ys key" using Cons.prems by (simp add: order_keys_def set)
  then obtain zs where zs: "order_pass E ob ys = Done zs" "mset zs = mset ys"
    "sorted_wrt (refines (lex_compare key [ob]) (\<lambda>a b. lex_compare key obs a b \<noteq> Greater)) zs"
    "\<forall>x\<in>set ys. filter (\<lambda>r. lex_compare key [ob] r x = Equal) zs =
                  filter (\<lambda>r. lex_compare key [ob] r x = Equal) ys"
    using order_pass_sorts [OF _ ys(3), of E ob key thesis] by blast
  have "apply_order_by E rows (ob # obs) = Done zs"
    by (simp add: apply_order_by_def order_passes_snoc ys(1) zs(1))
  moreover have "sorted_wrt (\<lambda>a b. lex_compare key (ob # obs) a b \<noteq> Greater) zs"
    by (rule sorted_wrt_mono_rel [OF _ zs(3)])
      (simp add: refines_def lex_compare_single [of key ob obs] del: lex_compare.simps split: ordering.splits)
  moreover have "filter (\<lambda>r. lex_compare key (ob # obs) r x = Equal) zs =
      filter (\<lambda>r. lex_compare key (ob # obs) r x = Equal) rows" if "x \<in> set rows" for x
  proof -
    let ?A = "\<lambda>r. lex_compare key [ob] r x = Equal" and ?B = "\<lambda>r. lex_compare key obs r x = Equal"
    have AB: "lex_compare key (ob # obs) r x = Equal \<longleftrightarrow> ?A r \<and> ?B r" for r
      by (subst lex_compare_single) (simp del: lex_compare.simps split: ordering.split)
    have "filter ?B (filter ?A zs) = filter ?B (filter ?A ys)" using zs(4) that set by simp
    also have "\<dots> = filter ?A (filter ?B ys)" by (simp add: conj_commute)
    also have "\<dots> = filter ?A (filter ?B rows)" by (simp only: ys(4) [OF that])
    finally show ?thesis by (simp add: AB conj_commute del: lex_compare.simps)
  qed
  ultimately show ?case using zs(2) ys(2) by auto
qed

text \<open>\<open>ORDER BY a DESC\<close> over 1, 3, 2.\<close>

definition by_a_desc :: order_by_expr where
  "by_a_desc = \<lparr>ob_expr = Identifier (nm ''a''), ob_asc = Some False\<rparr>"

definition a_rows :: "row list" where
  "a_rows = [[(''a'', VInteger 1)], [(''a'', VInteger 3)], [(''a'', VInteger 2)]]"

theorem order_by_sorts_witness:
  "\<exists>ys. apply_order_by plain_env a_rows [by_a_desc] = Done ys \<and> mset ys = mset a_rows \<and>
      sorted_wrt (\<lambda>a b. lex_compare (\<lambda>_ r. lookup_column (Some r) ''a'') [by_a_desc] a b \<noteq> Greater) ys \<and>
      (\<forall>x\<in>set a_rows.
         filter (\<lambda>r. lex_compare (\<lambda>_ r. lookup_column (Some r) ''a'') [by_a_desc] r x = Equal) ys =
         filter (\<lambda>r. lex_compare (\<lambda>_ r. lookup_column (Some r) ''a'') [by_a_desc] r x = Equal) a_rows)"
proof (rule order_by_sorts)
  show "order_keys plain_env [by_a_desc] a_rows (\<lambda>_ r. lookup_column (Some r) ''a'')"
    by (simp add: order_keys_def by_a_desc_def a_rows_def lookup_column_def comparable_set_def)
qed

end
