(* ===== verification/Skvs_Where.thy ===== *)
theory Skvs_Where
  imports Skvs_Expr_Facts Skvs_State
begin

text \<open>
  WHERE evaluation (\<open>evaluate_where_ctx\<close> of \<^verbatim>\<open>src/src/sql/select.rs\<close>): AND, OR, NOT and
  parentheses here, with short circuits, \<open>fts_match\<close> against the full-text index, everything
  else through the scalar evaluator.
\<close>

text \<open>The two literal arguments of \<open>fts_match(table, 'query')\<close>, where they have that form.\<close>

fun fts_args :: "func_arg list \<Rightarrow> (string \<times> string) option" where
  "fts_args [a, b] =
     (case (case a of
              UnnamedArg (Identifier i) \<Rightarrow> Some (id_value i)
            | UnnamedArg (ValueE (SingleQuotedString s)) \<Rightarrow> Some s
            | _ \<Rightarrow> None) of
        None \<Rightarrow> None
      | Some table_name \<Rightarrow>
          (case b of
             UnnamedArg (ValueE (SingleQuotedString s)) \<Rightarrow> Some (table_name, s)
           | _ \<Rightarrow> None))"
| "fts_args _ = None"

definition is_fts_match :: "('x) env_scheme \<Rightarrow> object_name \<Rightarrow> func_arg list \<Rightarrow> bool" where
  "is_fts_match E name args \<longleftrightarrow>
     to_lowercase (object_name_to_string E name) = ''fts_match'' \<and> length args = 2"

definition fts_matches :: "kvs \<Rightarrow> u32 \<Rightarrow> row \<Rightarrow> func_arg list \<Rightarrow> bool" where
  "fts_matches s db_id r args =
     (case fts_args args of
        None \<Rightarrow> False
      | Some (table_name, query_text) \<Rightarrow>
          (case get_fts_table s db_id table_name of
             None \<Rightarrow> False
           | Some fts \<Rightarrow>
               (case map_of r ''_rowid_'' of
                  Some (VInteger rid) \<Rightarrow> rid \<in> fts_search (ft_index fts) query_text
                | _ \<Rightarrow> False)))"

fun evaluate_where ::
  "('x) env_scheme \<Rightarrow> kvs \<Rightarrow> u32 \<Rightarrow> row \<Rightarrow> skvs_value list \<Rightarrow> expr \<Rightarrow> nat \<Rightarrow> (bool \<times> nat) outcome" where
  "evaluate_where E s db r ps (BinaryOp left op right) i =
     (if op = BAnd then
        obind (evaluate_where E s db r ps left i) (\<lambda>(b, i).
          if b then evaluate_where E s db r ps right i else Done (False, i))
      else if op = BOr then
        obind (evaluate_where E s db r ps left i) (\<lambda>(b, i).
          if b then Done (True, i) else evaluate_where E s db r ps right i)
      else obind (eval E (Some r) ps (BinaryOp left op right) i) (\<lambda>(v, i). Done (truthy v, i)))"
| "evaluate_where E s db r ps (UnaryOp op inner) i =
     (if op = UNot then
        obind (evaluate_where E s db r ps inner i) (\<lambda>(b, i). Done (\<not> b, i))
      else obind (eval E (Some r) ps (UnaryOp op inner) i) (\<lambda>(v, i). Done (truthy v, i)))"
| "evaluate_where E s db r ps (Nested inner) i = evaluate_where E s db r ps inner i"
| "evaluate_where E s db r ps (Function name args d) i =
     (if is_fts_match E name args then Done (fts_matches s db r args, i)
      else obind (eval E (Some r) ps (Function name args d) i) (\<lambda>(v, i). Done (truthy v, i)))"
| "evaluate_where E s db r ps e i =
     obind (eval E (Some r) ps e i) (\<lambda>(v, i). Done (truthy v, i))"

text \<open>A row passes a clause evaluated from placeholder position \<open>i\<close>.\<close>

definition where_passes ::
  "('x) env_scheme \<Rightarrow> kvs \<Rightarrow> u32 \<Rightarrow> skvs_value list \<Rightarrow> expr option \<Rightarrow> nat \<Rightarrow> row \<Rightarrow> bool outcome" where
  "where_passes E s db ps selection i r =
     (case selection of
        Some e \<Rightarrow> obind (evaluate_where E s db r ps e i) (\<lambda>(b, _). Done b)
      | None \<Rightarrow> Done True)"

end
