(* ===== verification/Skvs_Index.thy ===== *)
theory Skvs_Index
  imports Skvs_State Skvs_BTree
begin

text \<open>
  The secondary indexes of \<^verbatim>\<open>src/src/index.rs\<close>: one ordered map from values to row ids per
  index, kept beside the rows. \<open>index_covers D idx R st\<close> says that the store \<open>st\<close> is the index
  of the rows \<open>R\<close> on the column of \<open>idx\<close>, where \<open>D\<close> is a set of mutually comparable values
  that the column draws from. Every change of a row keeps it, a rebuild establishes it, and
  under it a lookup and a range lookup return exactly the rows asked for.
\<close>

datatype index_op = IxInsert | IxDelete | IxUpdate row

definition value_to_key_string :: "skvs_value \<Rightarrow> string" where
  "value_to_key_string v =
     (case v of
        VNull \<Rightarrow> ''n:''
      | VInteger i \<Rightarrow> ''i:'' @ show_int (sint i)
      | VReal f \<Rightarrow> ''f:'' @ show_f64 f
      | VText s \<Rightarrow> ''t:'' @ s
      | VBlob b \<Rightarrow> ''b:'' @ hex_encode b)"

text \<open>Only single-column indexes are supported: the first column counts.\<close>

definition index_value :: "index_def \<Rightarrow> row \<Rightarrow> skvs_value option" where
  "index_value idx r = (case idx_columns idx of [] \<Rightarrow> None | col # _ \<Rightarrow> map_of r col)"

definition push_id :: "rowid \<Rightarrow> rowid list \<Rightarrow> rowid list" where
  "push_id rid ids = (if rid \<in> set ids then ids else ids @ [rid])"

definition store_add :: "index_def \<Rightarrow> row \<Rightarrow> rowid \<Rightarrow> index_store \<Rightarrow> index_store" where
  "store_add idx r rid st =
     (case index_value idx r of
        Some val \<Rightarrow> bt_entry value_compare val [] (push_id rid) st
      | None \<Rightarrow> st)"

definition store_del :: "index_def \<Rightarrow> row \<Rightarrow> rowid \<Rightarrow> index_store \<Rightarrow> index_store" where
  "store_del idx r rid st =
     (case index_value idx r of
        Some val \<Rightarrow>
          (let st' = bt_modify value_compare val (filter (\<lambda>x. x \<noteq> rid)) st
           in if bt_lookup value_compare st' val = Some [] then bt_remove value_compare val st' else st')
      | None \<Rightarrow> st)"

definition add_to_index :: "u32 \<Rightarrow> string \<Rightarrow> row \<Rightarrow> rowid \<Rightarrow> index_def \<Rightarrow> kvs \<Rightarrow> kvs" where
  "add_to_index db_id table r rid idx s =
     set_index_store db_id table (idx_name idx)
       (store_add idx r rid (get_index_store s db_id table (idx_name idx))) s"

definition remove_from_index :: "u32 \<Rightarrow> string \<Rightarrow> row \<Rightarrow> rowid \<Rightarrow> index_def \<Rightarrow> kvs \<Rightarrow> kvs" where
  "remove_from_index db_id table r rid idx s =
     set_index_store db_id table (idx_name idx)
       (store_del idx r rid (get_index_store s db_id table (idx_name idx))) s"

definition rebuild_push :: "index_def \<Rightarrow> rowid \<times> row \<Rightarrow> index_store \<Rightarrow> index_store" where
  "rebuild_push idx entry st =
     (case index_value idx (snd entry) of
        Some val \<Rightarrow> bt_entry value_compare val [] (\<lambda>ids. ids @ [fst entry]) st
      | None \<Rightarrow> st)"

definition rebuild_index :: "('x) env_scheme \<Rightarrow> u32 \<Rightarrow> string \<Rightarrow> index_def \<Rightarrow> kvs \<Rightarrow> kvs" where
  "rebuild_index E db_id table idx s =
     (case get_table_store s db_id table of
        Some ref \<Rightarrow>
          set_index_store db_id table (idx_name idx)
            (fold (rebuild_push idx) (iter_rows E (k_heap s ref)) []) s
      | None \<Rightarrow> s)"

definition update_index ::
  "u32 \<Rightarrow> string \<Rightarrow> row \<Rightarrow> rowid \<Rightarrow> index_op \<Rightarrow> index_def \<Rightarrow> kvs \<Rightarrow> kvs" where
  "update_index db_id table r rid op idx s =
     (case op of
        IxInsert \<Rightarrow> add_to_index db_id table r rid idx s
      | IxDelete \<Rightarrow> remove_from_index db_id table r rid idx s
      | IxUpdate old_row \<Rightarrow>
          add_to_index db_id table r rid idx (remove_from_index db_id table old_row rid idx s))"

definition update_indexes :: "u32 \<Rightarrow> string \<Rightarrow> row \<Rightarrow> rowid \<Rightarrow> index_op \<Rightarrow> kvs \<Rightarrow> kvs" where
  "update_indexes db_id table r rid op s =
     (case get_schema s db_id table of
        None \<Rightarrow> s
      | Some schema \<Rightarrow> fold (update_index db_id table r rid op) (ts_indices schema) s)"

definition store_lookup :: "index_store \<Rightarrow> skvs_value \<Rightarrow> rowid list" where
  "store_lookup st v = (case bt_lookup value_compare st v of Some ids \<Rightarrow> ids | None \<Rightarrow> [])"

definition lookup_index :: "kvs \<Rightarrow> u32 \<Rightarrow> string \<Rightarrow> string \<Rightarrow> skvs_value \<Rightarrow> rowid list" where
  "lookup_index s db_id table index_name val =
     store_lookup (get_index_store s db_id table index_name) val"

definition range_lookup ::
  "kvs \<Rightarrow> u32 \<Rightarrow> string \<Rightarrow> string \<Rightarrow> skvs_value bound \<Rightarrow> skvs_value bound \<Rightarrow> rowid list outcome" where
  "range_lookup s db_id table index_name lower upper =
     obind (bt_range value_compare lower upper (get_index_store s db_id table index_name))
       (\<lambda>m. Done (concat (map snd m)))"

section \<open>What an index covers\<close>

definition ids_at :: "index_store \<Rightarrow> order_key \<Rightarrow> rowid set" where
  "ids_at st q = (case bt_abs value_key st q of Some ids \<Rightarrow> set ids | None \<Rightarrow> {})"

definition index_covers ::
  "skvs_value set \<Rightarrow> index_def \<Rightarrow> (rowid \<Rightarrow> row option) \<Rightarrow> index_store \<Rightarrow> bool" where
  "index_covers D idx R st \<longleftrightarrow>
     comparable_set D \<and> fst ` set st \<subseteq> D \<and> bt_wf value_key comparable st \<and>
     (\<forall>(k, ids) \<in> set st. ids \<noteq> [] \<and> distinct ids) \<and>
     (\<forall>rid r v. R rid = Some r \<longrightarrow> index_value idx r = Some v \<longrightarrow> v \<in> D) \<and>
     (\<forall>q. ids_at st q =
        {rid. \<exists>r v. R rid = Some r \<and> index_value idx r = Some v \<and> value_key v = q})"

lemma index_covers_domain:
  "index_covers D idx R st \<Longrightarrow> R rid = Some r \<Longrightarrow> index_value idx r = Some v \<Longrightarrow> v \<in> D"
  by (simp add: index_covers_def)

lemma index_covers_ids:
  "index_covers D idx R st \<Longrightarrow>
   ids_at st q = {rid. \<exists>r v. R rid = Some r \<and> index_value idx r = Some v \<and> value_key v = q}"
  by (simp add: index_covers_def)

lemma index_covers_good:
  "index_covers D idx R st \<Longrightarrow> v \<in> D \<Longrightarrow> good comparable (insert v (fst ` set st))"
  unfolding index_covers_def good_comparable_set by (auto intro: comparable_set_mono)

lemma ids_at_entry:
  assumes "bt_wf value_key comparable st" "good comparable (insert v (fst ` set st))"
  shows "ids_at (bt_entry value_compare v [] f st) q =
     (if q = value_key v
      then set (f (case bt_abs value_key st q of Some ids \<Rightarrow> ids | None \<Rightarrow> [])) else ids_at st q)"
  unfolding ids_at_def by (simp add: value_order.bt_entry_abs assms)

lemma bt_entry_values:
  "(k, w) \<in> set (bt_entry cmp v [] f st) \<Longrightarrow>
   (k, w) \<in> set st \<or> (\<exists>w'. w = f w' \<and> (w' = [] \<or> (k, w') \<in> set st))"
proof (induction st)
  case (Cons x st)
  obtain a b where x: "x = (a, b)" by force
  show ?case using Cons by (cases "cmp v a") (auto simp: x)
qed auto

lemma set_push_id [simp]: "set (push_id rid ids) = insert rid (set ids)"
  by (auto simp: push_id_def)

lemma push_id_ok [simp]: "push_id rid ids \<noteq> []" "distinct (push_id rid ids) = distinct ids"
  by (auto simp: push_id_def)

lemma entry_keys_in:
  "fst ` set st \<subseteq> D \<Longrightarrow> v \<in> D \<Longrightarrow> fst ` set (bt_entry value_compare v d f st) \<subseteq> D"
  by (rule order_trans [OF value_order.keys_bt_entry]) simp

text \<open>Inserting a row that was not there.\<close>

lemma store_add_covers:
  assumes "index_covers D idx R st" "R rid = None"
    and D: "\<And>v. index_value idx r = Some v \<Longrightarrow> v \<in> D"
  shows "index_covers D idx (R(rid \<mapsto> r)) (store_add idx r rid st)"
proof (cases "index_value idx r")
  case None
  then show ?thesis using assms(1,2) by (auto simp: index_covers_def store_add_def)
next
  case (Some v)
  let ?st = "bt_entry value_compare v [] (push_id rid) st"
  have g: "good comparable (insert v (fst ` set st))"
    by (rule index_covers_good [OF assms(1) D [OF Some]])
  have wf: "bt_wf value_key comparable st" using assms(1) by (simp add: index_covers_def)
  have ids: "ids_at ?st q = (if q = value_key v then insert rid (ids_at st q) else ids_at st q)" for q
    by (simp add: ids_at_entry [OF wf g]) (simp add: ids_at_def split: option.splits)
  have "index_covers D idx (R(rid \<mapsto> r)) ?st"
    unfolding index_covers_def
  proof (intro conjI allI)
    show "comparable_set D" using assms(1) by (simp add: index_covers_def)
    show "fst ` set ?st \<subseteq> D"
      using assms(1) D [OF Some] by (simp add: index_covers_def entry_keys_in)
    show "bt_wf value_key comparable ?st" by (rule value_order.bt_entry_wf [OF wf g])
    have "\<forall>(k, ids) \<in> set st. ids \<noteq> [] \<and> distinct ids" using assms(1) by (simp add: index_covers_def)
    then show "\<forall>(k, ids) \<in> set ?st. ids \<noteq> [] \<and> distinct ids"
      by (auto dest!: bt_entry_values)
    show "ids_at ?st q = {x. \<exists>r' w. (R(rid \<mapsto> r)) x = Some r' \<and> index_value idx r' = Some w
        \<and> value_key w = q}" for q
      unfolding ids index_covers_ids [OF assms(1)] using assms(2) Some by (auto split: if_splits)
    show "(R(rid \<mapsto> r)) x = Some r' \<longrightarrow> index_value idx r' = Some w \<longrightarrow> w \<in> D" for x r' w
      using index_covers_domain [OF assms(1)] D by auto
  qed
  then show ?thesis by (simp add: store_add_def Some)
qed

lemma bt_modify_values:
  "(k, w) \<in> set (bt_modify cmp v f st) \<Longrightarrow>
   (k, w) \<in> set st \<or> (cmp v k = Equal \<and> (\<exists>w'. w = f w' \<and> (k, w') \<in> set st))"
proof (induction st)
  case (Cons x st)
  obtain a b where x: "x = (a, b)" by force
  show ?case using Cons by (cases "cmp v a") (auto simp: x)
qed auto

text \<open>The store after a removal: the modified list, without the key when it became empty.\<close>

lemma ids_at_store_del:
  assumes wf: "bt_wf value_key comparable st" and g: "good comparable (insert v (fst ` set st))"
    and v: "index_value idx r = Some v"
  shows "ids_at (store_del idx r rid st) q =
      (if q = value_key v then ids_at st q - {rid} else ids_at st q)"
    and "bt_wf value_key comparable (store_del idx r rid st)"
    and "fst ` set (store_del idx r rid st) \<subseteq> fst ` set st"
proof -
  let ?m = "bt_modify value_compare v (filter (\<lambda>x. x \<noteq> rid)) st"
  have keys: "fst ` set ?m = fst ` set st"
    by (metis list.set_map value_order.keys_bt_modify)
  have wfm: "bt_wf value_key comparable ?m" by (rule value_order.bt_modify_wf [OF wf])
  have gm: "good comparable (insert v (fst ` set ?m))" using g keys by simp
  have abs: "bt_abs value_key ?m = (bt_abs value_key st)
      (value_key v := map_option (filter (\<lambda>x. x \<noteq> rid)) (bt_abs value_key st (value_key v)))"
    by (rule value_order.bt_modify_abs [OF wf g])
  have ids: "ids_at ?m q = (if q = value_key v then ids_at st q - {rid} else ids_at st q)" for q
    unfolding ids_at_def abs by (auto split: option.splits)
  have lk: "bt_lookup value_compare ?m v = bt_abs value_key ?m (value_key v)"
    by (rule value_order.bt_lookup_abs [OF wfm gm])
  have rm: "ids_at (bt_remove value_compare v ?m) q = ids_at ?m q"
    if "bt_abs value_key ?m (value_key v) = Some []" for q
    unfolding ids_at_def value_order.bt_remove_abs [OF wfm gm] using that by auto
  show "ids_at (store_del idx r rid st) q =
      (if q = value_key v then ids_at st q - {rid} else ids_at st q)"
    using rm ids by (simp add: store_del_def v Let_def lk)
  show "bt_wf value_key comparable (store_del idx r rid st)"
    using value_order.bt_remove_wf [OF wfm] wfm by (simp add: store_del_def v Let_def)
  show "fst ` set (store_del idx r rid st) \<subseteq> fst ` set st"
    using keys image_mono [OF value_order.keys_bt_remove [of v ?m], of fst]
    by (simp add: store_del_def v Let_def)
qed

lemma store_del_lists:
  assumes wf: "bt_wf value_key comparable st" and g: "good comparable (insert v (fst ` set st))"
    and v: "index_value idx r = Some v"
    and ne: "\<forall>(k, ids) \<in> set st. ids \<noteq> [] \<and> distinct ids"
  shows "\<forall>(k, ids) \<in> set (store_del idx r rid st). ids \<noteq> [] \<and> distinct ids"
proof -
  let ?m = "bt_modify value_compare v (filter (\<lambda>x. x \<noteq> rid)) st"
  let ?d = "store_del idx r rid st"
  have keys: "fst ` set ?m = fst ` set st"
    by (metis list.set_map value_order.keys_bt_modify)
  have wfm: "bt_wf value_key comparable ?m" by (rule value_order.bt_modify_wf [OF wf])
  have gm: "good comparable (insert v (fst ` set ?m))" using g keys by simp
  have lk: "bt_lookup value_compare ?m v = bt_abs value_key ?m (value_key v)"
    by (rule value_order.bt_lookup_abs [OF wfm gm])
  have sub: "set ?d \<subseteq> set ?m"
    using value_order.keys_bt_remove [of v ?m] by (auto simp: store_del_def v Let_def)
  have dist: "distinct ids" if "(k, ids) \<in> set ?m" for k ids
    using bt_modify_values [OF that] ne by auto
  have empty: False if "(k, []) \<in> set ?d" for k
  proof -
    have km: "(k, []) \<in> set ?m" using sub that by auto
    then have "value_compare v k = Equal"
      using bt_modify_values [OF km] ne by auto
    moreover have "value_compare v k = cmp_of (value_key v) (value_key k)"
      by (rule value_order.good_cmp [OF gm]) (use km in force)+
    ultimately have kv: "value_key k = value_key v" by (simp add: cmp_of_def split: if_splits)
    then have "bt_abs value_key ?m (value_key v) = Some []"
      using km value_order.bt_abs_set [OF wfm] by metis
    then have "?d = bt_remove value_compare v ?m" by (simp add: store_del_def v Let_def lk)
    moreover have "bt_abs value_key (bt_remove value_compare v ?m) (value_key v) = None"
      by (simp add: value_order.bt_remove_abs [OF wfm gm])
    ultimately show False
      using that kv value_order.bt_abs_set [OF value_order.bt_remove_wf [OF wfm], of v "value_key v" "[]"]
      by auto
  qed
  then show ?thesis using dist sub by blast
qed

lemma store_del_covers:
  assumes "index_covers D idx R st" "R rid = Some r"
  shows "index_covers D idx (R(rid := None)) (store_del idx r rid st)"
proof (cases "index_value idx r")
  case None
  then show ?thesis using assms by (auto simp: index_covers_def store_del_def)
next
  case (Some v)
  have vD: "v \<in> D" using assms Some by (auto simp: index_covers_def)
  have g: "good comparable (insert v (fst ` set st))" by (rule index_covers_good [OF assms(1) vD])
  have wf: "bt_wf value_key comparable st" using assms(1) by (simp add: index_covers_def)
  note d = ids_at_store_del [OF wf g Some]
  show ?thesis
    unfolding index_covers_def
  proof (intro conjI allI)
    show "\<forall>(k, ids) \<in> set (store_del idx r rid st). ids \<noteq> [] \<and> distinct ids"
      by (rule store_del_lists [OF wf g Some]) (use assms(1) in \<open>auto simp: index_covers_def\<close>)
    show "ids_at (store_del idx r rid st) q = {x. \<exists>r' w. (R(rid := None)) x = Some r'
        \<and> index_value idx r' = Some w \<and> value_key w = q}" for q
      unfolding d(1) index_covers_ids [OF assms(1)] using assms(2) Some by auto
    show "fst ` set (store_del idx r rid st) \<subseteq> D"
      using d(3) assms(1) by (auto simp: index_covers_def)
    show "(R(rid := None)) x = Some r' \<longrightarrow> index_value idx r' = Some w \<longrightarrow> w \<in> D" for x r' w
      using index_covers_domain [OF assms(1)] by auto
    show "comparable_set D" using assms(1) by (simp add: index_covers_def)
  qed (rule d(2))
qed

section \<open>Rebuilding\<close>

lemma bt_entry_cong:
  "(\<And>k w. (k, w) \<in> set st \<Longrightarrow> f w = g w) \<Longrightarrow> f [] = g [] \<Longrightarrow>
   bt_entry cmp v [] f st = bt_entry cmp v [] g st"
proof (induction st)
  case (Cons x st)
  obtain a b where x: "x = (a, b)" by force
  have IH: "bt_entry cmp v [] f st = bt_entry cmp v [] g st"
    by (rule Cons.IH) (use Cons.prems in auto)
  have "f b = g b" by (rule Cons.prems(1) [of a]) (simp add: x)
  then show ?case using IH Cons.prems(2) by (simp add: x split: ordering.split)
qed simp

lemma index_covers_listed:
  assumes "index_covers D idx R st" "(k, ids) \<in> set st" "rid \<in> set ids"
  shows "R rid \<noteq> None"
proof -
  have "bt_abs value_key st (value_key k) = Some ids"
    using value_order.bt_abs_set [of st "value_key k" ids] assms by (auto simp: index_covers_def)
  then have "rid \<in> ids_at st (value_key k)" using assms(3) by (simp add: ids_at_def)
  then show ?thesis unfolding index_covers_ids [OF assms(1)] by auto
qed

lemma rebuild_push_add:
  assumes "index_covers D idx R st" "R rid = None"
  shows "rebuild_push idx (rid, r) st = store_add idx r rid st"
proof -
  have "rid \<notin> set w" if "(k, w) \<in> set st" for k w
    using index_covers_listed [OF assms(1) that, of rid] assms(2) by auto
  then have "bt_entry value_compare v [] (\<lambda>ids. ids @ [rid]) st =
      bt_entry value_compare v [] (push_id rid) st" for v
    by (intro bt_entry_cong) (auto simp: push_id_def)
  then show ?thesis by (simp add: rebuild_push_def store_add_def split: option.split)
qed

lemma rebuild_fold_covers:
  assumes "index_covers D idx R st" "distinct (map fst xs)" "\<forall>x\<in>set xs. R (fst x) = None"
    and "\<And>rid r v. (rid, r) \<in> set xs \<Longrightarrow> index_value idx r = Some v \<Longrightarrow> v \<in> D"
  shows "index_covers D idx (R ++ map_of xs) (fold (rebuild_push idx) xs st)"
  using assms
proof (induction xs arbitrary: R st)
  case (Cons x xs)
  obtain rid r where x: "x = (rid, r)" by force
  have 1: "index_covers D idx (R(rid \<mapsto> r)) (rebuild_push idx x st)"
    using store_add_covers [OF Cons.prems(1), of rid r] rebuild_push_add [OF Cons.prems(1), of rid r]
      Cons.prems(3) Cons.prems(4) [of rid r] by (simp add: x)
  have "index_covers D idx (R(rid \<mapsto> r) ++ map_of xs) (fold (rebuild_push idx) xs (rebuild_push idx x st))"
    by (rule Cons.IH [OF 1]) (use Cons.prems(2-4) x in \<open>auto simp: image_iff\<close>)
  moreover have "R(rid \<mapsto> r) ++ map_of xs = R ++ map_of (x # xs)"
    using Cons.prems(2)
    by (simp add: x map_add_def fun_eq_iff map_of_eq_None_iff [symmetric] split: option.split)
  ultimately show ?case by (simp only: fold_simps)
qed simp

lemma index_covers_empty: "comparable_set D \<Longrightarrow> index_covers D idx (\<lambda>_. None) []"
  by (simp add: index_covers_def ids_at_def)

lemma rebuild_covers:
  assumes "iter_ok E" "wf_alist rows" "comparable_set D"
    and "\<And>rid r v. map_of rows rid = Some r \<Longrightarrow> index_value idx r = Some v \<Longrightarrow> v \<in> D"
  shows "index_covers D idx (map_of rows) (fold (rebuild_push idx) (iter_rows E rows) [])"
proof -
  let ?xs = "iter_rows E rows"
  have m: "mset ?xs = mset rows" using assms(1) by (simp add: iter_ok_def)
  have d: "distinct (map fst ?xs)" using m assms(2) by (metis mset_eq_imp_distinct_iff mset_map)
  have "index_covers D idx ((\<lambda>_. None) ++ map_of ?xs) (fold (rebuild_push idx) ?xs [])"
    by (rule rebuild_fold_covers [OF index_covers_empty [OF assms(3)] d])
      (use assms(4) in \<open>auto simp: iter_rows_set [OF assms(1)] set_map_of [OF assms(2)]\<close>)
  moreover have "(\<lambda>_. None) ++ map_of ?xs = map_of rows"
    by (simp add: map_of_mset_eq [OF assms(2) m])
  ultimately show ?thesis by simp
qed

section \<open>Reading\<close>

lemma covers_good_query:
  "index_covers D idx R st \<Longrightarrow> comparable_set (insert v D) \<Longrightarrow>
   good comparable (insert v (fst ` set st))"
  unfolding index_covers_def good_comparable_set by (auto intro: comparable_set_mono)

lemma covers_keys: "index_covers D idx R st \<Longrightarrow> (k, ids) \<in> set st \<Longrightarrow> k \<in> D"
  by (auto simp: index_covers_def)

lemma covers_wf: "index_covers D idx R st \<Longrightarrow> bt_wf value_key comparable st"
  by (simp add: index_covers_def)

lemma covers_lookup:
  assumes "index_covers D idx R st" "comparable_set (insert v D)"
  shows "set (store_lookup st v) =
      {rid. \<exists>r w. R rid = Some r \<and> index_value idx r = Some w \<and> value_compare w v = Equal}"
    and "distinct (store_lookup st v)"
proof -
  have lk: "bt_lookup value_compare st v = bt_abs value_key st (value_key v)"
    by (rule value_order.bt_lookup_abs [OF covers_wf [OF assms(1)] covers_good_query [OF assms]])
  have "set (store_lookup st v) = ids_at st (value_key v)"
    by (simp add: store_lookup_def lk ids_at_def split: option.splits)
  moreover have "value_compare w v = Equal \<longleftrightarrow> value_key w = value_key v"
    if "w \<in> D" for w
    using comparable_set_key [OF assms(2), of w v] that by (simp add: cmp_of_def)
  ultimately show "set (store_lookup st v) =
      {rid. \<exists>r w. R rid = Some r \<and> index_value idx r = Some w \<and> value_compare w v = Equal}"
    unfolding index_covers_ids [OF assms(1)] using index_covers_domain [OF assms(1)] by blast
  show "distinct (store_lookup st v)"
    using assms(1) value_order.bt_abs_set [OF covers_wf [OF assms(1)], of "value_key v"]
    by (auto simp: store_lookup_def lk index_covers_def split: option.splits)
qed

definition bound_values :: "skvs_value bound \<Rightarrow> skvs_value set" where
  "bound_values b = set_bound b"

lemma bound_values_simps [simp]:
  "bound_values (Included v) = {v}" "bound_values (Excluded v) = {v}" "bound_values Unbounded = {}"
  by (simp_all add: bound_values_def)

lemma above_key:
  "comparable_set S \<Longrightarrow> bound_values b \<subseteq> S \<Longrightarrow> k \<in> S \<Longrightarrow> w \<in> S \<Longrightarrow> value_key k = value_key w \<Longrightarrow>
   above value_compare b k = above value_compare b w"
  by (cases b) (auto simp: comparable_set_key [of S])

lemma below_key:
  "comparable_set S \<Longrightarrow> bound_values b \<subseteq> S \<Longrightarrow> k \<in> S \<Longrightarrow> w \<in> S \<Longrightarrow> value_key k = value_key w \<Longrightarrow>
   below value_compare b k = below value_compare b w"
  by (cases b) (auto simp: comparable_set_key [of S])

lemma covers_range:
  assumes cov: "index_covers D idx R st"
    and S: "comparable_set (bound_values lo \<union> bound_values hi \<union> D)"
    and "bt_range value_compare lo hi st = Done m"
  shows "set (concat (map snd m)) = {rid. \<exists>r w. R rid = Some r \<and> index_value idx r = Some w
      \<and> above value_compare lo w \<and> below value_compare hi w}"
proof -
  let ?S = "bound_values lo \<union> bound_values hi \<union> D"
  have m: "m = filter (\<lambda>(k, _). above value_compare lo k \<and> below value_compare hi k) st"
    using assms(3) by (simp add: bt_range_def split: if_splits)
  have kD: "k \<in> D" if "(k, ids) \<in> set st" for k ids
    by (rule covers_keys [OF cov that])
  have fwd: "\<exists>r w. R rid = Some r \<and> index_value idx r = Some w \<and> value_key w = value_key k"
    if "(k, ids) \<in> set st" "rid \<in> set ids" for k ids rid
  proof -
    have "bt_abs value_key st (value_key k) = Some ids"
      using value_order.bt_abs_set [OF covers_wf [OF cov]] that(1) by blast
    then have "rid \<in> ids_at st (value_key k)" using that(2) by (simp add: ids_at_def)
    then show ?thesis unfolding index_covers_ids [OF cov] by auto
  qed
  have bwd: "\<exists>k ids. (k, ids) \<in> set st \<and> rid \<in> set ids \<and> value_key k = value_key w"
    if "R rid = Some r" "index_value idx r = Some w" for rid r w
  proof -
    have "rid \<in> ids_at st (value_key w)" unfolding index_covers_ids [OF cov] using that by auto
    then obtain ids where "bt_abs value_key st (value_key w) = Some ids" "rid \<in> set ids"
      by (auto simp: ids_at_def split: option.splits)
    then show ?thesis using value_order.bt_abs_set [OF covers_wf [OF cov]] by blast
  qed
  have same: "above value_compare lo k = above value_compare lo w
      \<and> below value_compare hi k = below value_compare hi w"
    if "k \<in> D" "w \<in> D" "value_key k = value_key w" for k w
    using above_key [OF S, of lo k w] below_key [OF S, of hi k w] that by auto
  note dom = index_covers_domain [OF cov]
  show ?thesis (is "?L = ?R")
  proof
    show "?L \<subseteq> ?R"
    proof
      fix rid assume "rid \<in> ?L"
      then obtain k ids where k: "(k, ids) \<in> set st" "rid \<in> set ids" "above value_compare lo k"
        "below value_compare hi k" by (auto simp: m)
      then obtain r w where w: "R rid = Some r" "index_value idx r = Some w" "value_key w = value_key k"
        using fwd by blast
      with k same [OF kD [OF k(1)] dom [OF w(1,2)]] show "rid \<in> ?R" by auto
    qed
    show "?R \<subseteq> ?L"
    proof
      fix rid assume "rid \<in> ?R"
      then obtain r w where w: "R rid = Some r" "index_value idx r = Some w"
        "above value_compare lo w" "below value_compare hi w" by auto
      obtain k ids where k: "(k, ids) \<in> set st" "rid \<in> set ids" "value_key k = value_key w"
        using bwd [OF w(1,2)] by blast
      with w same [OF kD [OF k(1)] dom [OF w(1,2)]] have "(k, ids) \<in> set m" by (auto simp: m)
      with k show "rid \<in> ?L" by force
    qed
  qed
qed

section \<open>Updating every index of a table\<close>

definition store_op :: "row \<Rightarrow> rowid \<Rightarrow> index_op \<Rightarrow> index_def \<Rightarrow> index_store \<Rightarrow> index_store" where
  "store_op r rid op idx st =
     (case op of
        IxInsert \<Rightarrow> store_add idx r rid st
      | IxDelete \<Rightarrow> store_del idx r rid st
      | IxUpdate old_row \<Rightarrow> store_add idx r rid (store_del idx old_row rid st))"

lemma get_set_index_store:
  "get_index_store (set_index_store db t n st s) db' t' n' =
     (if db' = db \<and> index_key t' n' = index_key t n then st else get_index_store s db' t' n')"
  by (auto simp: get_index_store_def set_index_store_def)

lemma index_key_same [simp]: "index_key t n = index_key t n' \<longleftrightarrow> n = n'"
  by (simp add: index_key_def)

lemma append_sep_inj:
  "z \<notin> set a \<Longrightarrow> z \<notin> set b \<Longrightarrow> a @ z # x = b @ z # y \<Longrightarrow> a = b \<and> x = y"
  by (induction a arbitrary: b) (auto simp: Cons_eq_append_conv append_eq_Cons_conv)

definition plain_name :: "string \<Rightarrow> bool" where
  "plain_name t \<longleftrightarrow> CHR 0x00 \<notin> set t"

lemma index_key_inj:
  "plain_name t \<Longrightarrow> plain_name t' \<Longrightarrow> index_key t n = index_key t' n' \<longleftrightarrow> t = t' \<and> n = n'"
  using append_sep_inj [of "CHR 0x00" t t' n n'] by (auto simp: index_key_def plain_name_def)

lemma set_set_index_store:
  "set_index_store db t n a (set_index_store db t n b s) = set_index_store db t n a s"
  by (simp add: set_index_store_def)

lemma update_index_store:
  "update_index db t r rid op idx s = set_index_store db t (idx_name idx)
     (store_op r rid op idx (get_index_store s db t (idx_name idx))) s"
  by (cases op) (simp_all add: update_index_def store_op_def add_to_index_def remove_from_index_def
      get_set_index_store set_set_index_store)

lemma fold_update_index_get:
  "distinct (map idx_name idxs) \<Longrightarrow>
   get_index_store (fold (update_index db t r rid op) idxs s) db t n =
     (case List.find (\<lambda>i. idx_name i = n) idxs of
        Some idx \<Rightarrow> store_op r rid op idx (get_index_store s db t n)
      | None \<Rightarrow> get_index_store s db t n)"
proof (induction idxs arbitrary: s)
  case (Cons i idxs)
  have "List.find (\<lambda>i. idx_name i = n) idxs = None" if "idx_name i = n"
    unfolding find_None_iff using Cons.prems that by auto (metis imageI)
  with Cons show ?case
    by (auto simp: update_index_store get_set_index_store split: option.splits)
qed simp

lemma fold_update_index_frame:
  "\<exists>f. fold (update_index db t r rid op) idxs s = s\<lparr>k_indexes := f\<rparr>"
proof (induction idxs arbitrary: s)
  case Nil
  have "s = s\<lparr>k_indexes := k_indexes s\<rparr>" by simp
  then show ?case by (metis fold_simps(1))
next
  case (Cons i idxs)
  obtain f where f: "fold (update_index db t r rid op) idxs (update_index db t r rid op i s) =
      (update_index db t r rid op i s)\<lparr>k_indexes := f\<rparr>" using Cons.IH by blast
  obtain g where g: "update_index db t r rid op i s = s\<lparr>k_indexes := g\<rparr>"
    by (simp add: update_index_store set_index_store_def)
  show ?case unfolding fold_simps f unfolding g by auto
qed

lemma update_indexes_frame:
  obtains f where "update_indexes db t r rid op s = s\<lparr>k_indexes := f\<rparr>"
proof (cases "get_schema s db t")
  case None
  then have "update_indexes db t r rid op s = s\<lparr>k_indexes := k_indexes s\<rparr>"
    by (simp add: update_indexes_def)
  then show thesis by (rule that)
next
  case (Some schema)
  then show thesis
    using that fold_update_index_frame [of db t r rid op "ts_indices schema" s]
    by (auto simp: update_indexes_def)
qed

lemma update_indexes_fields [simp]:
  "k_dbs (update_indexes db t r rid op s) = k_dbs s"
  "k_heap (update_indexes db t r rid op s) = k_heap s"
  "k_next_ref (update_indexes db t r rid op s) = k_next_ref s"
  "k_schemas (update_indexes db t r rid op s) = k_schemas s"
  "k_rowid_gens (update_indexes db t r rid op s) = k_rowid_gens s"
  "k_raw (update_indexes db t r rid op s) = k_raw s"
  "k_triggers (update_indexes db t r rid op s) = k_triggers s"
  "k_views (update_indexes db t r rid op s) = k_views s"
  "k_fts (update_indexes db t r rid op s) = k_fts s"
  "k_txns (update_indexes db t r rid op s) = k_txns s"
  "k_files (update_indexes db t r rid op s) = k_files s"
  by (rule update_indexes_frame [of db t r rid op s]; simp)+

lemma get_fields [simp]:
  "get_schema (update_indexes db t r rid op s) db' t' = get_schema s db' t'"
  "get_table_store (update_indexes db t r rid op s) db' t' = get_table_store s db' t'"
  by (simp_all add: get_schema_def get_table_store_def)

text \<open>The stores of every index of one table, against the rows of that table.\<close>

definition indexes_cover ::
  "(index_def \<Rightarrow> skvs_value set) \<Rightarrow> u32 \<Rightarrow> string \<Rightarrow> (rowid \<Rightarrow> row option) \<Rightarrow> kvs \<Rightarrow> bool" where
  "indexes_cover D db t R s \<longleftrightarrow>
     (\<forall>schema. get_schema s db t = Some schema \<longrightarrow>
        distinct (map idx_name (ts_indices schema)) \<and>
        (\<forall>idx \<in> set (ts_indices schema).
           index_covers (D idx) idx R (get_index_store s db t (idx_name idx))))"

definition row_in_domains :: "(index_def \<Rightarrow> skvs_value set) \<Rightarrow> index_def list \<Rightarrow> row \<Rightarrow> bool" where
  "row_in_domains D idxs r \<longleftrightarrow> (\<forall>idx\<in>set idxs. \<forall>v. index_value idx r = Some v \<longrightarrow> v \<in> D idx)"

lemma find_by_name:
  "distinct (map idx_name idxs) \<Longrightarrow> idx \<in> set idxs \<Longrightarrow>
   List.find (\<lambda>i. idx_name i = idx_name idx) idxs = Some idx"
  by (induction idxs) (auto simp: image_iff)

lemma get_index_update_indexes:
  assumes "get_schema s db t = Some schema" "distinct (map idx_name (ts_indices schema))"
    and "idx \<in> set (ts_indices schema)"
  shows "get_index_store (update_indexes db t r rid op s) db t (idx_name idx) =
     store_op r rid op idx (get_index_store s db t (idx_name idx))"
  using assms by (simp add: update_indexes_def fold_update_index_get find_by_name)

fun op_rows :: "row \<Rightarrow> rowid \<Rightarrow> index_op \<Rightarrow> (rowid \<Rightarrow> row option) \<Rightarrow> (rowid \<Rightarrow> row option)" where
  "op_rows r rid IxDelete R = R(rid := None)"
| "op_rows r rid _ R = R(rid \<mapsto> r)"

fun op_applies :: "row \<Rightarrow> rowid \<Rightarrow> index_op \<Rightarrow> (rowid \<Rightarrow> row option) \<Rightarrow> bool" where
  "op_applies r rid IxInsert R = (R rid = None)"
| "op_applies r rid IxDelete R = (R rid = Some r)"
| "op_applies r rid (IxUpdate old_row) R = (R rid = Some old_row)"

lemma store_op_covers:
  assumes "index_covers D idx R st" "op_applies r rid op R"
    and "op = IxDelete \<or> (\<forall>v. index_value idx r = Some v \<longrightarrow> v \<in> D)"
  shows "index_covers D idx (op_rows r rid op R) (store_op r rid op idx st)"
proof (cases op)
  case (IxUpdate old_row)
  then have "index_covers D idx ((R(rid := None))(rid \<mapsto> r))
      (store_add idx r rid (store_del idx old_row rid st))"
    using assms by (intro store_add_covers store_del_covers) auto
  then show ?thesis by (simp add: IxUpdate store_op_def)
qed (use assms in \<open>auto simp: store_op_def intro: store_add_covers store_del_covers\<close>)

lemma update_indexes_cover:
  assumes "indexes_cover D db t R s" "op_applies r rid op R"
    and "op = IxDelete \<or> (\<forall>schema. get_schema s db t = Some schema \<longrightarrow>
           row_in_domains D (ts_indices schema) r)"
  shows "indexes_cover D db t (op_rows r rid op R) (update_indexes db t r rid op s)"
  unfolding indexes_cover_def
proof (intro allI impI conjI ballI)
  fix schema assume sch: "get_schema (update_indexes db t r rid op s) db t = Some schema"
  then have sch': "get_schema s db t = Some schema" by simp
  then show d: "distinct (map idx_name (ts_indices schema))"
    using assms(1) by (simp add: indexes_cover_def)
  fix idx assume idx: "idx \<in> set (ts_indices schema)"
  have "index_covers (D idx) idx R (get_index_store s db t (idx_name idx))"
    using assms(1) sch' idx by (simp add: indexes_cover_def)
  then show "index_covers (D idx) idx (op_rows r rid op R)
      (get_index_store (update_indexes db t r rid op s) db t (idx_name idx))"
    unfolding get_index_update_indexes [OF sch' d idx]
    by (rule store_op_covers [OF _ assms(2)])
      (use assms(3) sch' idx in \<open>auto simp: row_in_domains_def\<close>)
qed

end
