(* ===== verification/Skvs_Join.thy ===== *)
theory Skvs_Join
  imports Skvs_Where Skvs_Index
begin

text \<open>
  Joins (\<open>execute_joins\<close> and its helpers in \<^verbatim>\<open>src/src/sql/select.rs\<close>): qualified row merging,
  the nested loops of the five join operators, and the hash join of a first equi-join. As in the
  source, only the joins of the first FROM item run.
\<close>

definition table_factor_names :: "('x) env_scheme \<Rightarrow> table_factor \<Rightarrow> string \<times> string option" where
  "table_factor_names E relation =
     (case relation of
        TableFactor name alias \<Rightarrow> (object_name_to_string E name, map_option (ident_to_string E) alias)
      | OtherFactor rendered \<Rightarrow> (rendered, None))"

definition table_ref_name :: "string \<Rightarrow> string option \<Rightarrow> string" where
  "table_ref_name table alias = (case alias of Some a \<Rightarrow> a | None \<Rightarrow> table)"

definition qualified_name :: "string \<Rightarrow> string \<Rightarrow> string" where
  "qualified_name table_or_alias col = table_or_alias @ ''.'' @ col"

definition insert_row_qualified :: "row \<Rightarrow> string \<Rightarrow> row \<Rightarrow> row" where
  "insert_row_qualified combined t r =
     fold (\<lambda>(k, v) c. entry_or_insert k v (AList.update (qualified_name t k) v c)) r combined"

definition null_pad_keys :: "string \<Rightarrow> string list \<Rightarrow> row" where
  "null_pad_keys t ks =
     fold (\<lambda>k c. entry_or_insert k VNull (AList.update (qualified_name t k) VNull c)) ks []"

definition null_padded :: "string \<Rightarrow> table_schema option \<Rightarrow> row option \<Rightarrow> row" where
  "null_padded t schema2 sample =
     (case schema2 of
        Some sch \<Rightarrow> null_pad_keys t (map fst (ts_columns sch))
      | None \<Rightarrow> (case sample of Some r \<Rightarrow> null_pad_keys t (map fst r) | None \<Rightarrow> []))"

definition join_condition_matches ::
  "('x) env_scheme \<Rightarrow> kvs \<Rightarrow> u32 \<Rightarrow> skvs_value list \<Rightarrow> join_constraint \<Rightarrow> row \<Rightarrow> bool outcome" where
  "join_condition_matches E s db ps c combined =
     (case c of
        On e \<Rightarrow> obind (evaluate_where E s db combined ps e 0) (\<lambda>(b, _). Done b)
      | Using cols \<Rightarrow> Done (list_all (\<lambda>i. map_of combined (id_value i) \<noteq> None) cols)
      | NaturalC \<Rightarrow> Done True
      | NoConstraint \<Rightarrow> Done True)"

text \<open>The side of a two-part column reference: the first or the second table of the join.\<close>

definition equi_side :: "string \<Rightarrow> string \<Rightarrow> expr \<Rightarrow> (bool \<times> string) option" where
  "equi_side name1 name2 e =
     (case e of
        CompoundIdentifier [t, c] \<Rightarrow>
          (if id_value t = name1 then Some (True, id_value c)
           else if id_value t = name2 then Some (False, id_value c) else None)
      | _ \<Rightarrow> None)"

definition extract_equi_join :: "join_constraint \<Rightarrow> string \<Rightarrow> string \<Rightarrow> (string \<times> string) option" where
  "extract_equi_join c name1 name2 =
     (case c of
        On (BinaryOp left BEq right) \<Rightarrow>
          (case (equi_side name1 name2 left, equi_side name1 name2 right) of
             (Some (True, c1), Some (False, c2)) \<Rightarrow> Some (c1, c2)
           | (Some (False, c2), Some (True, c1)) \<Rightarrow> Some (c1, c2)
           | _ \<Rightarrow> None)
      | _ \<Rightarrow> None)"

definition hash_push :: "string \<Rightarrow> row \<Rightarrow> (string \<Rightarrow> row list option) \<Rightarrow> (string \<Rightarrow> row list option)" where
  "hash_push col2 r m =
     (case map_of r col2 of
        Some v \<Rightarrow>
          (let k = value_to_key_string v in
           m(k \<mapsto> (case m k of Some rs \<Rightarrow> rs | None \<Rightarrow> []) @ [r]))
      | None \<Rightarrow> m)"

definition hash_by_column :: "row list \<Rightarrow> string \<Rightarrow> string \<Rightarrow> row list option" where
  "hash_by_column rows2 col2 = fold (hash_push col2) rows2 (\<lambda>_. None)"

text \<open>The bucket of a left row, if it has the column and the bucket exists.\<close>

definition hash_probe :: "(string \<Rightarrow> row list option) \<Rightarrow> string \<Rightarrow> row \<Rightarrow> row list option" where
  "hash_probe by_val q1 row1 =
     (case map_of row1 q1 of Some v1 \<Rightarrow> by_val (value_to_key_string v1) | None \<Rightarrow> None)"

section \<open>One join\<close>

definition combine :: "string \<Rightarrow> row \<Rightarrow> row \<Rightarrow> row" where
  "combine name2 row1 row2 = insert_row_qualified row1 name2 row2"

definition matching :: "(row \<Rightarrow> bool outcome) \<Rightarrow> row list \<Rightarrow> row list outcome" where
  "matching cond combined = ofilter cond combined"

definition pad_left :: "row \<Rightarrow> row \<Rightarrow> row" where
  "pad_left row1 pad = fold (\<lambda>(k, v) c. AList.update k v c) pad row1"

definition pad_right :: "string list \<Rightarrow> string \<Rightarrow> row \<Rightarrow> row" where
  "pad_right left_cols name2 row2 =
     insert_row_qualified (fold (\<lambda>k c. AList.update k VNull c) left_cols []) name2 row2"

definition concat_outcome :: "('a \<Rightarrow> 'b list outcome) \<Rightarrow> 'a list \<Rightarrow> 'b list outcome" where
  "concat_outcome f xs = obind (omap f xs) (\<lambda>ys. Done (concat ys))"

definition inner_loop :: "(row \<Rightarrow> bool outcome) \<Rightarrow> string \<Rightarrow> row list \<Rightarrow> row list \<Rightarrow> row list outcome" where
  "inner_loop cond name2 rows1 rows2 =
     concat_outcome (\<lambda>row1. matching cond (map (combine name2 row1) rows2)) rows1"

definition inner_hash :: "string \<Rightarrow> string \<Rightarrow> string \<Rightarrow> row list \<Rightarrow> row list \<Rightarrow> row list" where
  "inner_hash name2 q1 col2 rows1 rows2 =
     (let by_val = hash_by_column rows2 col2 in
      concat (map (\<lambda>row1. case hash_probe by_val q1 row1 of
                            Some ms \<Rightarrow> map (combine name2 row1) ms
                          | None \<Rightarrow> []) rows1))"

definition left_loop ::
  "(row \<Rightarrow> bool outcome) \<Rightarrow> string \<Rightarrow> row \<Rightarrow> row list \<Rightarrow> row list \<Rightarrow> row list outcome" where
  "left_loop cond name2 pad rows1 rows2 =
     concat_outcome (\<lambda>row1.
       obind (matching cond (map (combine name2 row1) rows2)) (\<lambda>ms.
         Done (if ms = [] then [pad_left row1 pad] else ms))) rows1"

definition left_hash :: "string \<Rightarrow> string \<Rightarrow> string \<Rightarrow> row \<Rightarrow> row list \<Rightarrow> row list \<Rightarrow> row list" where
  "left_hash name2 q1 col2 pad rows1 rows2 =
     (let by_val = hash_by_column rows2 col2 in
      concat (map (\<lambda>row1. case hash_probe by_val q1 row1 of
                            Some ms \<Rightarrow> (if ms = [] then [pad_left row1 pad]
                                        else map (combine name2 row1) ms)
                          | None \<Rightarrow> [pad_left row1 pad]) rows1))"

definition left_cols :: "row list \<Rightarrow> string list" where
  "left_cols rows1 = (case rows1 of [] \<Rightarrow> [] | r # _ \<Rightarrow> map fst r)"

definition right_loop ::
  "(row \<Rightarrow> bool outcome) \<Rightarrow> string \<Rightarrow> row list \<Rightarrow> row list \<Rightarrow> row list outcome" where
  "right_loop cond name2 rows1 rows2 =
     concat_outcome (\<lambda>row2.
       obind (matching cond (map (\<lambda>row1. combine name2 row1 row2) rows1)) (\<lambda>ms.
         Done (if ms = [] then [pad_right (left_cols rows1) name2 row2] else ms))) rows2"

text \<open>Which right rows matched some left row: the vector \<open>matched2\<close>.\<close>

definition matched_right ::
  "(row \<Rightarrow> bool outcome) \<Rightarrow> string \<Rightarrow> row list \<Rightarrow> row \<Rightarrow> bool outcome" where
  "matched_right cond name2 rows1 row2 =
     obind (matching cond (map (\<lambda>row1. combine name2 row1 row2) rows1)) (\<lambda>ms. Done (ms \<noteq> []))"

definition full_loop ::
  "(row \<Rightarrow> bool outcome) \<Rightarrow> string \<Rightarrow> row \<Rightarrow> row list \<Rightarrow> row list \<Rightarrow> row list outcome" where
  "full_loop cond name2 pad rows1 rows2 =
     obind (left_loop cond name2 pad rows1 rows2) (\<lambda>ls.
       obind (ofilter (\<lambda>row2. obind (matched_right cond name2 rows1 row2) (\<lambda>b. Done (\<not> b))) rows2)
         (\<lambda>rest. Done (ls @ map (pad_right (left_cols rows1) name2) rest)))"

definition cross_loop :: "string \<Rightarrow> row list \<Rightarrow> row list \<Rightarrow> row list" where
  "cross_loop name2 rows1 rows2 =
     concat (map (\<lambda>row1. map (combine name2 row1) rows2) rows1)"

definition equi_of :: "bool \<Rightarrow> join_operator \<Rightarrow> string \<Rightarrow> string \<Rightarrow> (string \<times> string) option" where
  "equi_of first_hop op name1 name2 =
     (if first_hop then
        (case op of Inner c \<Rightarrow> extract_equi_join c name1 name2
                  | LeftOuter c \<Rightarrow> extract_equi_join c name1 name2
                  | _ \<Rightarrow> None)
      else None)"

definition join_step ::
  "('x) env_scheme \<Rightarrow> kvs \<Rightarrow> u32 \<Rightarrow> skvs_value list \<Rightarrow> string \<Rightarrow> bool \<Rightarrow> row list \<Rightarrow> join \<Rightarrow> row list outcome" where
  "join_step E s db ps name1 first_hop result j =
     (let (table2, alias2) = table_factor_names E (j_relation j);
          name2 = table_ref_name table2 alias2
      in case get_table_store s db table2 of
           None \<Rightarrow> Fail (ESchema (''Table '' @ table2 @ '' not found''))
         | Some ref \<Rightarrow>
             (let rows2 = map snd (iter_rows E (k_heap s ref));
                  pad = null_padded name2 (get_schema s db table2)
                          (case rows2 of [] \<Rightarrow> None | r # _ \<Rightarrow> Some r);
                  equi = equi_of first_hop (j_operator j) name1 name2;
                  cond = join_condition_matches E s db ps
              in case j_operator j of
                   Inner c \<Rightarrow>
                     (case equi of
                        Some (col1, col2) \<Rightarrow>
                          Done (inner_hash name2 (qualified_name name1 col1) col2 result rows2)
                      | None \<Rightarrow> inner_loop (cond c) name2 result rows2)
                 | LeftOuter c \<Rightarrow>
                     (case equi of
                        Some (col1, col2) \<Rightarrow>
                          Done (left_hash name2 (qualified_name name1 col1) col2 pad result rows2)
                      | None \<Rightarrow> left_loop (cond c) name2 pad result rows2)
                 | RightOuter c \<Rightarrow> right_loop (cond c) name2 result rows2
                 | FullOuter c \<Rightarrow> full_loop (cond c) name2 pad result rows2
                 | CrossJoin \<Rightarrow> Done (cross_loop name2 result rows2)
                 | OtherJoin dbg \<Rightarrow> Fail (EUnsupported (''JOIN type not supported: '' @ dbg))))"

fun join_steps ::
  "('x) env_scheme \<Rightarrow> kvs \<Rightarrow> u32 \<Rightarrow> skvs_value list \<Rightarrow> string \<Rightarrow> bool \<Rightarrow> row list \<Rightarrow> join list \<Rightarrow> row list outcome" where
  "join_steps E s db ps name1 first_hop result [] = Done result"
| "join_steps E s db ps name1 first_hop result (j # js) =
     obind (join_step E s db ps name1 first_hop result j)
       (\<lambda>result'. join_steps E s db ps name1 False result' js)"

definition execute_joins ::
  "('x) env_scheme \<Rightarrow> kvs \<Rightarrow> u32 \<Rightarrow> table_with_joins list \<Rightarrow> skvs_value list \<Rightarrow> row list outcome" where
  "execute_joins E s db from ps =
     (case from of
        [] \<Rightarrow> Done []
      | tj # _ \<Rightarrow>
          (let (table1, alias1) = table_factor_names E (tj_relation tj);
               name1 = table_ref_name table1 alias1
           in case get_table_store s db table1 of
                None \<Rightarrow> Fail (ESchema (''Table '' @ table1 @ '' not found''))
              | Some ref \<Rightarrow>
                  join_steps E s db ps name1 True
                    (map (\<lambda>e. insert_row_qualified [] name1 (snd e)) (iter_rows E (k_heap s ref)))
                    (tj_joins tj)))"

end
