(* ===== verification/Skvs_Hash_Join.thy ===== *)
theory Skvs_Hash_Join
  imports Skvs_Join Skvs_Demo
begin

text \<open>
  The hash join of a first equi-join against the nested loop (\<open>hash_join_is_nested_loop\<close>): the
  rendered key of a value tells values apart exactly when they are not floats, and a combined row
  shows the columns of both sides under their qualified names.
\<close>

section \<open>Reading back what was printed\<close>

lemma char_val_digit: "d < 10 \<Longrightarrow> char_val (digit_char d) = 48 + d"
  by (simp add: char_val_def digit_char_def)

lemma digit_char_facts: "d < 10 \<Longrightarrow> is_digit (digit_char d) \<and> digit_val (digit_char d) = int d"
  by (simp add: is_digit_def digit_val_def char_val_digit)

lemma digits_val_snoc: "digits_val (ds @ [c]) = 10 * digits_val ds + digit_val c"
  by (simp add: digits_val_def)

lemma show_uint_digits:
  "0 \<le> n \<Longrightarrow> show_uint n \<noteq> [] \<and> list_all is_digit (show_uint n) \<and> digits_val (show_uint n) = n"
proof (induction n rule: show_uint.induct)
  case (1 n)
  show ?case
  proof (cases "n < 10")
    case True
    then show ?thesis
      using 1(2) digit_char_facts [of "nat n"] by (simp add: show_uint.simps [of n] digits_val_def)
  next
    case False
    have "0 \<le> n div 10" using 1(2) by simp
    with False 1(1) have IH: "show_uint (n div 10) \<noteq> []" "list_all is_digit (show_uint (n div 10))"
      "digits_val (show_uint (n div 10)) = n div 10" by simp_all
    show ?thesis
      using IH False digit_char_facts [of "nat (n mod 10)"]
      by (simp add: show_uint.simps [of n] digits_val_snoc)
  qed
qed

lemma parse_show_uint: "0 \<le> n \<Longrightarrow> parse_digits (show_uint n) = Some n"
  by (simp add: parse_digits_def show_uint_digits)

lemma digit_not_sign: "is_digit c \<Longrightarrow> c \<noteq> CHR ''-'' \<and> c \<noteq> CHR ''+''"
  by (auto simp: is_digit_def char_val_def)

lemma parse_i64_show: "parse_i64 (show_int (sint i)) = Some i"
proof -
  have b: "- (2 ^ 63) \<le> sint i" "sint i < 2 ^ 63"
    using sint_ge [of i] sint_lt [of i] by simp_all
  show ?thesis
  proof (cases "sint i < 0")
    case True
    then show ?thesis
      using b by (simp add: parse_i64_def show_int_def parse_show_uint)
  next
    case False
    then have d: "show_uint (sint i) \<noteq> [] \<and> list_all is_digit (show_uint (sint i))"
      by (simp add: show_uint_digits)
    then obtain c cs where c: "show_uint (sint i) = c # cs" "is_digit c"
      by (cases "show_uint (sint i)") auto
    have "parse_digits (c # cs) = Some (sint i)" using False parse_show_uint [of "sint i"] c(1) by simp
    then show ?thesis
      using False b c digit_not_sign [OF c(2)] by (simp add: parse_i64_def show_int_def)
  qed
qed

lemma show_int_inj: "show_int (sint (i :: i64)) = show_int (sint j) \<longleftrightarrow> i = j"
proof
  assume "show_int (sint i) = show_int (sint j)"
  then have "parse_i64 (show_int (sint i)) = parse_i64 (show_int (sint j))" by (rule arg_cong)
  then show "i = j" unfolding parse_i64_show by (rule option.inject [THEN iffD1])
qed simp

lemma hex_digit_inj: "a < 16 \<Longrightarrow> b < 16 \<Longrightarrow> hex_digit a = hex_digit b \<longleftrightarrow> a = b"
proof -
  assume "a < 16" "b < 16"
  moreover have "(of_char (hex_digit d) :: nat) = (if d < 10 then 48 + d else 87 + d)" if "d < 16" for d
    using that by (simp add: hex_digit_def)
  ultimately have "(of_char (hex_digit a) :: nat) = of_char (hex_digit b) \<longleftrightarrow> a = b" by auto
  then show ?thesis by (metis of_char_eq_iff)
qed

lemma hex_encode_inj: "hex_encode a = hex_encode b \<longleftrightarrow> a = b"
proof (induction a arbitrary: b)
  case Nil
  show ?case by (cases b) (simp_all add: hex_encode_def)
next
  case (Cons x xs)
  have byte: "unat w < 256" for w :: "8 word" using unsigned_less [where w = w and 'a = nat] by simp
  show ?case
  proof (cases b)
    case (Cons y ys)
    have "unat x div 16 < 16" "unat y div 16 < 16" using byte [of x] byte [of y] by simp_all
    then have "hex_encode (x # xs) = hex_encode b \<longleftrightarrow>
        unat x div 16 = unat y div 16 \<and> unat x mod 16 = unat y mod 16 \<and> hex_encode xs = hex_encode ys"
      by (simp add: Cons hex_encode_def hex_digit_inj)
    also have "\<dots> \<longleftrightarrow> x = y \<and> xs = ys"
      unfolding Cons.IH by (metis div_mult_mod_eq word_unat_eq_iff)
    finally show ?thesis by (simp add: Cons)
  qed (simp add: hex_encode_def)
qed

section \<open>Keys of the hash join\<close>

text \<open>The values whose rendered key tells them apart: everything but floats.\<close>

fun keyed_value :: "skvs_value \<Rightarrow> bool" where
  "keyed_value (VReal f) = False"
| "keyed_value v = True"

lemma key_string_eq:
  assumes "keyed_value v" "keyed_value w"
  shows "value_to_key_string v = value_to_key_string w \<longleftrightarrow> value_eq v w"
  using assms
  by (cases v; cases w) (auto simp: value_to_key_string_def show_int_inj hex_encode_inj)

lemma hash_by_column_bucket:
  "hash_by_column rows2 col2 k =
     (let ms = filter (\<lambda>r. map_option value_to_key_string (map_of r col2) = Some k) rows2
      in if ms = [] then None else Some ms)"
proof -
  have "fold (hash_push col2) rows2 m k =
      (let ms = filter (\<lambda>r. map_option value_to_key_string (map_of r col2) = Some k) rows2
       in if ms = [] then m k else Some ((case m k of Some rs \<Rightarrow> rs | None \<Rightarrow> []) @ ms))" for m
    by (induction rows2 arbitrary: m)
      (auto simp: hash_push_def Let_def split: option.splits)
  then show ?thesis by (simp add: hash_by_column_def Let_def)
qed

text \<open>The rows a probe gives: those whose column equals the left row's.\<close>

lemma hash_probe_rows:
  assumes "map_of row1 q1 = Some v" "keyed_value v"
    and "\<And>r. r \<in> set rows2 \<Longrightarrow> \<exists>w. map_of r col2 = Some w \<and> keyed_value w"
  shows "(case hash_probe (hash_by_column rows2 col2) q1 row1 of Some ms \<Rightarrow> ms | None \<Rightarrow> []) =
      filter (\<lambda>r. value_eq v (lookup_column (Some r) col2)) rows2"
    and "hash_probe (hash_by_column rows2 col2) q1 row1 \<noteq> Some []"
proof -
  have "filter (\<lambda>r. map_option value_to_key_string (map_of r col2) = Some (value_to_key_string v)) rows2 =
      filter (\<lambda>r. value_eq v (lookup_column (Some r) col2)) rows2"
    by (rule filter_cong) (use assms(3) key_string_eq [OF assms(2)] value_eq_sym in
      \<open>fastforce simp: lookup_column_def\<close>)+
  then show "(case hash_probe (hash_by_column rows2 col2) q1 row1 of Some ms \<Rightarrow> ms | None \<Rightarrow> []) =
      filter (\<lambda>r. value_eq v (lookup_column (Some r) col2)) rows2"
    by (simp add: hash_probe_def assms(1) hash_by_column_bucket Let_def)
  show "hash_probe (hash_by_column rows2 col2) q1 row1 \<noteq> Some []"
    by (simp add: hash_probe_def assms(1) hash_by_column_bucket Let_def)
qed

section \<open>Looking a qualified column up in a combined row\<close>

definition dotless :: "string \<Rightarrow> bool" where
  "dotless t \<longleftrightarrow> CHR ''.'' \<notin> set t"

lemma qualified_name_inj:
  "dotless t \<Longrightarrow> dotless t' \<Longrightarrow> qualified_name t k = qualified_name t' k' \<longleftrightarrow> t = t' \<and> k = k'"
  using append_sep_inj [of "CHR ''.''" t t' k k'] by (auto simp: qualified_name_def dotless_def)

lemma insert_row_qualified_other:
  assumes "dotless t" "dotless t'" "t \<noteq> t'" "map_of c (qualified_name t k) = Some v"
  shows "map_of (insert_row_qualified c t' r) (qualified_name t k) = Some v"
  using assms(4) unfolding insert_row_qualified_def
proof (induction r arbitrary: c)
  case (Cons x r)
  obtain k' w where x: "x = (k', w)" by force
  have "qualified_name t k \<noteq> qualified_name t' k'" using assms(1-3) by (simp add: qualified_name_inj)
  then have "map_of (entry_or_insert k' w (AList.update (qualified_name t' k') w c)) (qualified_name t k) = Some v"
    using Cons.prems by (auto simp: map_of_entry_or_insert split: option.split)
  from Cons.IH [OF this] show ?case by (simp add: x)
qed simp

lemma insert_row_qualified_own:
  assumes "wf_alist r" "map_of r k = Some v"
  shows "map_of (insert_row_qualified c t r) (qualified_name t k) = Some v"
  using assms
proof (induction r arbitrary: c rule: rev_induct)
  case (snoc x r)
  obtain k' w where x: "x = (k', w)" by force
  let ?c = "insert_row_qualified c t r"
  have step: "insert_row_qualified c t (r @ [x]) =
      entry_or_insert k' w (AList.update (qualified_name t k') w ?c)"
    by (simp add: insert_row_qualified_def x)
  show ?case
  proof (cases "k = k'")
    case True
    then have "v = w" using snoc.prems(1,2) by (auto simp: x map_add_def map_of_eq_None_iff [THEN iffD2] split: option.splits)
    then show ?thesis unfolding step True by (simp add: map_of_entry_or_insert split: option.split)
  next
    case False
    then have "map_of r k = Some v" "wf_alist r" using snoc.prems by (auto simp: x map_add_def split: option.splits)
    then have "map_of ?c (qualified_name t k) = Some v" using snoc.IH [of c] by auto
    then show ?thesis
      unfolding step using False by (auto simp: map_of_entry_or_insert qualified_name_def split: option.split)
  qed
qed simp

section \<open>The hash join is the nested loop\<close>

lemma equi_sideD:
  "equi_side name1 name2 e = Some (b, c) \<Longrightarrow>
   \<exists>i j. e = CompoundIdentifier [i, j] \<and> id_value j = c \<and> id_value i = (if b then name1 else name2)"
  by (auto simp: equi_side_def split: expr.splits list.splits if_splits)

lemma extract_equi_joinD:
  assumes "extract_equi_join c name1 name2 = Some (c1, c2)"
  obtains i1 i2 j1 j2 where "id_value i1 = name1" "id_value i2 = name2" "id_value j1 = c1"
      "id_value j2 = c2" "name1 \<noteq> name2"
      "c = On (BinaryOp (CompoundIdentifier [i1, j1]) BEq (CompoundIdentifier [i2, j2]))
       \<or> c = On (BinaryOp (CompoundIdentifier [i2, j2]) BEq (CompoundIdentifier [i1, j1]))"
proof -
  have ne: "name1 \<noteq> name2" if "equi_side name1 name2 l = Some (False, k)" for l k
    using that by (auto simp: equi_side_def split: expr.splits list.splits if_splits)
  obtain l r where c: "c = On (BinaryOp l BEq r)"
    and "equi_side name1 name2 l = Some (True, c1) \<and> equi_side name1 name2 r = Some (False, c2) \<or>
         equi_side name1 name2 l = Some (False, c2) \<and> equi_side name1 name2 r = Some (True, c1)"
    using assms
    by (auto simp: extract_equi_join_def split: join_constraint.splits expr.splits binary_operator.splits
        option.splits prod.splits bool.splits)
  then consider (lr) "equi_side name1 name2 l = Some (True, c1)" "equi_side name1 name2 r = Some (False, c2)"
    | (rl) "equi_side name1 name2 l = Some (False, c2)" "equi_side name1 name2 r = Some (True, c1)"
    by blast
  then show thesis
  proof cases
    case lr
    then show ?thesis using equi_sideD [OF lr(1)] equi_sideD [OF lr(2)] ne [OF lr(2)] that c by auto
  next
    case rl
    then show ?thesis using equi_sideD [OF rl(1)] equi_sideD [OF rl(2)] ne [OF rl(1)] that c by auto
  qed
qed

lemma join_on_equality:
  assumes "extract_equi_join c name1 name2 = Some (c1, c2)"
    and "map_of combined (qualified_name name1 c1) = Some v"
    and "map_of combined (qualified_name name2 c2) = Some w"
  shows "join_condition_matches E s db ps c combined = Done (value_eq v w)"
  using assms(1)
proof (rule extract_equi_joinD)
  fix i1 i2 j1 j2
  assume i: "id_value i1 = name1" "id_value i2 = name2" "id_value j1 = c1" "id_value j2 = c2" "name1 \<noteq> name2"
    "c = On (BinaryOp (CompoundIdentifier [i1, j1]) BEq (CompoundIdentifier [i2, j2]))
     \<or> c = On (BinaryOp (CompoundIdentifier [i2, j2]) BEq (CompoundIdentifier [i1, j1]))"
  have "lookup_compound (Some combined) [i1, j1] = v" "lookup_compound (Some combined) [i2, j2] = w"
    using assms(2,3) i by (simp_all add: lookup_compound_def qualified_name_def)
  then show ?thesis
    using i(6) value_eq_sym [of v w]
    by (auto simp: join_condition_matches_def binary_value_def bool_val_def)
qed

text \<open>Rows a hash join by \<open>col1\<close> and \<open>col2\<close> can be trusted with.\<close>

definition hashable_rows :: "string \<Rightarrow> row list \<Rightarrow> bool" where
  "hashable_rows col rows \<longleftrightarrow>
     (\<forall>r\<in>set rows. wf_alist r \<and> (\<exists>v. map_of r col = Some v \<and> keyed_value v))"

lemma probe_is_matching:
  assumes "extract_equi_join c name1 name2 = Some (c1, c2)" "dotless name1" "dotless name2"
    and rows2: "hashable_rows c2 rows2"
    and row1: "map_of row1 (qualified_name name1 c1) = Some v" "keyed_value v"
  shows "matching (join_condition_matches E s db ps c) (map (combine name2 row1) rows2) =
      Done (map (combine name2 row1)
        (case hash_probe (hash_by_column rows2 c2) (qualified_name name1 c1) row1 of
           Some ms \<Rightarrow> ms | None \<Rightarrow> []))"
proof -
  have ne: "name1 \<noteq> name2" using assms(1) by (rule extract_equi_joinD)
  have cond: "join_condition_matches E s db ps c (combine name2 row1 r) =
      Done (value_eq v (lookup_column (Some r) c2))" if r: "r \<in> set rows2" for r
  proof -
    obtain w where w: "wf_alist r" "map_of r c2 = Some w" using rows2 r by (auto simp: hashable_rows_def)
    have "map_of (combine name2 row1 r) (qualified_name name1 c1) = Some v"
      unfolding combine_def by (rule insert_row_qualified_other [OF assms(2,3) ne row1(1)])
    moreover have "map_of (combine name2 row1 r) (qualified_name name2 c2) = Some w"
      unfolding combine_def by (rule insert_row_qualified_own [OF w])
    ultimately show ?thesis
      using join_on_equality [OF assms(1)] w by (simp add: lookup_column_def)
  qed
  have "matching (join_condition_matches E s db ps c) (map (combine name2 row1) rows2) =
      Done (map (combine name2 row1) (filter (\<lambda>r. value_eq v (lookup_column (Some r) c2)) rows2))"
    unfolding matching_def using cond by (induction rows2) auto
  also have "filter (\<lambda>r. value_eq v (lookup_column (Some r) c2)) rows2 =
      (case hash_probe (hash_by_column rows2 c2) (qualified_name name1 c1) row1 of Some ms \<Rightarrow> ms | None \<Rightarrow> [])"
    by (rule hash_probe_rows(1) [OF row1, symmetric]) (use rows2 in \<open>simp add: hashable_rows_def del: map_of_eq_Some_iff\<close>)
  finally show ?thesis .
qed

lemma concat_outcome_Done:
  "(\<And>x. x \<in> set xs \<Longrightarrow> f x = Done (g x)) \<Longrightarrow> concat_outcome f xs = Done (concat (map g xs))"
  by (simp add: concat_outcome_def omap_Done)

lemma inner_hash_loop:
  assumes "extract_equi_join c name1 name2 = Some (c1, c2)" "dotless name1" "dotless name2"
    and "hashable_rows c2 rows2" "hashable_rows (qualified_name name1 c1) rows1"
  shows "inner_loop (join_condition_matches E s db ps c) name2 rows1 rows2 =
      Done (inner_hash name2 (qualified_name name1 c1) c2 rows1 rows2)"
  unfolding inner_loop_def inner_hash_def Let_def
proof (rule concat_outcome_Done)
  fix row1 assume "row1 \<in> set rows1"
  then obtain v where v: "map_of row1 (qualified_name name1 c1) = Some v" "keyed_value v"
    using assms(5) by (auto simp: hashable_rows_def)
  show "matching (join_condition_matches E s db ps c) (map (combine name2 row1) rows2) =
      Done (case hash_probe (hash_by_column rows2 c2) (qualified_name name1 c1) row1 of
              Some ms \<Rightarrow> map (combine name2 row1) ms | None \<Rightarrow> [])"
    using probe_is_matching [OF assms(1-4) v, of E s db ps] by (simp split: option.splits)
qed

lemma left_hash_loop:
  assumes "extract_equi_join c name1 name2 = Some (c1, c2)" "dotless name1" "dotless name2"
    and "hashable_rows c2 rows2" "hashable_rows (qualified_name name1 c1) rows1"
  shows "left_loop (join_condition_matches E s db ps c) name2 pad rows1 rows2 =
      Done (left_hash name2 (qualified_name name1 c1) c2 pad rows1 rows2)"
  unfolding left_loop_def left_hash_def Let_def
proof (rule concat_outcome_Done)
  fix row1 assume "row1 \<in> set rows1"
  then obtain v where v: "map_of row1 (qualified_name name1 c1) = Some v" "keyed_value v"
    using assms(5) by (auto simp: hashable_rows_def)
  show "obind (matching (join_condition_matches E s db ps c) (map (combine name2 row1) rows2))
        (\<lambda>ms. Done (if ms = [] then [pad_left row1 pad] else ms)) =
      Done (case hash_probe (hash_by_column rows2 c2) (qualified_name name1 c1) row1 of
              Some ms \<Rightarrow> if ms = [] then [pad_left row1 pad] else map (combine name2 row1) ms
            | None \<Rightarrow> [pad_left row1 pad])"
    using probe_is_matching [OF assms(1-4) v, of E s db ps] by (simp split: option.splits)
qed

text \<open>C6. The hash join of a first equi-join gives exactly the rows, in the same order, that the nested
  loop of a later join over the same condition gives, for INNER and LEFT joins of an existing table,
  when the join columns are present in every row and hold no floats and the two tables' names have no
  dot.\<close>

theorem hash_join_is_nested_loop:
  assumes "j_operator j = Inner c \<or> j_operator j = LeftOuter c"
    and "table_factor_names E (j_relation j) = (table2, alias2)" "table_ref_name table2 alias2 = name2"
    and "extract_equi_join c name1 name2 = Some (c1, c2)" "dotless name1" "dotless name2"
    and "get_table_store s db table2 = Some ref"
    and "hashable_rows c2 (map snd (iter_rows E (k_heap s ref)))"
    and "hashable_rows (qualified_name name1 c1) rows1"
  shows "join_step E s db ps name1 True rows1 j = join_step E s db ps name1 False rows1 j"
  using assms(1)
proof
  assume op: "j_operator j = Inner c"
  show ?thesis
    using inner_hash_loop [OF assms(4-6,8,9), of E s db ps] assms(2-4,7)
    by (simp add: join_step_def op equi_of_def)
next
  assume op: "j_operator j = LeftOuter c"
  show ?thesis
    using left_hash_loop [OF assms(4-6,8,9), of E s db ps] assms(2-4,7)
    by (simp add: join_step_def op equi_of_def)
qed

text \<open>\<open>t JOIN t AS u ON u.a = t.a\<close>\<close>

definition self_join :: join where
  "self_join = \<lparr>j_relation = TableFactor [nm ''t''] (Some (nm ''u'')),
     j_operator = Inner (On (BinaryOp (CompoundIdentifier [nm ''u'', nm ''a'']) BEq
                                      (CompoundIdentifier [nm ''t'', nm ''a''])))\<rparr>"

definition qualified_rows :: "rows \<Rightarrow> row list" where
  "qualified_rows rs = map (\<lambda>e. insert_row_qualified [] ''t'' (snd e)) rs"

definition int_rows :: rows where
  "int_rows = [(1, [(''a'', VInteger 1)]), (2, [(''a'', VNull)]), (3, [(''a'', VInteger 1)])]"

theorem hash_join_is_nested_loop_witness:
  "join_step plain_env (demo_state False [] 4 int_rows) 0 [] ''t'' True (qualified_rows int_rows) self_join =
   join_step plain_env (demo_state False [] 4 int_rows) 0 [] ''t'' False (qualified_rows int_rows) self_join"
proof (rule hash_join_is_nested_loop [where
      c = "On (BinaryOp (CompoundIdentifier [nm ''u'', nm ''a'']) BEq (CompoundIdentifier [nm ''t'', nm ''a'']))"
      and ?table2.0 = "''t''" and ?alias2.0 = "Some ''u''" and ?name2.0 = "''u''" and ?c1.0 = "''a''" and ?c2.0 = "''a''" and ref = 0])
  show "hashable_rows ''a'' (map snd (iter_rows plain_env (k_heap (demo_state False [] 4 int_rows) 0)))"
    by (simp add: hashable_rows_def int_rows_def)
  show "hashable_rows (qualified_name ''t'' ''a'') (qualified_rows int_rows)"
    by (simp add: hashable_rows_def qualified_rows_def int_rows_def insert_row_qualified_def
        qualified_name_def entry_or_insert_def)
qed (simp_all add: self_join_def table_factor_names_def table_ref_name_def extract_equi_join_def equi_side_def
    dotless_def)

definition zero_rows :: rows where
  "zero_rows = [(1, [(''a'', VReal (FFin 0))]), (2, [(''a'', VReal FNegZero)])]"

text \<open>The hash join is not the nested loop on floats: over the rows 0.0 and -0.0 the self join
  on equality has two rows by hash keys and four by comparison.\<close>

theorem hash_join_splits_zeros:
  "omap (\<lambda>first_hop. obind (join_step plain_env (demo_state False [] 3 zero_rows) 0 [] ''t'' first_hop
           (qualified_rows zero_rows) self_join) (\<lambda>rs. Done (length rs))) [True, False] = Done [2, 4]"
  by code_simp

end
