(* ===== verification/Skvs_Fetch.thy ===== *)
theory Skvs_Fetch
  imports Skvs_Where Skvs_Index
begin

text \<open>
  Fetching the candidate rows of a single-table query (\<open>rows_for_simple_where\<close>,
  \<open>simple_equality\<close>, \<open>simple_range\<close> of \<^verbatim>\<open>src/src/sql/select.rs\<close>): through a secondary index
  for one comparison of a column with a constant, by a full scan otherwise.
  That both ways select the same rows, and when they do not, is in \<open>Skvs_Paths\<close>.
\<close>

definition tag_rowid :: "rowid \<times> row \<Rightarrow> row" where
  "tag_rowid entry = AList.update ''_rowid_'' (VInteger (fst entry)) (snd entry)"

fun is_column_ref :: "expr \<Rightarrow> bool" where
  "is_column_ref (Identifier i) = True"
| "is_column_ref (CompoundIdentifier ps) = True"
| "is_column_ref _ = False"

fun ident_of :: "expr \<Rightarrow> string option" where
  "ident_of (Identifier i) = Some (id_value i)"
| "ident_of _ = None"

text \<open>A column on one side and something else on the other; the flag says they are flipped.\<close>

definition column_side :: "expr \<Rightarrow> expr \<Rightarrow> (string \<times> expr \<times> bool) option" where
  "column_side left right =
     (case (ident_of left, is_column_ref right) of
        (Some col, False) \<Rightarrow> Some (col, right, False)
      | _ \<Rightarrow> (case (ident_of right, is_column_ref left) of
                (Some col, False) \<Rightarrow> Some (col, left, True)
              | _ \<Rightarrow> None))"

definition const_value :: "('x) env_scheme \<Rightarrow> skvs_value list \<Rightarrow> expr \<Rightarrow> skvs_value outcome" where
  "const_value E ps e = obind (eval E None ps e 0) (\<lambda>(v, _). Done v)"

fun simple_equality ::
  "('x) env_scheme \<Rightarrow> skvs_value list \<Rightarrow> expr \<Rightarrow> (string \<times> skvs_value) option outcome" where
  "simple_equality E ps (BinaryOp left BEq right) =
     (case column_side left right of
        Some (col, other, _) \<Rightarrow> obind (const_value E ps other) (\<lambda>v. Done (Some (col, v)))
      | None \<Rightarrow> Done None)"
| "simple_equality E ps _ = Done None"

fun flip_op :: "binary_operator \<Rightarrow> binary_operator" where
  "flip_op BLt = BGt"
| "flip_op BLtEq = BGtEq"
| "flip_op BGt = BLt"
| "flip_op BGtEq = BLtEq"
| "flip_op op = op"

fun op_bounds :: "binary_operator \<Rightarrow> skvs_value \<Rightarrow> (skvs_value bound \<times> skvs_value bound) option" where
  "op_bounds BGt v = Some (Excluded v, Unbounded)"
| "op_bounds BGtEq v = Some (Included v, Unbounded)"
| "op_bounds BLt v = Some (Unbounded, Excluded v)"
| "op_bounds BLtEq v = Some (Unbounded, Included v)"
| "op_bounds _ v = None"

fun simple_range ::
  "('x) env_scheme \<Rightarrow> skvs_value list \<Rightarrow> expr \<Rightarrow> (string \<times> skvs_value bound \<times> skvs_value bound) option outcome" where
  "simple_range E ps (BinaryOp left op right) =
     (case column_side left right of
        Some (col, other, flipped) \<Rightarrow>
          obind (const_value E ps other) (\<lambda>v.
            Done (map_option (\<lambda>(lo, hi). (col, lo, hi))
                    (op_bounds (if flipped then flip_op op else op) v)))
      | None \<Rightarrow> Done None)"
| "simple_range E ps (Between inner negated low high) =
     (if negated then Done None
      else case ident_of inner of
        Some col \<Rightarrow>
          obind (const_value E ps low) (\<lambda>lo.
            obind (const_value E ps high) (\<lambda>hi. Done (Some (col, Included lo, Included hi))))
      | None \<Rightarrow> Done None)"
| "simple_range E ps _ = Done None"

text \<open>The first single-column index on a column.\<close>

definition column_index :: "kvs \<Rightarrow> u32 \<Rightarrow> string \<Rightarrow> string \<Rightarrow> index_def option" where
  "column_index s db table col =
     (case get_schema s db table of
        Some schema \<Rightarrow> List.find (\<lambda>i. idx_columns i = [col]) (ts_indices schema)
      | None \<Rightarrow> None)"

definition table_not_found :: "string \<Rightarrow> skvs_error" where
  "table_not_found table = ESchema (''Table '' @ table @ '' not found'')"

definition rows_from_ids :: "kvs \<Rightarrow> u32 \<Rightarrow> string \<Rightarrow> rowid list \<Rightarrow> row list outcome" where
  "rows_from_ids s db table ids =
     (case get_table_store s db table of
        None \<Rightarrow> Fail (table_not_found table)
      | Some ref \<Rightarrow>
          Done (List.map_filter
            (\<lambda>rid. map_option (\<lambda>r. tag_rowid (rid, r)) (store_get s ref rid)) ids))"

definition scan_rows :: "('x) env_scheme \<Rightarrow> kvs \<Rightarrow> u32 \<Rightarrow> string \<Rightarrow> row list outcome" where
  "scan_rows E s db table =
     (case get_table_store s db table of
        None \<Rightarrow> Fail (table_not_found table)
      | Some ref \<Rightarrow> Done (map tag_rowid (iter_rows E (k_heap s ref))))"

text \<open>The range attempt, made when there was no index for an equality.\<close>

definition fetch_range ::
  "('x) env_scheme \<Rightarrow> kvs \<Rightarrow> u32 \<Rightarrow> string \<Rightarrow> skvs_value list \<Rightarrow> expr \<Rightarrow> row list outcome" where
  "fetch_range E s db table ps e =
     obind (simple_range E ps e) (\<lambda>rng.
       case rng of
         None \<Rightarrow> scan_rows E s db table
       | Some (col, lower, upper) \<Rightarrow>
           (case column_index s db table col of
              Some idx \<Rightarrow>
                obind (range_lookup s db table (idx_name idx) lower upper)
                  (\<lambda>ids. rows_from_ids s db table ids)
            | None \<Rightarrow> scan_rows E s db table))"

definition rows_for_simple_where ::
  "('x) env_scheme \<Rightarrow> kvs \<Rightarrow> u32 \<Rightarrow> string \<Rightarrow> expr option \<Rightarrow> skvs_value list \<Rightarrow> row list outcome" where
  "rows_for_simple_where E s db table selection ps =
     (case selection of
        None \<Rightarrow> scan_rows E s db table
      | Some e \<Rightarrow>
          obind (simple_equality E ps e) (\<lambda>eq.
            case eq of
              Some (col, v) \<Rightarrow>
                (case column_index s db table col of
                   Some idx \<Rightarrow> rows_from_ids s db table (lookup_index s db table (idx_name idx) v)
                 | None \<Rightarrow> fetch_range E s db table ps e)
            | None \<Rightarrow> fetch_range E s db table ps e))"

end
