(* ===== verification/Skvs_Select.thy ===== *)
theory Skvs_Select
  imports Skvs_Fetch Skvs_Join Skvs_Aggregate
begin

text \<open>
  \<open>execute_select\<close> of \<^verbatim>\<open>src/src/sql/select.rs\<close>. A view in FROM runs its stored query; the
  program recurses there without a bound, so the number of nested views is the fuel \<open>n\<close>
  (\<open>NoFuel\<close> when it runs out). \<open>Skvs_Returns\<close> shows how much is enough and that more fuel changes
  no answer (\<open>execute_select_mono\<close>).
\<close>

record query_result =
  qr_columns :: "string list"
  qr_rows :: "row list"
  qr_affected :: "u64 option"
  qr_tx_id :: "u32 option"

definition qr_empty :: query_result where
  "qr_empty = \<lparr>qr_columns = [], qr_rows = [], qr_affected = None, qr_tx_id = None\<rparr>"

definition qr_affected_rows :: "u64 \<Rightarrow> query_result" where
  "qr_affected_rows n = \<lparr>qr_columns = [], qr_rows = [], qr_affected = Some n, qr_tx_id = None\<rparr>"

definition qr_of_rows :: "row list \<Rightarrow> string list \<Rightarrow> query_result" where
  "qr_of_rows rows columns = \<lparr>qr_columns = columns, qr_rows = rows, qr_affected = None, qr_tx_id = None\<rparr>"

definition qr_began :: "u32 \<Rightarrow> query_result" where
  "qr_began tx_id = \<lparr>qr_columns = [], qr_rows = [], qr_affected = None, qr_tx_id = Some tx_id\<rparr>"

definition resolve_from ::
  "('x) env_scheme \<Rightarrow> kvs \<Rightarrow> u32 \<Rightarrow> table_factor \<Rightarrow> string \<times> string option" where
  "resolve_from E s db relation =
     (let table = fst (table_factor_names E relation)
      in (table, get_view_definition s db table))"

definition filter_where ::
  "('x) env_scheme \<Rightarrow> kvs \<Rightarrow> u32 \<Rightarrow> skvs_value list \<Rightarrow> expr option \<Rightarrow> row list \<Rightarrow> row list outcome" where
  "filter_where E s db ps selection rows =
     (case selection of
        Some _ \<Rightarrow> ofilter (where_passes E s db ps selection 0) rows
      | None \<Rightarrow> Done rows)"

text \<open>What both kinds of FROM do with their filtered rows: group, order, limit, project.\<close>

definition shape_rows ::
  "('x) env_scheme \<Rightarrow> skvs_value list \<Rightarrow> query \<Rightarrow> select_stmt \<Rightarrow> row list \<Rightarrow> row list outcome" where
  "shape_rows E ps q sel rows =
     obind (apply_group_by E rows (sel_group_by sel) (sel_projection sel)) (\<lambda>rows.
       obind (if q_order_by q \<noteq> [] then apply_order_by E rows (q_order_by q) else Done rows) (\<lambda>rows.
         (let rows = (case q_limit q of
                        Some l \<Rightarrow> apply_limit rows l (q_offset q) | None \<Rightarrow> rows)
          in if is_grouped (sel_group_by sel) then Done rows
             else apply_projection E rows (sel_projection sel) ps)))"

text \<open>DISTINCT, the removal of the internal row id, and the column names.\<close>

definition finish_rows ::
  "('x) env_scheme \<Rightarrow> select_stmt \<Rightarrow> table_schema option \<Rightarrow> row list \<Rightarrow> query_result" where
  "finish_rows E sel schema rows =
     (let rows = (if sel_distinct sel then distinct_rows rows else rows);
          rows = map (AList.delete ''_rowid_'') rows;
          columns = (if has_wildcard (sel_projection sel)
                     then (case rows of
                             r # _ \<Rightarrow> map fst r
                           | [] \<Rightarrow> (case schema of
                                     Some sch \<Rightarrow> map fst (ts_columns sch)
                                   | None \<Rightarrow> [''*'']))
                     else get_projection_columns E (sel_projection sel))
      in qr_of_rows rows columns)"

definition parse_view :: "('x) env_scheme \<Rightarrow> string \<Rightarrow> query outcome" where
  "parse_view E view_sql =
     (case parse_sql E view_sql of
        Inl e \<Rightarrow> Fail (ESqlParse e)
      | Inr (SQuery q # _) \<Rightarrow> Done q
      | Inr _ \<Rightarrow> Fail (EView ''View definition must be a SELECT''))"

fun execute_select ::
  "('x) env_scheme \<Rightarrow> nat \<Rightarrow> kvs \<Rightarrow> u32 \<Rightarrow> query \<Rightarrow> skvs_value list \<Rightarrow> query_result outcome" where
  "execute_select E 0 s db q ps = NoFuel"
| "execute_select E (Suc n) s db q ps =
     (case q_body q of
        SelectBody sel \<Rightarrow>
          (case sel_from sel of
             [] \<Rightarrow> Done (finish_rows E sel None [])
           | tj # others \<Rightarrow>
               (if others = [] \<and> tj_joins tj = [] then
                  (let (table, view_query) = resolve_from E s db (tj_relation tj) in
                   case view_query of
                     Some view_sql \<Rightarrow>
                       obind (parse_view E view_sql) (\<lambda>vq.
                         obind (execute_select E n s db vq ps) (\<lambda>inner.
                           obind (filter_where E s db ps (sel_selection sel) (qr_rows inner)) (\<lambda>rows.
                             obind (shape_rows E ps q sel rows) (\<lambda>rows.
                               Done (finish_rows E sel None rows)))))
                   | None \<Rightarrow>
                       obind (rows_for_simple_where E s db table (sel_selection sel) ps) (\<lambda>rows.
                         obind (filter_where E s db ps (sel_selection sel) rows) (\<lambda>rows.
                           obind (shape_rows E ps q sel rows) (\<lambda>rows.
                             Done (finish_rows E sel (get_schema s db table) rows)))))
                else
                  obind (execute_joins E s db (sel_from sel) ps) (\<lambda>rows.
                    obind (filter_where E s db ps (sel_selection sel) rows) (\<lambda>rows.
                      obind (shape_rows E ps q sel rows) (\<lambda>rows.
                        Done (finish_rows E sel None rows))))))
      | _ \<Rightarrow> Fail (EUnsupported ''Only simple SELECT statements are supported''))"

end
