(* ===== verification/Skvs_Groups.thy ===== *)
theory Skvs_Groups
  imports Skvs_Order Skvs_Hash_Join Skvs_Select
begin

text \<open>
  GROUP BY and the aggregates against reference definitions. Groups are told apart by the rendering
  of their keys, which is faithful for all values but reals (\<open>value_debug_inj\<close>, \<open>group_key_inj\<close>);
  then the groups are those of the key values, in the order of their first rows. \<open>MAX\<close>, \<open>MIN\<close>, \<open>COUNT\<close>
  and \<open>SUM\<close> of a group mean what they say, within the stated bounds.
\<close>

lemma append_Cons_eq_split:
  "xs @ c # us = ys @ c # vs \<Longrightarrow> c \<notin> set xs \<Longrightarrow> c \<notin> set ys \<Longrightarrow> xs = ys \<and> us = vs"
  by (induction xs arbitrary: ys) (auto simp: Cons_eq_append_conv append_eq_Cons_conv)

section \<open>Debug renderings tell values apart\<close>

lemma char_val_inj: "char_val c = char_val d \<longleftrightarrow> c = d"
  by (simp add: char_val_def)

lemma char_val_less: "char_val c < 256"
  using of_char_mod_256 [of c] by (metis char_val_def mod_less_divisor zero_less_numeral)

lemma char_val_hex: "d < 16 \<Longrightarrow> char_val (hex_digit d) = (if d < 10 then 48 + d else 87 + d)"
  by (simp add: hex_digit_def char_val_def)

text \<open>The hexadecimal escapes, and the characters that need one.\<close>

definition hex_escape :: "nat \<Rightarrow> string" where
  "hex_escape n = (if n < 16 then [hex_digit n] else [hex_digit (n div 16), hex_digit (n mod 16)]) @ ''}''"

lemma hex_digit_brace: "d < 16 \<Longrightarrow> hex_digit d \<noteq> CHR ''}''"
  by (auto simp: char_val_inj [symmetric] char_val_hex char_val_def [of "CHR ''}''"])

lemma hex_escape_inj:
  assumes "m < 256" "n < 256" "hex_escape m @ x = hex_escape n @ y"
  shows "m = n \<and> x = y"
proof -
  have d: "m div 16 < 16" "n div 16 < 16" using assms(1,2) by auto
  have e: "hex_digit a \<noteq> CHR ''}''" "CHR ''}'' \<noteq> hex_digit a" if "a < 16" for a
    using hex_digit_brace [OF that] by auto
  show ?thesis
    using assms(3) d e [of "m mod 16"] e [of "n mod 16"]
    by (auto simp: hex_escape_def hex_digit_inj split: if_splits) (metis div_mult_mod_eq)
qed

datatype escaped = Plain char | Short char | Hex nat

fun escape_text :: "escaped \<Rightarrow> string" where
  "escape_text (Plain c) = [c]"
| "escape_text (Short c) = [CHR 0x5C, c]"
| "escape_text (Hex n) = CHR 0x5C # CHR ''u'' # CHR ''{'' # hex_escape n"

fun escape_ok :: "escaped \<Rightarrow> bool" where
  "escape_ok (Plain c) \<longleftrightarrow> c \<noteq> CHR 0x5C \<and> c \<noteq> CHR 0x22 \<and> 32 \<le> char_val c"
| "escape_ok (Short c) \<longleftrightarrow> c \<noteq> CHR ''u'' \<and> 32 \<le> char_val c"
| "escape_ok (Hex n) \<longleftrightarrow> n < 256"

definition escape_of :: "char \<Rightarrow> escaped" where
  "escape_of c =
     (if c = CHR 0x00 then Short (CHR ''0'') else if c = CHR 0x09 then Short (CHR ''t'')
      else if c = CHR 0x0D then Short (CHR ''r'') else if c = CHR 0x0A then Short (CHR ''n'')
      else if c = CHR 0x22 \<or> c = CHR 0x5C then Short c
      else if 32 \<le> char_val c \<and> char_val c \<le> 126 then Plain c else Hex (char_val c))"

lemma escape_char_of: "escape_char c = escape_text (escape_of c)"
  by (simp add: escape_char_def escape_of_def hex_escape_def)

lemma escape_of_ok: "escape_ok (escape_of c)"
  using char_val_less [of c] by (auto simp: escape_of_def char_val_def)

lemma escape_of_inj: "escape_of c = escape_of d \<Longrightarrow> c = d"
  by (auto simp: escape_of_def char_val_inj split: if_splits)

lemma escape_text_inj:
  "escape_ok a \<Longrightarrow> escape_ok b \<Longrightarrow> escape_text a @ x = escape_text b @ y \<Longrightarrow> a = b \<and> x = y"
  by (cases a; cases b) (auto dest: hex_escape_inj)

lemma escape_char_inj: "escape_char c @ x = escape_char d @ y \<Longrightarrow> c = d \<and> x = y"
  using escape_text_inj [OF escape_of_ok escape_of_ok] escape_of_inj unfolding escape_char_of by blast

lemma escape_char_head: "escape_char c \<noteq> [] \<and> hd (escape_char c) \<noteq> CHR 0x22 \<and> hd (escape_char c) \<noteq> CHR 0x01"
  using escape_of_ok [of c] unfolding escape_char_of by (cases "escape_of c") (auto simp: char_val_def)

lemma escape_char_not_quote: "escape_char c @ x \<noteq> CHR 0x22 # y" "CHR 0x22 # y \<noteq> escape_char c @ x"
  using escape_char_head [of c] by (cases "escape_char c"; auto)+

lemma escape_chars_inj:
  "concat (map escape_char s) @ CHR 0x22 # x = concat (map escape_char t) @ CHR 0x22 # y \<Longrightarrow> s = t"
proof (induction s arbitrary: t)
  case Nil
  then show ?case using escape_char_not_quote by (cases t) auto
next
  case (Cons c s)
  then show ?case
  proof (cases t)
    case Nil
    then show ?thesis using Cons.prems escape_char_not_quote by simp
  next
    case (Cons d t')
    then have "c = d \<and> concat (map escape_char s) @ CHR 0x22 # x = concat (map escape_char t') @ CHR 0x22 # y"
      using Cons.prems by (intro escape_char_inj) simp
    then show ?thesis using Cons.IH Cons by auto
  qed
qed

text \<open>The values whose rendering is known to be faithful: all but the reals.\<close>

fun exactly_rendered :: "skvs_value \<Rightarrow> bool" where
  "exactly_rendered (VReal f) = False"
| "exactly_rendered v = True"

lemma join_inj:
  assumes "\<forall>x\<in>set xs. c \<notin> set x" "\<forall>y\<in>set ys. c \<notin> set y" "xs \<noteq> []" "ys \<noteq> []" "join (c # cs) xs = join (c # cs) ys"
  shows "xs = ys"
  using assms
proof (induction xs arbitrary: ys rule: induct_list012)
  case (2 x)
  then show ?case by (cases ys; cases "tl ys") auto
next
  case (3 x x' xs)
  obtain y ys' where ys: "ys = y # ys'" using 3(6) by (cases ys) auto
  then have "ys' \<noteq> []" using 3(3,4,7) by (cases ys') auto
  then obtain y' ys'' where ys': "ys = y # y' # ys''" using ys by (cases ys') auto
  have "x @ c # cs @ join (c # cs) (x' # xs) = y @ c # cs @ join (c # cs) (y' # ys'')"
    using 3(7) ys' by simp
  then have "x = y \<and> cs @ join (c # cs) (x' # xs) = cs @ join (c # cs) (y' # ys'')"
    using 3(3,4) ys' by (intro append_Cons_eq_split) auto
  then show ?case using 3(2) [of "y' # ys''"] 3(3,4) ys' by auto
qed auto

lemma digits_no: "0 \<le> n \<Longrightarrow> c \<in> set (show_uint n) \<Longrightarrow> is_digit c"
  using show_uint_digits [of n] by (auto simp: list_all_iff)

lemma blob_digits: "x \<in> set (map (\<lambda>w. show_uint (uint w)) (b :: bytes)) \<Longrightarrow> x \<noteq> [] \<and> (\<forall>c\<in>set x. is_digit c)"
  using show_uint_digits digits_no by auto

lemma not_digits [simp]: "\<not> is_digit (CHR '','')" "\<not> is_digit (CHR 0x01)" "\<not> is_digit (CHR ''-'')"
  by (simp_all add: is_digit_def char_val_def)

lemma join_nonempty: "\<forall>x\<in>set xs. x \<noteq> [] \<Longrightarrow> join sep xs = [] \<longleftrightarrow> xs = []"
  by (cases "(sep, xs)" rule: Skvs_Prelude.join.cases) auto

lemma show_uint_eq: "0 \<le> m \<Longrightarrow> 0 \<le> n \<Longrightarrow> show_uint m = show_uint n \<longleftrightarrow> m = n"
  by (metis show_uint_digits)

lemma blob_inj:
  assumes "join '', '' (map (\<lambda>w. show_uint (uint w)) a) = join '', '' (map (\<lambda>w. show_uint (uint w)) (b :: bytes))"
  shows "a = b"
proof -
  let ?f = "\<lambda>w :: 8 word. show_uint (uint w)"
  have free: "\<forall>x\<in>set (map ?f a). CHR '','' \<notin> set x" "\<forall>x\<in>set (map ?f b). CHR '','' \<notin> set x"
    using blob_digits not_digits(1) by blast+
  have ne: "join '', '' (map ?f a) = [] \<longleftrightarrow> a = []" "join '', '' (map ?f b) = [] \<longleftrightarrow> b = []"
    using join_nonempty [of "map ?f a"] join_nonempty [of "map ?f b"] blob_digits by blast+
  have "map ?f a = map ?f b"
    using join_inj [OF free _ _ assms] ne assms by (cases "a = []"; cases "b = []") auto
  then show ?thesis by (rule map_injective) (auto simp: inj_def show_uint_eq word_uint_eq_iff)
qed

lemma value_debug_inj:
  assumes "exactly_rendered v" "exactly_rendered w" "value_debug v = value_debug w"
  shows "v = w"
proof (cases v)
  case (VText s)
  then obtain t where t: "w = VText t" using assms by (cases w) auto
  have "concat (map escape_char s) @ CHR 0x22 # '')'' = concat (map escape_char t) @ CHR 0x22 # '')''"
    using assms(3) VText t by (simp add: debug_str_def)
  then have "s = t" by (rule escape_chars_inj)
  then show ?thesis using VText t by simp
next
  case (VBlob b)
  then obtain c where c: "w = VBlob c" using assms by (cases w) auto
  have "b = c" using assms(3) VBlob c by (intro blob_inj) simp
  then show ?thesis using VBlob c by simp
next
  case (VInteger i)
  then obtain j where j: "w = VInteger j" using assms by (cases w) auto
  then show ?thesis using assms(3) VInteger show_int_inj by simp
qed (use assms in \<open>cases w; simp\<close>)+

lemma hex_digit_no_sep: "d < 16 \<Longrightarrow> hex_digit d \<noteq> CHR 0x01"
  using char_val_hex [of d] by (auto simp: char_val_def split: if_splits)

lemma hex_escape_no_sep: "n < 256 \<Longrightarrow> CHR 0x01 \<notin> set (hex_escape n)"
  using hex_digit_no_sep [of n] hex_digit_no_sep [of "n div 16"] hex_digit_no_sep [of "n mod 16"]
    less_mult_imp_div_less [of n 16 16]
  by (auto simp: hex_escape_def)

lemma escape_no_sep: "CHR 0x01 \<notin> set (escape_char c)"
proof -
  have "CHR 0x01 \<notin> set (escape_text e)" if "escape_ok e" for e
    using that hex_escape_no_sep by (cases e) (auto simp: char_val_def)
  then show ?thesis unfolding escape_char_of using escape_of_ok by blast
qed

lemma join_no: "c \<notin> set sep \<Longrightarrow> \<forall>x\<in>set xs. c \<notin> set x \<Longrightarrow> c \<notin> set (join sep xs)"
  by (induction sep xs rule: Skvs_Prelude.join.induct) auto

lemma show_int_no_sep: "CHR 0x01 \<notin> set (show_int i)"
  using digits_no [of i "CHR 0x01"] digits_no [of "- i" "CHR 0x01"] by (auto simp: show_int_def)

lemma value_debug_no_sep: "exactly_rendered v \<Longrightarrow> CHR 0x01 \<notin> set (value_debug v)"
proof (cases v)
  case (VBlob b)
  have "CHR 0x01 \<notin> set (join '', '' (map (\<lambda>w. show_uint (uint w)) b))"
    using digits_no [of _ "CHR 0x01"] by (intro join_no) fastforce+
  then show ?thesis using VBlob by simp
qed (auto simp: debug_str_def escape_no_sep show_int_no_sep)

lemma group_key_inj:
  assumes "list_all exactly_rendered vs" "list_all exactly_rendered ws" "length vs = length ws" 
    "join [CHR 0x01] (map value_debug vs) = join [CHR 0x01] (map value_debug ws)"
  shows "vs = ws"
proof (cases "vs = []")
  case False
  then have "map value_debug vs = map value_debug ws"
    using assms value_debug_no_sep by (intro join_inj [OF _ _ _ _ assms(4)]) (auto simp: list_all_iff)
  then show ?thesis
    by (rule map_inj_on) (use assms(1,2) in \<open>auto simp: list_all_iff intro!: inj_onI value_debug_inj\<close>)
qed (use assms(3) in simp)

section \<open>Grouping\<close>

text \<open>The elements in the order of their first occurrence.\<close>

definition firsts :: "'a list \<Rightarrow> 'a list" where
  "firsts xs = rev (remdups (rev xs))"

lemma firsts_simps [simp]:
  "firsts [] = []" "firsts (xs @ [x]) = (if x \<in> set xs then firsts xs else firsts xs @ [x])"
  "set (firsts xs) = set xs" "distinct (firsts xs)"
  by (simp_all add: firsts_def)

lemma update_keys:
  "distinct ks \<Longrightarrow> AList.update k v (map (\<lambda>j. (j, f j)) ks) =
     (if k \<in> set ks then map (\<lambda>j. (j, if j = k then v else f j)) ks else map (\<lambda>j. (j, f j)) ks @ [(k, v)])"
  by (induction ks) auto

lemma map_of_keys: "map_of (map (\<lambda>j. (j, f j)) ks) k = (if k \<in> set ks then Some (f k) else None)"
  by (induction ks) auto

lemma group_rows_filter:
  "group_rows keyed = map (\<lambda>k. (k, map snd (filter (\<lambda>kr. fst kr = k) keyed))) (firsts (map fst keyed))"
proof (induction keyed rule: rev_induct)
  case (snoc kr keyed)
  have "group_rows (keyed @ [kr]) = group_push kr (group_rows keyed)" by (simp add: group_rows_def)
  moreover have "filter (\<lambda>kra. fst kra = fst kr) keyed = []" if "fst kr \<notin> fst ` set keyed"
    using that by (induction keyed) auto
  ultimately show ?case
    unfolding snoc.IH by (auto simp: group_push_def update_keys map_of_keys)
qed (simp add: group_rows_def)

lemma firsts_map_inj: "inj_on f (set xs) \<Longrightarrow> firsts (map f xs) = map f (firsts xs)"
  by (induction xs rule: rev_induct) (auto simp: inj_on_def)

text \<open>The values a row is grouped by.\<close>

definition group_values :: "('x) env_scheme \<Rightarrow> expr list \<Rightarrow> row \<Rightarrow> skvs_value list outcome" where
  "group_values E exprs r = omap (\<lambda>e. obind (eval E (Some r) [] e 0) (\<lambda>(v, _). Done v)) exprs"

lemma omap_length: "omap f xs = Done ys \<Longrightarrow> length ys = length xs"
  by (induction xs arbitrary: ys) (auto simp: outcome_simps)

lemma group_key_values:
  "group_values E exprs r = Done vs \<Longrightarrow> group_key E exprs r = Done (join [CHR 0x01] (map value_debug vs))"
proof -
  have "omap (\<lambda>e. obind (eval E (Some r) [] e 0) (\<lambda>(v, _). Done (value_debug v))) exprs = Done (map value_debug vs)"
    if "omap (\<lambda>e. obind (eval E (Some r) [] e 0) (\<lambda>(v, _). Done v)) exprs = Done vs"
    using that by (induction exprs arbitrary: vs) (fastforce simp: outcome_simps)+
  then show "group_values E exprs r = Done vs \<Longrightarrow> ?thesis" by (simp add: group_values_def group_key_def)
qed

text \<open>C25. GROUP BY yields one row for each combination of key values, in the order of its
  first row, computed from exactly the rows with these values, when no key is a real.\<close>

theorem group_by_partitions:
  assumes "exprs \<noteq> []"
    and vals: "\<And>r. r \<in> set rows \<Longrightarrow> group_values E exprs r = Done (key r) \<and> list_all exactly_rendered (key r)"
  shows "apply_group_by E rows (GroupByExprs exprs) projection =
    Done (map (\<lambda>k. fold (group_item E (filter (\<lambda>r. key r = k) rows)) projection []) (firsts (map key rows)))"
proof -
  let ?k = "\<lambda>vs. join [CHR 0x01] (map value_debug vs)"
  have keyed: "omap (\<lambda>r. obind (group_key E exprs r) (\<lambda>k. Done (k, r))) rows = Done (map (\<lambda>r. (?k (key r), r)) rows)"
    by (rule omap_Done) (simp add: group_key_values vals)
  have "length (key r) = length exprs" if "r \<in> set rows" for r
    using vals [OF that] omap_length by (auto simp: group_values_def)
  then have inj: "inj_on ?k (key ` set rows)"
    using vals by (auto intro!: inj_onI group_key_inj)
  have same: "filter (\<lambda>r. ?k (key r) = ?k (key r')) rows = filter (\<lambda>r. key r = key r') rows" if "r' \<in> set rows" for r'
    using that inj by (intro filter_cong) (auto simp: inj_on_def)
  have "firsts (map (\<lambda>r. ?k (key r)) rows) = map ?k (firsts (map key rows))"
    using firsts_map_inj [of ?k "map key rows"] inj by (simp add: comp_def)
  then have "group_rows (map (\<lambda>r. (?k (key r), r)) rows) =
      map (\<lambda>k. (?k k, filter (\<lambda>r. ?k (key r) = ?k k) rows)) (firsts (map key rows))"
    by (simp add: group_rows_filter comp_def filter_map)
  with keyed same assms(1) show ?thesis by (auto simp: apply_group_by_def)
qed

section \<open>Aggregates\<close>

definition aggregate_call :: "('x) env_scheme \<Rightarrow> string \<Rightarrow> expr \<Rightarrow> string \<Rightarrow> bool \<Rightarrow> bool" where
  "aggregate_call E f e col is_distinct \<longleftrightarrow>
     (\<exists>name i rest. e = Function name (UnnamedArg (Identifier i) # rest) is_distinct \<and> id_value i = col \<and>
        to_lowercase (object_name_to_string E name) = f)"

lemma aggregate_values:
  "aggregate_call E ''count'' e col d \<Longrightarrow> evaluate_aggregate E e rows =
     VInteger (word_of_nat (length (if d then retain_first value_debug [] (filter (\<lambda>v. \<not> is_null v) (column_values rows col))
        else filter (\<lambda>v. \<not> is_null v) (column_values rows col))))"
  "aggregate_call E ''sum'' e col d \<Longrightarrow> evaluate_aggregate E e rows = sum_rows col rows"
  "aggregate_call E ''max'' e col d \<Longrightarrow> evaluate_aggregate E e rows = max_value (column_values rows col)"
  "aggregate_call E ''min'' e col d \<Longrightarrow> evaluate_aggregate E e rows = min_value (column_values rows col)"
  by (auto simp: aggregate_call_def evaluate_aggregate_def on_column_def aggregate_ident_def count_rows_def is_star_def Let_def)

text \<open>Folding towards a bound: the result is one of the values and bounds all of them.\<close>

lemma fold_pick:
  assumes tot: "\<And>x y. x \<in> S \<Longrightarrow> y \<in> S \<Longrightarrow> le x (pick x y) \<and> le y (pick x y) \<and> (pick x y = x \<or> pick x y = y)"
    and trans: "\<And>x y z. x \<in> S \<Longrightarrow> y \<in> S \<Longrightarrow> z \<in> S \<Longrightarrow> le x y \<Longrightarrow> le y z \<Longrightarrow> le x z" and refl: "\<And>x. x \<in> S \<Longrightarrow> le x x"
  shows "insert v (set vs) \<subseteq> S \<Longrightarrow> foldl pick v vs \<in> insert v (set vs) \<and> (\<forall>w\<in>insert v (set vs). le w (foldl pick v vs))"
proof (induction vs arbitrary: v)
  case (Cons x vs)
  have p: "le v (pick v x)" "le x (pick v x)" "pick v x = v \<or> pick v x = x" "v \<in> S" "x \<in> S"
    using tot [of v x] Cons.prems by auto
  have "insert (pick v x) (set vs) \<subseteq> S" using p(3) Cons.prems by auto
  note IH = Cons.IH [OF this]
  then have m: "foldl pick (pick v x) vs \<in> insert v (set (x # vs))" using p(3) by auto
  then have "foldl pick (pick v x) vs \<in> S" "pick v x \<in> S" using Cons.prems p(3-5) by auto
  then have "le v (foldl pick (pick v x) vs)" "le x (foldl pick (pick v x) vs)"
    using trans [of v "pick v x"] trans [of x "pick v x"] p IH by auto
  then show ?case using m IH by auto
qed (use refl in auto)

lemma max_value_bounds:
  assumes "comparable_set (set vs)" "vs \<noteq> []"
  shows "max_value vs \<in> set vs \<and> (\<forall>v\<in>set vs. value_compare v (max_value vs) \<noteq> Greater)"
proof -
  obtain v ws where vs: "vs = v # ws" using assms(2) by (cases vs) auto
  note c = comparable_set_key [OF assms(1)]
  have "foldl (\<lambda>x y. if value_compare x y = Greater then x else y) v ws \<in> insert v (set ws) \<and>
      (\<forall>w\<in>insert v (set ws). value_compare w (foldl (\<lambda>x y. if value_compare x y = Greater then x else y) v ws) \<noteq> Greater)"
    by (rule fold_pick [where S = "set vs"]) (auto simp: c cmp_of_def vs split: if_splits)
  then show ?thesis by (simp add: max_value_def vs)
qed

lemma min_value_bounds:
  assumes "comparable_set (set vs)" "vs \<noteq> []"
  shows "min_value vs \<in> set vs \<and> (\<forall>v\<in>set vs. value_compare (min_value vs) v \<noteq> Greater)"
proof -
  obtain v ws where vs: "vs = v # ws" using assms(2) by (cases vs) auto
  note c = comparable_set_key [OF assms(1)]
  have "foldl (\<lambda>x y. if value_compare x y = Greater then y else x) v ws \<in> insert v (set ws) \<and>
      (\<forall>w\<in>insert v (set ws). value_compare (foldl (\<lambda>x y. if value_compare x y = Greater then y else x) v ws) w \<noteq> Greater)"
    by (rule fold_pick [where S = "set vs" and le = "\<lambda>a b. value_compare b a \<noteq> Greater"])
      (auto simp: c cmp_of_def vs split: if_splits)
  then show ?thesis by (simp add: min_value_def vs)
qed

lemma retain_first_card:
  "inj_on key (set xs) \<Longrightarrow> length (retain_first key seen xs) = card {x \<in> set xs. key x \<notin> set seen}"
proof (induction xs arbitrary: seen)
  case (Cons x xs)
  have inj: "inj_on key (set xs)" using Cons.prems by (rule inj_on_subset) auto
  show ?case
  proof (cases "key x \<in> set seen")
    case True
    then have "{y \<in> set (x # xs). key y \<notin> set seen} = {y \<in> set xs. key y \<notin> set seen}" by auto
    then show ?thesis using True Cons.IH [OF inj] by simp
  next
    case False
    have "{y \<in> set (x # xs). key y \<notin> set seen} = insert x {y \<in> set xs. key y \<notin> set (key x # seen)}"
      using False Cons.prems by (auto simp: inj_on_def)
    then show ?thesis using False Cons.IH [OF inj, of "key x # seen"] by simp
  qed
qed simp

text \<open>C31. On a non-empty column of values that compare exactly with each other MAX and MIN yield a value of
  the column that bounds it (NULL is below every other value), and COUNT the number of its values
  that are not NULL. On such a column without reals COUNT(DISTINCT) yields the number of different
  values that are not NULL (reals are told apart by their rendering, so 0.0 and -0.0 count as two).\<close>

theorem aggregates_summarise:
  assumes "comparable_set (set (column_values rows col))" "column_values rows col \<noteq> []"
  shows "(aggregate_call E ''max'' e col d \<longrightarrow> evaluate_aggregate E e rows \<in> set (column_values rows col) \<and>
      (\<forall>v\<in>set (column_values rows col). value_compare v (evaluate_aggregate E e rows) \<noteq> Greater)) \<and>
    (aggregate_call E ''min'' e col d \<longrightarrow> evaluate_aggregate E e rows \<in> set (column_values rows col) \<and>
      (\<forall>v\<in>set (column_values rows col). value_compare (evaluate_aggregate E e rows) v \<noteq> Greater)) \<and>
    (aggregate_call E ''count'' e col False \<longrightarrow> evaluate_aggregate E e rows =
      VInteger (word_of_nat (length (filter (\<lambda>v. v \<noteq> VNull) (column_values rows col))))) \<and>
    (aggregate_call E ''count'' e col True \<longrightarrow> list_all exactly_rendered (column_values rows col) \<longrightarrow> evaluate_aggregate E e rows =
      VInteger (word_of_nat (card (set (column_values rows col) - {VNull}))))"
proof -
  let ?vs = "filter (\<lambda>v. \<not> is_null v) (column_values rows col)"
  have null: "is_null v \<longleftrightarrow> v = VNull" for v by (cases v) (simp_all add: is_null_def)
  have "length (retain_first value_debug [] ?vs) = card (set (column_values rows col) - {VNull})"
    if "list_all exactly_rendered (column_values rows col)"
  proof -
    have "inj_on value_debug (set ?vs)"
      using that by (auto simp: list_all_iff intro!: inj_onI value_debug_inj)
    then show ?thesis by (simp add: retain_first_card null set_diff_eq)
  qed
  then show ?thesis
    using max_value_bounds [OF assms(1,2)] min_value_bounds [OF assms(1,2)]
    by (simp add: aggregate_values null)
qed

section \<open>SUM\<close>

definition int_of_value :: "skvs_value \<Rightarrow> int option" where
  "int_of_value v = (case v of VInteger i \<Rightarrow> Some (sint i) | _ \<Rightarrow> None)"

lemma f64_sum_ints:
  "\<bar>a\<bar> + (\<Sum>i\<leftarrow>is. \<bar>i\<bar>) \<le> 2 ^ 53 \<Longrightarrow> foldl f64_add (FFin (of_int a)) (map f64_of_int is) = FFin (of_int (a + sum_list is))"
proof (induction "is" arbitrary: a)
  case (Cons i "is")
  have p: "0 \<le> (\<Sum>i\<leftarrow>is. \<bar>i\<bar>)" by (rule sum_list_nonneg) auto
  have b: "\<bar>a + i\<bar> + (\<Sum>i\<leftarrow>is. \<bar>i\<bar>) \<le> 2 ^ 53" "\<bar>i\<bar> \<le> 2 ^ 53" "\<bar>a + i\<bar> \<le> 2 ^ 53"
    using Cons.prems p by auto
  have "f64_add (FFin (of_int a)) (f64_of_int i) = FFin (of_int (a + i))"
    by (simp only: f64_of_int_exact [OF b(2)] f64_add_int f64_of_int_exact [OF b(3)])
  then show ?case using Cons.IH [OF b(1)] by (simp add: add.assoc)
qed simp

lemma numeric_values_ints:
  assumes "\<forall>v\<in>set (column_values rows col). \<exists>i. v = VInteger i \<or> v = VNull"
  shows "numeric_values rows col = map f64_of_int (List.map_filter int_of_value (column_values rows col))"
  using assms
  by (induction rows)
    (auto simp: numeric_values_def column_values_def List.map_filter_def numeric_def int_of_value_def f64_of_i64_def split: option.splits)

text \<open>C32. SUM over a column of integers and NULLs is the exact sum of the integers, although it is
  computed on floats, as long as their magnitudes add up to at most 53 bits.\<close>

theorem sum_is_exact:
  assumes "aggregate_call E ''sum'' e col d"
    and "\<forall>v\<in>set (column_values rows col). \<exists>i. v = VInteger i \<or> v = VNull"
    and "is = List.map_filter int_of_value (column_values rows col)" "(\<Sum>i\<leftarrow>is. \<bar>i\<bar>) \<le> 2 ^ 53"
  shows "\<exists>w. evaluate_aggregate E e rows = VInteger w \<and> sint w = sum_list is"
proof -
  have s: "f64_sum (numeric_values rows col) = FFin (of_int (sum_list is))"
    using f64_sum_ints [of 0 "is"] assms(4) by (simp add: f64_sum_def numeric_values_ints [OF assms(2)] assms(3))
  have b: "\<bar>sum_list is\<bar> \<le> 2 ^ 53" using sum_list_abs [of "is"] assms(4) by simp
  have t: "rat_trunc (of_int (sum_list is)) = sum_list is"
    by (simp add: rat_trunc_def flip: of_int_minus)
  have "evaluate_aggregate E e rows = VInteger (word_of_int (sum_list is))"
    using b by (simp add: aggregate_values(2) [OF assms(1)] sum_rows_def s t f64_eq_refl Let_def)
  moreover have "sint (word_of_int (sum_list is) :: i64) = sum_list is"
    using b by (auto simp: signed_of_int signed_take_bit_int_eq_self_iff abs_le_iff)
  ultimately show ?thesis by blast
qed

section \<open>Concrete groups\<close>

definition agg :: "string \<Rightarrow> bool \<Rightarrow> expr" where
  "agg f d = Function [nm f] [UnnamedArg (Identifier (nm ''b''))] d"

definition ab_row :: "int \<Rightarrow> skvs_value \<Rightarrow> row" where
  "ab_row a b = [(''a'', VInteger (word_of_int a)), (''b'', b)]"

definition ab_rows :: "row list" where
  "ab_rows = [ab_row 1 (VInteger 5), ab_row 2 VNull, ab_row 1 (VInteger 7), ab_row 2 (VInteger 5)]"

theorem group_by_partitions_witness:
  "apply_group_by plain_env ab_rows (GroupByExprs [Identifier (nm ''a'')])
     [UnnamedExpr (Identifier (nm ''a'')), ExprWithAlias (agg ''count'' False) (nm ''n'')] =
   Done [[(''a'', VInteger 1), (''n'', VInteger 2)], [(''a'', VInteger 2), (''n'', VInteger 1)]]"
proof -
  let ?key = "\<lambda>r. [the (map_of r ''a'')]"
  have "group_values plain_env [Identifier (nm ''a'')] r = Done (?key r) \<and> list_all exactly_rendered (?key r)"
    if "r \<in> set ab_rows" for r
    using that by (auto simp: ab_rows_def ab_row_def group_values_def lookup_column_def)
  then have "apply_group_by plain_env ab_rows (GroupByExprs [Identifier (nm ''a'')])
     [UnnamedExpr (Identifier (nm ''a'')), ExprWithAlias (agg ''count'' False) (nm ''n'')] =
    Done (map (\<lambda>k. fold (group_item plain_env (filter (\<lambda>r. ?key r = k) ab_rows))
       [UnnamedExpr (Identifier (nm ''a'')), ExprWithAlias (agg ''count'' False) (nm ''n'')] []) (firsts (map ?key ab_rows)))"
    by (intro group_by_partitions) simp_all
  also have "map (\<lambda>k. fold (group_item plain_env (filter (\<lambda>r. ?key r = k) ab_rows))
       [UnnamedExpr (Identifier (nm ''a'')), ExprWithAlias (agg ''count'' False) (nm ''n'')] []) (firsts (map ?key ab_rows)) =
     [[(''a'', VInteger 1), (''n'', VInteger 2)], [(''a'', VInteger 2), (''n'', VInteger 1)]]"
    by code_simp
  finally show ?thesis .
qed

text \<open>\<open>MAX(b)\<close>, \<open>COUNT(b)\<close> and \<open>COUNT(DISTINCT b)\<close>; \<open>MIN(b)\<close> is NULL, the least value.\<close>

lemma agg_call: "aggregate_call plain_env f (agg f d) ''b'' d" if "f = ''max'' \<or> f = ''min'' \<or> f = ''count'' \<or> f = ''sum''"
proof -
  have "to_lowercase (object_name_to_string plain_env [nm f]) = f" using that by (elim disjE; hypsubst; code_simp)
  then show ?thesis by (simp add: aggregate_call_def agg_def)
qed

lemma ab_values: "column_values ab_rows ''b'' = [VInteger 5, VNull, VInteger 7, VInteger 5]"
  by code_simp

theorem aggregates_summarise_witness:
  "evaluate_aggregate plain_env (agg ''max'' False) ab_rows = VInteger 7 \<and>
   evaluate_aggregate plain_env (agg ''count'' False) ab_rows = VInteger 3 \<and>
   evaluate_aggregate plain_env (agg ''count'' True) ab_rows = VInteger 2"
proof -
  have v: "comparable_set (set (column_values ab_rows ''b''))" "column_values ab_rows ''b'' \<noteq> []"
    "list_all exactly_rendered (column_values ab_rows ''b'')"
    by (simp_all add: ab_values comparable_set_def)
  have c: "card {VInteger 5, VNull, VInteger 7, VInteger 5} = 3" by code_simp
  have "evaluate_aggregate plain_env (agg ''max'' False) ab_rows \<in> {VInteger 5, VNull, VInteger 7} \<and>
      value_compare (VInteger 7) (evaluate_aggregate plain_env (agg ''max'' False) ab_rows) \<noteq> Greater"
    using aggregates_summarise [OF v(1,2), of plain_env "agg ''max'' False" False] agg_call by (simp add: ab_values) blast
  then have "evaluate_aggregate plain_env (agg ''max'' False) ab_rows = VInteger 7"
    by (auto simp: cmp_of_def split: if_splits)
  then show ?thesis
    using aggregates_summarise [OF v(1,2), of plain_env "agg ''count'' False" False]
      aggregates_summarise [OF v(1,2), of plain_env "agg ''count'' True" True] v(3) agg_call c
    by (simp add: ab_values)
qed

theorem sum_is_exact_witness:
  "\<exists>w. evaluate_aggregate plain_env (agg ''sum'' False) ab_rows = VInteger w \<and> sint w = 17"
  using sum_is_exact [of plain_env "agg ''sum'' False" "''b''" False ab_rows "[5, 7, 5]"] agg_call [of "''sum''" False]
  by (simp add: ab_values List.map_filter_def int_of_value_def)

text \<open>\<open>MIN\<close> counts NULL as a value.\<close>

theorem min_reports_null:
  "evaluate_aggregate plain_env (agg ''min'' False) ab_rows = VNull"
  by code_simp

text \<open>Without GROUP BY an aggregate is an unknown scalar function: one row per row, each NULL.\<close>

definition count_query :: query where
  "count_query =
     \<lparr>q_body = SelectBody \<lparr>sel_distinct = False, sel_projection = [ExprWithAlias (Function [nm ''COUNT''] [WildcardArg] False) (nm ''n'')],
        sel_from = [\<lparr>tj_relation = TableFactor [nm ''t''] None, tj_joins = []\<rparr>],
        sel_selection = None, sel_group_by = GroupByExprs []\<rparr>,
      q_order_by = [], q_limit = None, q_offset = None\<rparr>"

theorem ungrouped_count_is_null:
  "obind (execute_select plain_env 1 (demo_state False [] 3 [(1, [(''a'', VInteger 4)]), (2, [(''a'', VInteger 9)])]) 0 count_query [])
       (\<lambda>qr. Done (qr_rows qr)) =
     Done [[(''n'', VNull)], [(''n'', VNull)]]"
  by code_simp

end
