(* ===== verification/Skvs_Txn.thy ===== *)
theory Skvs_Txn
  imports Skvs_Index
begin

text \<open>
  Transactions (\<^verbatim>\<open>src/src/transaction.rs\<close>) as undo journals, with the upkeep of the
  full-text index they share with the DML handlers (\<open>sync_fts_index\<close> of
  \<^verbatim>\<open>src/src/sql/dml.rs\<close>). What a journal holds while handlers run, and that replaying it
  backwards restores the rows, is in \<open>Skvs_Journal\<close> and \<open>Skvs_Atomicity\<close>.
\<close>

section \<open>Keeping a full-text index in step\<close>

definition fts_update :: "u32 \<Rightarrow> string \<Rightarrow> (fts_index \<Rightarrow> fts_index) \<Rightarrow> kvs \<Rightarrow> kvs" where
  "fts_update db_id table f s =
     (case get_fts_table s db_id table of
        Some ft \<Rightarrow> register_fts_table db_id table (ft\<lparr>ft_index := f (ft_index ft)\<rparr>) s
      | None \<Rightarrow> s)"

definition sync_fts_index :: "u32 \<Rightarrow> string \<Rightarrow> rowid \<Rightarrow> row option \<Rightarrow> bool \<Rightarrow> kvs \<Rightarrow> kvs" where
  "sync_fts_index db_id table rid r is_delete s =
     (case get_fts_table s db_id table of
        None \<Rightarrow> s
      | Some fts \<Rightarrow>
          (case (case r of Some r \<Rightarrow> map_of r (ft_content_column fts) | None \<Rightarrow> None) of
             Some (VText content) \<Rightarrow>
               fts_update db_id table
                 (\<lambda>ix. if is_delete then remove_document ix rid content
                       else add_document ix rid content) s
           | _ \<Rightarrow> s))"

definition sync_fts_index_change ::
  "u32 \<Rightarrow> string \<Rightarrow> rowid \<Rightarrow> row option \<Rightarrow> row option \<Rightarrow> kvs \<Rightarrow> kvs" where
  "sync_fts_index_change db_id table rid old_row new_row s =
     (let s1 = (if old_row \<noteq> None then sync_fts_index db_id table rid old_row True s else s)
      in if new_row \<noteq> None then sync_fts_index db_id table rid new_row False s1 else s1)"

section \<open>The transaction manager\<close>

definition set_txns :: "txn_manager \<Rightarrow> kvs \<Rightarrow> kvs" where
  "set_txns tm s = s\<lparr>k_txns := tm\<rparr>"

definition txn_begin :: "u32 \<Rightarrow> (kvs, u32) exec" where
  "txn_begin db_id s =
     (let tm = k_txns s; i = tm_next_id tm in
      (Done i, set_txns (tm\<lparr>tm_next_id := i + 1,
          tm_active := (tm_active tm)(i \<mapsto> \<lparr>te_db_id = db_id, te_journal = []\<rparr>)\<rparr>) s))"

definition txn_record :: "u32 \<Rightarrow> undo_op \<Rightarrow> kvs \<Rightarrow> kvs" where
  "txn_record tx_id op s =
     (let tm = k_txns s in
      case tm_active tm tx_id of
        Some txn \<Rightarrow> set_txns (tm\<lparr>tm_active := (tm_active tm)(tx_id \<mapsto>
            txn\<lparr>te_journal := te_journal txn @ [op]\<rparr>)\<rparr>) s
      | None \<Rightarrow> s)"

definition no_active :: "u32 \<Rightarrow> skvs_error" where
  "no_active tx_id = ETransaction (''No active transaction '' @ show_int (uint tx_id))"

definition txn_remove :: "u32 \<Rightarrow> kvs \<Rightarrow> kvs" where
  "txn_remove tx_id s =
     set_txns ((k_txns s)\<lparr>tm_active := (tm_active (k_txns s))(tx_id := None)\<rparr>) s"

definition txn_commit :: "u32 \<Rightarrow> (kvs, unit) exec" where
  "txn_commit tx_id s =
     (case tm_active (k_txns s) tx_id of
        Some _ \<Rightarrow> (Done (), txn_remove tx_id s)
      | None \<Rightarrow> (Fail (no_active tx_id), s))"

definition txn_is_active :: "kvs \<Rightarrow> u32 \<Rightarrow> bool" where
  "txn_is_active s tx_id \<longleftrightarrow> tm_active (k_txns s) tx_id \<noteq> None"

fun undo_one :: "u32 \<Rightarrow> undo_op \<Rightarrow> kvs \<Rightarrow> kvs" where
  "undo_one db_id (UndoInsert table rid) s =
     (case get_table_store s db_id table of
        Some ref \<Rightarrow>
          (case store_get s ref rid of
             Some r \<Rightarrow>
               sync_fts_index db_id table rid (Some r) True
                 (update_indexes db_id table r rid IxDelete (store_remove ref rid s))
           | None \<Rightarrow> s)
      | None \<Rightarrow> s)"
| "undo_one db_id (UndoDelete table rid r) s =
     (case get_table_store s db_id table of
        Some ref \<Rightarrow>
          sync_fts_index db_id table rid (Some r) False
            (update_indexes db_id table r rid IxInsert (store_insert ref rid r s))
      | None \<Rightarrow> s)"
| "undo_one db_id (UndoUpdate table rid old_row) s =
     (case get_table_store s db_id table of
        Some ref \<Rightarrow>
          (let current = store_get s ref rid;
               s1 = store_insert ref rid old_row s;
               s2 = update_indexes db_id table old_row rid
                      (IxUpdate (case current of Some r \<Rightarrow> r | None \<Rightarrow> [])) s1
           in case current of
                Some cur \<Rightarrow> sync_fts_index_change db_id table rid (Some cur) (Some old_row) s2
              | None \<Rightarrow> s2)
      | None \<Rightarrow> s)"

definition undo_all :: "u32 \<Rightarrow> undo_op list \<Rightarrow> kvs \<Rightarrow> kvs" where
  "undo_all db_id ops s = fold (undo_one db_id) (rev ops) s"

definition txn_rollback :: "u32 \<Rightarrow> (kvs, unit) exec" where
  "txn_rollback tx_id s =
     (case tm_active (k_txns s) tx_id of
        Some entry \<Rightarrow> (Done (), undo_all (te_db_id entry) (te_journal entry) (txn_remove tx_id s))
      | None \<Rightarrow> (Fail (no_active tx_id), s))"

text \<open>The DML handlers journal under the transaction they run in, if any.\<close>

definition journal :: "u32 option \<Rightarrow> undo_op \<Rightarrow> kvs \<Rightarrow> kvs" where
  "journal tx_id op s = (case tx_id of Some i \<Rightarrow> txn_record i op s | None \<Rightarrow> s)"

section \<open>What each step leaves alone\<close>

lemma fts_update_fields [simp]:
  "k_dbs (fts_update db t f s) = k_dbs s" "k_heap (fts_update db t f s) = k_heap s"
  "k_next_ref (fts_update db t f s) = k_next_ref s"
  "k_schemas (fts_update db t f s) = k_schemas s"
  "k_rowid_gens (fts_update db t f s) = k_rowid_gens s"
  "k_raw (fts_update db t f s) = k_raw s"
  "k_triggers (fts_update db t f s) = k_triggers s" "k_views (fts_update db t f s) = k_views s"
  "k_indexes (fts_update db t f s) = k_indexes s"
  "k_txns (fts_update db t f s) = k_txns s" "k_files (fts_update db t f s) = k_files s"
  by (simp_all add: fts_update_def register_fts_table_def split: option.split)

lemma sync_fts_fields [simp]:
  "k_dbs (sync_fts_index db t rid r d s) = k_dbs s"
  "k_heap (sync_fts_index db t rid r d s) = k_heap s"
  "k_next_ref (sync_fts_index db t rid r d s) = k_next_ref s"
  "k_schemas (sync_fts_index db t rid r d s) = k_schemas s"
  "k_rowid_gens (sync_fts_index db t rid r d s) = k_rowid_gens s"
  "k_raw (sync_fts_index db t rid r d s) = k_raw s"
  "k_triggers (sync_fts_index db t rid r d s) = k_triggers s"
  "k_views (sync_fts_index db t rid r d s) = k_views s"
  "k_indexes (sync_fts_index db t rid r d s) = k_indexes s"
  "k_txns (sync_fts_index db t rid r d s) = k_txns s"
  "k_files (sync_fts_index db t rid r d s) = k_files s"
  by (simp_all add: sync_fts_index_def split: option.split skvs_value.split)

lemma sync_fts_change_fields [simp]:
  "k_dbs (sync_fts_index_change db t rid o' n s) = k_dbs s"
  "k_heap (sync_fts_index_change db t rid o' n s) = k_heap s"
  "k_next_ref (sync_fts_index_change db t rid o' n s) = k_next_ref s"
  "k_schemas (sync_fts_index_change db t rid o' n s) = k_schemas s"
  "k_rowid_gens (sync_fts_index_change db t rid o' n s) = k_rowid_gens s"
  "k_triggers (sync_fts_index_change db t rid o' n s) = k_triggers s"
  "k_views (sync_fts_index_change db t rid o' n s) = k_views s"
  "k_indexes (sync_fts_index_change db t rid o' n s) = k_indexes s"
  "k_txns (sync_fts_index_change db t rid o' n s) = k_txns s"
  by (simp_all add: sync_fts_index_change_def Let_def)

end
