(* ===== verification/Skvs_Constraint.thy ===== *)
theory Skvs_Constraint
  imports Skvs_Expr_Facts Skvs_Index
begin

text \<open>
  Constraint checking (\<^verbatim>\<open>src/src/constraint.rs\<close>): NOT NULL, UNIQUE and PRIMARY KEY on one
  column or a group, FOREIGN KEY, CHECK, in this order, stopping at the first violation.
\<close>

fun ocheck :: "('a \<Rightarrow> unit outcome) \<Rightarrow> 'a list \<Rightarrow> unit outcome" where
  "ocheck f [] = Done ()"
| "ocheck f (x # xs) = obind (f x) (\<lambda>_. ocheck f xs)"

lemma ocheck_Done_iff [outcome_simps]: "ocheck f xs = Done () \<longleftrightarrow> (\<forall>x\<in>set xs. f x = Done ())"
  by (induction xs) (auto simp: outcome_simps)

definition violation :: "string \<Rightarrow> unit outcome" where
  "violation msg = Fail (EConstraintViolation msg)"

definition row_has_values :: "string list \<Rightarrow> skvs_value list \<Rightarrow> row \<Rightarrow> bool" where
  "row_has_values columns values r =
     list_all (\<lambda>(c, v). case map_of r c of Some w \<Rightarrow> value_eq w v | None \<Rightarrow> False) (zip columns values)"

definition value_exists_elsewhere ::
  "kvs \<Rightarrow> u32 \<Rightarrow> table_schema \<Rightarrow> string list \<Rightarrow> skvs_value list \<Rightarrow> rowid \<Rightarrow> bool" where
  "value_exists_elsewhere s db schema columns values exclude_rowid =
     (case get_table_store s db (ts_name schema) of
        None \<Rightarrow> False
      | Some ref \<Rightarrow>
          (case (if length columns = 1
                 then List.find (\<lambda>i. idx_columns i = columns) (ts_indices schema) else None) of
             Some idx \<Rightarrow>
               list_ex (\<lambda>rid. rid \<noteq> exclude_rowid)
                 (lookup_index s db (ts_name schema) (idx_name idx) (hd values))
           | None \<Rightarrow>
               list_ex (\<lambda>(rid, r). rid \<noteq> exclude_rowid \<and> row_has_values columns values r)
                 (k_heap s ref)))"

definition check_not_null :: "row \<Rightarrow> string \<times> column_def \<Rightarrow> unit outcome" where
  "check_not_null r col =
     (if cd_not_null (snd col) \<and> (map_of r (fst col) = None \<or> map_of r (fst col) = Some VNull)
      then violation (fst col @ '' cannot be NULL'') else Done ())"

definition check_column_unique ::
  "kvs \<Rightarrow> u32 \<Rightarrow> table_schema \<Rightarrow> row \<Rightarrow> rowid \<Rightarrow> string \<times> column_def \<Rightarrow> unit outcome" where
  "check_column_unique s db schema r rid col =
     (if cd_unique (snd col) \<or> cd_primary_key (snd col) then
        (case map_of r (fst col) of
           Some val \<Rightarrow>
             (if \<not> is_null val \<and> value_exists_elsewhere s db schema [fst col] [val] rid
              then violation ((if cd_primary_key (snd col) then ''PRIMARY KEY'' else ''UNIQUE'')
                     @ '' constraint failed: '' @ ts_name schema @ ''.'' @ fst col)
              else Done ())
         | None \<Rightarrow> Done ())
      else Done ())"

definition check_group ::
  "kvs \<Rightarrow> u32 \<Rightarrow> table_schema \<Rightarrow> row \<Rightarrow> rowid \<Rightarrow> unique_group \<Rightarrow> unit outcome" where
  "check_group s db schema r rid g =
     (let vals = map (\<lambda>c. case map_of r c of Some v \<Rightarrow> v | None \<Rightarrow> VNull) (ug_columns g);
          cols = join '', '' (ug_columns g)
      in if ug_is_primary g \<and> list_ex is_null vals
         then violation (''PRIMARY KEY constraint failed: '' @ ts_name schema @ ''('' @ cols @ '')'')
         else if list_ex is_null vals then Done ()
         else if value_exists_elsewhere s db schema (ug_columns g) vals rid
         then violation ((if ug_is_primary g then ''PRIMARY KEY'' else ''UNIQUE'')
                @ '' constraint failed: '' @ ts_name schema @ ''('' @ cols @ '')'')
         else Done ())"

definition check_foreign_key ::
  "kvs \<Rightarrow> u32 \<Rightarrow> table_schema \<Rightarrow> row \<Rightarrow> foreign_key_def \<Rightarrow> unit outcome" where
  "check_foreign_key s db schema r fk =
     (if fk_column fk = [] then Done ()
      else case map_of r (fk_column fk) of
        None \<Rightarrow> Done ()
      | Some val \<Rightarrow>
          (if is_null val then Done ()
           else case get_table_store s db (fk_ref_table fk) of
             None \<Rightarrow> Done ()
           | Some ref \<Rightarrow>
               (if list_ex (\<lambda>(_, r2). case map_of r2 (fk_ref_column fk) of
                              Some w \<Rightarrow> value_eq w val | None \<Rightarrow> False) (k_heap s ref)
                then Done ()
                else violation (''FOREIGN KEY constraint failed: '' @ ts_name schema @ ''.''
                       @ fk_column fk @ '' -> '' @ fk_ref_table fk @ ''.'' @ fk_ref_column fk))))"

text \<open>A stored CHECK that does not parse back does not block the write.\<close>

definition eval_check :: "('x) env_scheme \<Rightarrow> row \<Rightarrow> string \<Rightarrow> bool outcome" where
  "eval_check E r check_sql =
     (case parse_sql E (''SELECT '' @ check_sql) of
        Inr (SQuery q # _) \<Rightarrow>
          (case q_body q of
             SelectBody sel \<Rightarrow>
               (case sel_projection sel of
                  UnnamedExpr e # _ \<Rightarrow> obind (eval E (Some r) [] e 0) (\<lambda>(v, _). Done (truthy v))
                | _ \<Rightarrow> Done True)
           | _ \<Rightarrow> Done True)
      | _ \<Rightarrow> Done True)"

definition check_column_check ::
  "('x) env_scheme \<Rightarrow> table_schema \<Rightarrow> row \<Rightarrow> string \<times> column_def \<Rightarrow> unit outcome" where
  "check_column_check E schema r col =
     (case cd_check_expr (snd col) of
        None \<Rightarrow> Done ()
      | Some check_sql \<Rightarrow>
          obind (eval_check E r check_sql) (\<lambda>b.
            if b then Done ()
            else violation (''CHECK constraint failed: '' @ ts_name schema @ ''.'' @ fst col
                   @ '' ('' @ check_sql @ '')'')))"

definition check_table_check ::
  "('x) env_scheme \<Rightarrow> table_schema \<Rightarrow> row \<Rightarrow> string \<Rightarrow> unit outcome" where
  "check_table_check E schema r check_sql =
     obind (eval_check E r check_sql) (\<lambda>b.
       if b then Done ()
       else violation (''CHECK constraint failed: '' @ ts_name schema @ '' ('' @ check_sql @ '')''))"

definition validate_constraints ::
  "('x) env_scheme \<Rightarrow> kvs \<Rightarrow> u32 \<Rightarrow> table_schema \<Rightarrow> row \<Rightarrow> rowid \<Rightarrow> unit outcome" where
  "validate_constraints E s db schema r rid =
     obind (ocheck (check_not_null r) (ts_columns schema)) (\<lambda>_.
     obind (ocheck (check_column_unique s db schema r rid) (ts_columns schema)) (\<lambda>_.
     obind (ocheck (check_group s db schema r rid) (ts_unique_groups schema)) (\<lambda>_.
     obind (ocheck (check_foreign_key s db schema r) (ts_foreign_keys schema)) (\<lambda>_.
     obind (ocheck (check_column_check E schema r) (ts_columns schema)) (\<lambda>_.
       ocheck (check_table_check E schema r) (ts_table_checks schema))))))"

end
