(* ===== verification/Skvs_Dml.thy ===== *)
theory Skvs_Dml
  imports Skvs_Txn Skvs_Constraint Skvs_Select
begin

text \<open>
  Row changes (\<^verbatim>\<open>src/src/sql/dml.rs\<close>) and the triggers they fire
  (\<^verbatim>\<open>src/src/trigger.rs\<close>). Trigger bodies are statements of the engine itself: here they
  are run by the parameter \<open>run\<close>, and \<open>Skvs_Engine\<close> ties the knot.
\<close>

section \<open>Triggers\<close>

fun value_to_sql_literal :: "skvs_value \<Rightarrow> string" where
  "value_to_sql_literal VNull = ''NULL''"
| "value_to_sql_literal (VInteger i) = show_int (sint i)"
| "value_to_sql_literal (VReal f) = show_f64 f"
| "value_to_sql_literal (VText s) =
     [CHR 0x27] @ str_replace s [CHR 0x27] [CHR 0x27, CHR 0x27] @ [CHR 0x27]"
| "value_to_sql_literal (VBlob b) = ''X'' @ [CHR 0x27] @ hex_encode b @ [CHR 0x27]"

definition substitute_row :: "string \<Rightarrow> row option \<Rightarrow> string \<Rightarrow> string" where
  "substitute_row prefix r body =
     (case r of
        Some r \<Rightarrow> fold (\<lambda>(k, v) b. str_replace b (prefix @ k) (value_to_sql_literal v)) r body
      | None \<Rightarrow> body)"

definition substitute_trigger_variables :: "string \<Rightarrow> row option \<Rightarrow> row option \<Rightarrow> string" where
  "substitute_trigger_variables body old_row new_row =
     substitute_row ''NEW.'' new_row (substitute_row ''OLD.'' old_row body)"

definition prefix_row :: "string \<Rightarrow> row option \<Rightarrow> row \<Rightarrow> row" where
  "prefix_row prefix r ctx =
     (case r of Some r \<Rightarrow> fold (\<lambda>(k, v) c. AList.update (prefix @ k) v c) r ctx | None \<Rightarrow> ctx)"

definition trigger_context :: "row option \<Rightarrow> row option \<Rightarrow> row" where
  "trigger_context old_row new_row = prefix_row ''NEW.'' new_row (prefix_row ''OLD.'' old_row [])"

definition trigger_condition ::
  "('x) env_scheme \<Rightarrow> u32 \<Rightarrow> row option \<Rightarrow> row option \<Rightarrow> trigger_def \<Rightarrow> kvs \<Rightarrow> bool outcome" where
  "trigger_condition E db old_row new_row trg s =
     (case tr_condition trg of
        None \<Rightarrow> Done True
      | Some cond \<Rightarrow>
          (case parse_expr_sql E cond of
             Inl e \<Rightarrow> Fail (ESqlParse e)
           | Inr e \<Rightarrow>
               obind (evaluate_where E s db (trigger_context old_row new_row) [] e 0)
                 (\<lambda>(b, _). Done b)))"

definition run_body ::
  "('x) env_scheme \<Rightarrow> (statement \<Rightarrow> (kvs, query_result) exec) \<Rightarrow> string \<Rightarrow> (kvs, unit) exec" where
  "run_body E run body_sql =
     (case parse_sql E body_sql of
        Inl e \<Rightarrow> efail (ESqlParse e)
      | Inr stmts \<Rightarrow> eiter (\<lambda>st. ebind (run st) (\<lambda>_. eret ())) stmts)"

definition fire_trigger ::
  "('x) env_scheme \<Rightarrow> (statement \<Rightarrow> (kvs, query_result) exec) \<Rightarrow> u32 \<Rightarrow> trigger_event \<Rightarrow> trigger_timing
     \<Rightarrow> row option \<Rightarrow> row option \<Rightarrow> trigger_def \<Rightarrow> (kvs, unit) exec" where
  "fire_trigger E run db event timing old_row new_row trg =
     (if tr_event trg = event \<and> tr_timing trg = timing
      then ebind (elift (trigger_condition E db old_row new_row trg)) (\<lambda>b.
             if b then run_body E run (substitute_trigger_variables (tr_body trg) old_row new_row)
             else eret ())
      else eret ())"

definition fire_triggers ::
  "('x) env_scheme \<Rightarrow> (statement \<Rightarrow> (kvs, query_result) exec) \<Rightarrow> u32 \<Rightarrow> string \<Rightarrow> trigger_event
     \<Rightarrow> trigger_timing \<Rightarrow> row option \<Rightarrow> row option \<Rightarrow> (kvs, unit) exec" where
  "fire_triggers E run db table event timing old_row new_row =
     ebind (eget (\<lambda>s. get_triggers s db table))
       (eiter (fire_trigger E run db event timing old_row new_row))"

section \<open>INSERT\<close>

fun eval_tuple ::
  "('x) env_scheme \<Rightarrow> skvs_value list \<Rightarrow> (string \<times> expr) list \<Rightarrow> nat \<Rightarrow> row \<Rightarrow> row outcome" where
  "eval_tuple E ps [] i r = Done r"
| "eval_tuple E ps ((c, e) # ces) i r =
     obind (eval E None ps e i) (\<lambda>(v, i). eval_tuple E ps ces i (AList.update c v r))"

definition insert_columns :: "table_schema \<Rightarrow> ident list \<Rightarrow> string list" where
  "insert_columns schema columns =
     (if columns = [] then map fst (ts_columns schema) else map id_value columns)"

text \<open>
  The rows of the source: every tuple evaluated from placeholder 0, or the rows of a query by
  position; none at all becomes one row without columns.
\<close>

definition candidate_rows ::
  "('x) env_scheme \<Rightarrow> nat \<Rightarrow> kvs \<Rightarrow> u32 \<Rightarrow> string list \<Rightarrow> query option \<Rightarrow> skvs_value list \<Rightarrow> row list outcome" where
  "candidate_rows E n s db col_names source ps =
     obind (case source of
              None \<Rightarrow> Done []
            | Some q \<Rightarrow>
                (case q_body q of
                   ValuesBody rows \<Rightarrow> omap (\<lambda>es. eval_tuple E ps (zip col_names es) 0 []) rows
                 | SelectBody _ \<Rightarrow>
                     obind (execute_select E n s db q ps) (\<lambda>inner.
                       Done (map (\<lambda>src. fold (\<lambda>(c, v) r. AList.update c v r)
                                    (zip col_names (map snd src)) []) (qr_rows inner)))
                 | OtherBody \<Rightarrow> Fail (EUnsupported ''Unsupported INSERT source'')))
       (\<lambda>rows. Done (if rows = [] then [[]] else rows))"

definition default_value :: "column_def \<Rightarrow> rowid \<Rightarrow> skvs_value" where
  "default_value cd rid =
     (if cd_primary_key cd \<and> cd_data_type cd = DInteger then VInteger rid
      else case cd_default cd of Some v \<Rightarrow> v | None \<Rightarrow> VNull)"

definition apply_defaults :: "table_schema \<Rightarrow> rowid \<Rightarrow> row \<Rightarrow> row" where
  "apply_defaults schema rid r =
     fold (\<lambda>(c, cd) r. entry_or_insert c (default_value cd rid) r) (ts_columns schema) r"

text \<open>The write itself: the row, its journal entry, the indexes, the full-text index.\<close>

definition write_insert ::
  "u32 \<Rightarrow> string \<Rightarrow> store_ref \<Rightarrow> u32 option \<Rightarrow> rowid \<Rightarrow> row \<Rightarrow> kvs \<Rightarrow> kvs" where
  "write_insert db table ref tx rid r s =
     sync_fts_index db table rid (Some r) False
       (update_indexes db table r rid IxInsert
         (journal tx (UndoInsert table rid) (store_insert ref rid r s)))"

definition insert_row ::
  "('x) env_scheme \<Rightarrow> (statement \<Rightarrow> (kvs, query_result) exec) \<Rightarrow> u32 \<Rightarrow> string \<Rightarrow> table_schema
     \<Rightarrow> store_ref \<Rightarrow> u32 option \<Rightarrow> row \<Rightarrow> (kvs, unit) exec" where
  "insert_row E run db table schema ref tx r0 =
     ebind (get_next_rowid db table) (\<lambda>rid.
       let r = apply_defaults schema rid r0 in
       ebind (elift (\<lambda>s. validate_constraints E s db schema r rid)) (\<lambda>_.
       ebind (fire_triggers E run db table TInsert TBefore None (Some r)) (\<lambda>_.
       ebind (emodify (write_insert db table ref tx rid r)) (\<lambda>_.
         fire_triggers E run db table TInsert TAfter None (Some r)))))"

definition execute_insert ::
  "('x) env_scheme \<Rightarrow> nat \<Rightarrow> (statement \<Rightarrow> (kvs, query_result) exec) \<Rightarrow> u32 \<Rightarrow> object_name \<Rightarrow> ident list
     \<Rightarrow> query option \<Rightarrow> skvs_value list \<Rightarrow> u32 option \<Rightarrow> (kvs, query_result) exec" where
  "execute_insert E n run db table_name columns source ps tx s =
     (let table = object_name_to_string E table_name in
      case get_schema s db table of
        None \<Rightarrow> (Fail (table_not_found table), s)
      | Some schema \<Rightarrow>
          (case get_table_store s db table of
             None \<Rightarrow> (Fail (ESchema (''Store for '' @ table @ '' not found'')), s)
           | Some ref \<Rightarrow>
               ebind (elift (\<lambda>s. candidate_rows E n s db (insert_columns schema columns) source ps))
                 (\<lambda>rows.
                   ebind (eiter (insert_row E run db table schema ref tx) rows)
                     (\<lambda>_. eret (qr_affected_rows (word_of_nat (length rows))))) s))"

section \<open>UPDATE\<close>

definition factor_name :: "('x) env_scheme \<Rightarrow> table_factor \<Rightarrow> string" where
  "factor_name E relation = fst (table_factor_names E relation)"

text \<open>The rows a WHERE clause picks, with their ids, in iteration order.\<close>

definition matching_rows ::
  "('x) env_scheme \<Rightarrow> kvs \<Rightarrow> u32 \<Rightarrow> store_ref \<Rightarrow> skvs_value list \<Rightarrow> expr option \<Rightarrow> nat
     \<Rightarrow> (rowid \<times> row) list outcome" where
  "matching_rows E s db ref ps selection i =
     ofilter (\<lambda>(_, r). where_passes E s db ps selection i r) (iter_rows E (k_heap s ref))"

definition set_param_count :: "assignment list \<Rightarrow> nat" where
  "set_param_count assignments = sum_list (map (\<lambda>a. count_placeholders (as_value a)) assignments)"

definition assignment_column :: "assignment \<Rightarrow> string" where
  "assignment_column a = (if as_id a = [] then [] else id_value (last (as_id a)))"

fun eval_assignments ::
  "('x) env_scheme \<Rightarrow> row \<Rightarrow> skvs_value list \<Rightarrow> assignment list \<Rightarrow> nat \<Rightarrow> row \<Rightarrow> row outcome" where
  "eval_assignments E old_row ps [] i new_row = Done new_row"
| "eval_assignments E old_row ps (a # as) i new_row =
     obind (eval E (Some old_row) ps (as_value a) i) (\<lambda>(v, i).
       eval_assignments E old_row ps as i (AList.update (assignment_column a) v new_row))"

definition write_update ::
  "u32 \<Rightarrow> string \<Rightarrow> store_ref \<Rightarrow> u32 option \<Rightarrow> rowid \<Rightarrow> row \<Rightarrow> row \<Rightarrow> kvs \<Rightarrow> kvs" where
  "write_update db table ref tx rid old_row new_row s =
     sync_fts_index_change db table rid (Some old_row) (Some new_row)
       (update_indexes db table new_row rid (IxUpdate old_row)
         (journal tx (UndoUpdate table rid old_row) (store_insert ref rid new_row s)))"

definition update_row ::
  "('x) env_scheme \<Rightarrow> (statement \<Rightarrow> (kvs, query_result) exec) \<Rightarrow> u32 \<Rightarrow> string \<Rightarrow> table_schema
     \<Rightarrow> store_ref \<Rightarrow> u32 option \<Rightarrow> assignment list \<Rightarrow> skvs_value list \<Rightarrow> rowid \<times> row \<Rightarrow> (kvs, unit) exec" where
  "update_row E run db table schema ref tx assignments ps entry =
     (let (rid, old_row) = entry in
      ebind (elift (\<lambda>_. eval_assignments E old_row ps assignments 0 old_row)) (\<lambda>new_row.
      ebind (elift (\<lambda>s. validate_constraints E s db schema new_row rid)) (\<lambda>_.
      ebind (fire_triggers E run db table TUpdate TBefore (Some old_row) (Some new_row)) (\<lambda>_.
      ebind (emodify (write_update db table ref tx rid old_row new_row)) (\<lambda>_.
        fire_triggers E run db table TUpdate TAfter (Some old_row) (Some new_row))))))"

definition execute_update ::
  "('x) env_scheme \<Rightarrow> (statement \<Rightarrow> (kvs, query_result) exec) \<Rightarrow> u32 \<Rightarrow> table_factor \<Rightarrow> assignment list
     \<Rightarrow> expr option \<Rightarrow> skvs_value list \<Rightarrow> u32 option \<Rightarrow> (kvs, query_result) exec" where
  "execute_update E run db relation assignments selection ps tx s =
     (let table = factor_name E relation in
      case get_table_store s db table of
        None \<Rightarrow> (Fail (table_not_found table), s)
      | Some ref \<Rightarrow>
          (case get_schema s db table of
             None \<Rightarrow> (Fail (ESchema (''Schema for '' @ table @ '' not found'')), s)
           | Some schema \<Rightarrow>
               ebind (elift (\<lambda>s. matching_rows E s db ref ps selection (set_param_count assignments)))
                 (\<lambda>entries.
                   ebind (eiter (update_row E run db table schema ref tx assignments ps) entries)
                     (\<lambda>_. eret (qr_affected_rows (word_of_nat (length entries))))) s))"

section \<open>DELETE\<close>

definition write_delete ::
  "u32 \<Rightarrow> string \<Rightarrow> store_ref \<Rightarrow> u32 option \<Rightarrow> rowid \<Rightarrow> row \<Rightarrow> kvs \<Rightarrow> kvs" where
  "write_delete db table ref tx rid r s =
     sync_fts_index db table rid (Some r) True
       (update_indexes db table r rid IxDelete
         (journal tx (UndoDelete table rid r) (store_remove ref rid s)))"

definition delete_row ::
  "('x) env_scheme \<Rightarrow> (statement \<Rightarrow> (kvs, query_result) exec) \<Rightarrow> u32 \<Rightarrow> string
     \<Rightarrow> store_ref \<Rightarrow> u32 option \<Rightarrow> rowid \<times> row \<Rightarrow> (kvs, unit) exec" where
  "delete_row E run db table ref tx entry =
     (let (rid, r) = entry in
      ebind (fire_triggers E run db table TDelete TBefore (Some r) None) (\<lambda>_.
      ebind (emodify (write_delete db table ref tx rid r)) (\<lambda>_.
        fire_triggers E run db table TDelete TAfter (Some r) None)))"

definition delete_target ::
  "('x) env_scheme \<Rightarrow> object_name list \<Rightarrow> table_with_joins list \<Rightarrow> string option" where
  "delete_target E tables from =
     (case tables of
        t # _ \<Rightarrow> Some (object_name_to_string E t)
      | [] \<Rightarrow> (case from of f # _ \<Rightarrow> Some (factor_name E (tj_relation f)) | [] \<Rightarrow> None))"

definition execute_delete ::
  "('x) env_scheme \<Rightarrow> (statement \<Rightarrow> (kvs, query_result) exec) \<Rightarrow> u32 \<Rightarrow> object_name list
     \<Rightarrow> table_with_joins list \<Rightarrow> expr option \<Rightarrow> skvs_value list \<Rightarrow> u32 option \<Rightarrow> (kvs, query_result) exec" where
  "execute_delete E run db tables from selection ps tx s =
     (case delete_target E tables from of
        None \<Rightarrow> (Fail (EUnsupported ''DELETE without a target table''), s)
      | Some table \<Rightarrow>
          (case get_table_store s db table of
             None \<Rightarrow> (Fail (table_not_found table), s)
           | Some ref \<Rightarrow>
               ebind (elift (\<lambda>s. matching_rows E s db ref ps selection 0))
                 (\<lambda>entries.
                   ebind (eiter (delete_row E run db table ref tx) entries)
                     (\<lambda>_. eret (qr_affected_rows (word_of_nat (length entries))))) s))"

end
