(* ===== verification/Skvs_Ddl.thy ===== *)
theory Skvs_Ddl
  imports Skvs_Select
begin

text \<open>
  Schema statements (\<^verbatim>\<open>src/src/sql/ddl.rs\<close>, \<^verbatim>\<open>src/src/view.rs\<close>): CREATE, ALTER and DROP of
  tables, indexes, views, full-text tables and triggers, each a computation over the state that
  leaves the writes made before an error.
\<close>

section \<open>Columns\<close>

fun str_find :: "string \<Rightarrow> string \<Rightarrow> nat option" where
  "str_find [] p = (if p = [] then Some 0 else None)"
| "str_find (c # cs) p =
     (if starts_with (c # cs) p then Some 0 else map_option Suc (str_find cs p))"

definition str_contains :: "string \<Rightarrow> string \<Rightarrow> bool" where
  "str_contains s p \<longleftrightarrow> str_find s p \<noteq> None"

fun parse_data_type :: "sql_data_type \<Rightarrow> data_type" where
  "parse_data_type SqlInt = DInteger"
| "parse_data_type SqlInteger = DInteger"
| "parse_data_type SqlFloat = DReal"
| "parse_data_type SqlDouble = DReal"
| "parse_data_type SqlText = DText"
| "parse_data_type SqlString = DText"
| "parse_data_type SqlVarchar = DText"
| "parse_data_type SqlBlob = DBlob"
| "parse_data_type SqlOtherType = DBlob"

definition parse_column_option ::
  "('x) env_scheme \<Rightarrow> column_option \<Rightarrow> column_def \<Rightarrow> column_def outcome" where
  "parse_column_option E opt cd =
     (case opt of
        NotNullOpt \<Rightarrow> Done (cd\<lparr>cd_not_null := True\<rparr>)
      | UniqueOpt is_primary \<Rightarrow>
          Done (if is_primary
                then cd\<lparr>cd_unique := True, cd_primary_key := True, cd_not_null := True\<rparr>
                else cd\<lparr>cd_unique := True\<rparr>)
      | DefaultOpt e \<Rightarrow>
          obind (eval E None [] e 0) (\<lambda>(v, _). Done (cd\<lparr>cd_default := Some v\<rparr>))
      | CheckOpt e \<Rightarrow> Done (cd\<lparr>cd_check_expr := Some (expr_to_string E e)\<rparr>)
      | DialectOpt tokens \<Rightarrow>
          (let joined = to_uppercase (join '' '' tokens) in
           Done (if str_contains joined ''AUTOINCREMENT'' \<or> str_contains joined ''AUTO_INCREMENT''
                 then cd\<lparr>cd_auto_increment := True\<rparr> else cd))
      | OtherOpt \<Rightarrow> Done cd)"

fun parse_column_options ::
  "('x) env_scheme \<Rightarrow> column_option list \<Rightarrow> column_def \<Rightarrow> column_def outcome" where
  "parse_column_options E [] cd = Done cd"
| "parse_column_options E (opt # opts) cd =
     obind (parse_column_option E opt cd) (parse_column_options E opts)"

definition parse_column_def :: "('x) env_scheme \<Rightarrow> sql_column_def \<Rightarrow> column_def outcome" where
  "parse_column_def E col =
     parse_column_options E (sc_options col)
       \<lparr>cd_name = ident_to_string E (sc_name col), cd_data_type = parse_data_type (sc_data_type col),
        cd_primary_key = False, cd_auto_increment = False, cd_not_null = False,
        cd_default = None, cd_unique = False, cd_check_expr = None\<rparr>"

definition parse_fk_action :: "referential_action option \<Rightarrow> fk_action" where
  "parse_fk_action a =
     (case a of
        Some RaCascade \<Rightarrow> FkCascade
      | Some RaSetNull \<Rightarrow> FkSetNull
      | Some RaRestrict \<Rightarrow> FkRestrict
      | Some RaSetDefault \<Rightarrow> FkSetDefault
      | _ \<Rightarrow> FkNoAction)"

section \<open>CREATE TABLE\<close>

record table_parts =
  tp_columns :: "(string \<times> column_def) list"
  tp_primary_keys :: "string list"
  tp_foreign_keys :: "foreign_key_def list"
  tp_unique_groups :: "unique_group list"
  tp_table_checks :: "string list"

definition mark_columns ::
  "(column_def \<Rightarrow> column_def) \<Rightarrow> string list \<Rightarrow> (string \<times> column_def) list \<Rightarrow> (string \<times> column_def) list" where
  "mark_columns f names columns =
     fold (\<lambda>c cols. case map_of cols c of
             Some cd \<Rightarrow> AList.update c (f cd) cols | None \<Rightarrow> cols) names columns"

definition add_column_part :: "column_def \<Rightarrow> table_parts \<Rightarrow> table_parts" where
  "add_column_part cd p =
     p\<lparr>tp_columns := AList.update (cd_name cd) cd (tp_columns p),
       tp_primary_keys := tp_primary_keys p @ (if cd_primary_key cd then [cd_name cd] else [])\<rparr>"

definition add_constraint_part ::
  "('x) env_scheme \<Rightarrow> table_constraint \<Rightarrow> table_parts \<Rightarrow> table_parts" where
  "add_constraint_part E c p =
     (case c of
        UniqueC cols is_primary \<Rightarrow>
          (let names = map id_value cols;
               p1 = (if is_primary
                     then p\<lparr>tp_columns := mark_columns
                                (\<lambda>cd. cd\<lparr>cd_primary_key := True, cd_not_null := True\<rparr>) names (tp_columns p),
                            tp_primary_keys := tp_primary_keys p @ take 1 names\<rparr>
                     else p\<lparr>tp_columns := mark_columns (\<lambda>cd. cd\<lparr>cd_unique := True\<rparr>) names
                                (tp_columns p)\<rparr>)
           in p1\<lparr>tp_unique_groups := tp_unique_groups p1
                   @ [\<lparr>ug_columns = names, ug_is_primary = is_primary\<rparr>]\<rparr>)
      | ForeignKeyC cols foreign_table referred on_delete on_update \<Rightarrow>
          p\<lparr>tp_foreign_keys := tp_foreign_keys p @
              [\<lparr>fk_column = (case cols of i # _ \<Rightarrow> ident_to_string E i | [] \<Rightarrow> []),
                fk_ref_table = object_name_to_string E foreign_table,
                fk_ref_column = (case referred of i # _ \<Rightarrow> ident_to_string E i | [] \<Rightarrow> []),
                fk_on_delete = parse_fk_action on_delete,
                fk_on_update = parse_fk_action on_update\<rparr>]\<rparr>
      | CheckC e \<Rightarrow> p\<lparr>tp_table_checks := tp_table_checks p @ [expr_to_string E e]\<rparr>
      | OtherC \<Rightarrow> p)"

definition table_parts_of ::
  "('x) env_scheme \<Rightarrow> sql_column_def list \<Rightarrow> table_constraint list \<Rightarrow> table_parts outcome" where
  "table_parts_of E cols constraints =
     obind (omap (parse_column_def E) cols) (\<lambda>cds.
       Done (fold (add_constraint_part E) constraints
         (fold add_column_part cds
            \<lparr>tp_columns = [], tp_primary_keys = [], tp_foreign_keys = [],
             tp_unique_groups = [], tp_table_checks = []\<rparr>)))"

definition set_schema :: "u32 \<Rightarrow> string \<Rightarrow> table_schema \<Rightarrow> kvs \<Rightarrow> kvs" where
  "set_schema db name schema s =
     s\<lparr>k_schemas := (k_schemas s)(db := Some (AList.update name schema (outer (k_schemas s) [] db)))\<rparr>"

definition ensure_schemas :: "u32 \<Rightarrow> kvs \<Rightarrow> kvs" where
  "ensure_schemas db s = s\<lparr>k_schemas := (k_schemas s)(db := Some (outer (k_schemas s) [] db))\<rparr>"

text \<open>A fresh row store and a row id counter at 1 for a new table.\<close>

definition install_table :: "u32 \<Rightarrow> string \<Rightarrow> table_schema \<Rightarrow> kvs \<Rightarrow> kvs" where
  "install_table db name schema s =
     (let s1 = set_schema db name schema s;
          (ref, s2) = alloc_store s1;
          s3 = s2\<lparr>k_dbs := (k_dbs s2)(db := Some (AList.update name ref (outer (k_dbs s2) [] db)))\<rparr>
      in set_rowid_gen db name 1 s3)"

definition already_exists :: "string \<Rightarrow> skvs_error" where
  "already_exists name = ESchema (''Table '' @ name @ '' already exists'')"

definition create_table ::
  "('x) env_scheme \<Rightarrow> u32 \<Rightarrow> object_name \<Rightarrow> sql_column_def list \<Rightarrow> table_constraint list \<Rightarrow> bool
     \<Rightarrow> (kvs, query_result) exec" where
  "create_table E db name cols constraints if_not_exists s0 =
     (let table_name = object_name_to_string E name; s = ensure_schemas db s0 in
      if get_schema s db table_name \<noteq> None
      then (if if_not_exists then (Done qr_empty, s) else (Fail (already_exists table_name), s))
      else case table_parts_of E cols constraints of
        Done p \<Rightarrow>
          (Done qr_empty,
           install_table db table_name
             \<lparr>ts_name = table_name, ts_columns = tp_columns p,
              ts_rowid_column = (case tp_primary_keys p of c # _ \<Rightarrow> Some c | [] \<Rightarrow> None),
              ts_foreign_keys = tp_foreign_keys p, ts_indices = [], ts_triggers = [],
              ts_unique_groups = tp_unique_groups p, ts_table_checks = tp_table_checks p,
              ts_fts5_content_column = None\<rparr> s)
      | Fail e \<Rightarrow> (Fail e, s)
      | Panic \<Rightarrow> (Panic, s)
      | NoFuel \<Rightarrow> (NoFuel, s))"

section \<open>DROP TABLE\<close>

definition drop_in :: "string \<Rightarrow> (u32 \<Rightarrow> (string \<times> 'v) list option) \<Rightarrow> u32
    \<Rightarrow> (u32 \<Rightarrow> (string \<times> 'v) list option)" where
  "drop_in table f db = f(db := map_option (AList.delete table) (f db))"

definition forget_table :: "u32 \<Rightarrow> string \<Rightarrow> kvs \<Rightarrow> kvs" where
  "forget_table db table s =
     s\<lparr>k_dbs := drop_in table (k_dbs s) db,
       k_rowid_gens := drop_in table (k_rowid_gens s) db,
       k_triggers := drop_in table (k_triggers s) db,
       k_fts := (k_fts s)(db := map_option (\<lambda>m. m(table := None)) (k_fts s db)),
       k_views := drop_in table (k_views s) db\<rparr>"

definition drop_one_table :: "u32 \<Rightarrow> bool \<Rightarrow> string \<Rightarrow> (kvs, unit) exec" where
  "drop_one_table db if_exists table s0 =
     (let s = ensure_schemas db s0;
          s1 = s\<lparr>k_schemas := drop_in table (k_schemas s) db\<rparr>
      in if get_schema s db table = None \<and> \<not> if_exists
         then (Fail (table_not_found table), s1)
         else (Done (), forget_table db table s1))"

definition drop_table ::
  "('x) env_scheme \<Rightarrow> u32 \<Rightarrow> object_name list \<Rightarrow> bool \<Rightarrow> (kvs, query_result) exec" where
  "drop_table E db names if_exists =
     ebind (eiter (\<lambda>n. drop_one_table db if_exists (object_name_to_string E n)) names)
       (\<lambda>_. eret qr_empty)"

section \<open>ALTER TABLE\<close>

definition map_rows :: "u32 \<Rightarrow> string \<Rightarrow> (row \<Rightarrow> row) \<Rightarrow> kvs \<Rightarrow> kvs" where
  "map_rows db table f s =
     (case get_table_store s db table of
        Some ref \<Rightarrow> s\<lparr>k_heap := (k_heap s)(ref := map (\<lambda>(rid, r). (rid, f r)) (k_heap s ref))\<rparr>
      | None \<Rightarrow> s)"

text \<open>
  \<open>IndexMap::shift_insert\<close>: a new key goes in at the position; an existing one moves there, and
  then the position must be one of an existing entry.
\<close>

definition shift_insert :: "nat \<Rightarrow> 'k \<Rightarrow> 'v \<Rightarrow> ('k \<times> 'v) list \<Rightarrow> ('k \<times> 'v) list outcome" where
  "shift_insert i k v m =
     (if map_of m k = None
      then (if i \<le> length m then Done (take i m @ (k, v) # drop i m) else Panic)
      else (if i < length m
            then (let m' = AList.delete k m in Done (take i m' @ (k, v) # drop i m')) else Panic))"

fun position_of :: "'k \<Rightarrow> ('k \<times> 'v) list \<Rightarrow> nat" where
  "position_of k [] = 0"
| "position_of k ((k', v) # m) = (if k' = k then 0 else Suc (position_of k m))"

definition rename_row_column :: "string \<Rightarrow> string \<Rightarrow> row \<Rightarrow> row" where
  "rename_row_column old new r =
     (case map_of r old of
        Some v \<Rightarrow> AList.update new v (AList.delete old r)
      | None \<Rightarrow> r)"

definition add_column :: "('x) env_scheme \<Rightarrow> u32 \<Rightarrow> string \<Rightarrow> sql_column_def \<Rightarrow> (kvs, string) exec" where
  "add_column E db table col s =
     (case parse_column_def E col of
        Done cd \<Rightarrow>
          (case get_schema s db table of
             None \<Rightarrow> (Panic, s)
           | Some schema \<Rightarrow>
               (if contains_key (ts_columns schema) (cd_name cd)
                then (Fail (ESchema (''Column '' @ cd_name cd @ '' already exists'')), s)
                else
                  (let default = (case cd_default cd of Some v \<Rightarrow> v | None \<Rightarrow> VNull);
                       s1 = map_rows db table (AList.update (cd_name cd) default) s
                   in (Done table,
                       set_schema db table
                         (schema\<lparr>ts_columns := AList.update (cd_name cd) cd (ts_columns schema)\<rparr>) s1))))
      | Fail e \<Rightarrow> (Fail e, s)
      | Panic \<Rightarrow> (Panic, s)
      | NoFuel \<Rightarrow> (NoFuel, s))"

definition drop_column :: "u32 \<Rightarrow> string \<Rightarrow> string \<Rightarrow> bool \<Rightarrow> (kvs, string) exec" where
  "drop_column db table col if_exists s =
     (case get_schema s db table of
        None \<Rightarrow> (Panic, s)
      | Some schema \<Rightarrow>
          (if \<not> contains_key (ts_columns schema) col \<and> \<not> if_exists
           then (Fail (ESchema (''Column '' @ col @ '' not found'')), s)
           else
             (let schema' = schema\<lparr>ts_columns := AList.delete col (ts_columns schema),
                    ts_rowid_column := (if ts_rowid_column schema = Some col then None
                                        else ts_rowid_column schema)\<rparr>;
                  s1 = map_rows db table (AList.delete col) s
              in (Done table, set_schema db table schema' s1))))"

definition rename_column :: "u32 \<Rightarrow> string \<Rightarrow> string \<Rightarrow> string \<Rightarrow> (kvs, string) exec" where
  "rename_column db table old new s =
     (case get_schema s db table of
        None \<Rightarrow> (Panic, s)
      | Some schema \<Rightarrow>
          (case map_of (ts_columns schema) old of
             None \<Rightarrow> (Fail (ESchema (''Column '' @ old @ '' not found'')), s)
           | Some cd \<Rightarrow>
               (let i = position_of old (ts_columns schema);
                    cols = AList.delete old (ts_columns schema)
                in case shift_insert (min i (length cols)) new (cd\<lparr>cd_name := new\<rparr>) cols of
                     Done cols' \<Rightarrow>
                       (let schema' = schema\<lparr>ts_columns := cols',
                              ts_rowid_column := (if ts_rowid_column schema = Some old
                                                  then Some new else ts_rowid_column schema)\<rparr>;
                            s1 = map_rows db table (rename_row_column old new) s
                        in (Done table, set_schema db table schema' s1))
                   | Fail e \<Rightarrow> (Fail e, s)
                   | Panic \<Rightarrow> (Panic, s)
                   | NoFuel \<Rightarrow> (NoFuel, s))))"

definition move_key :: "string \<Rightarrow> string \<Rightarrow> (string \<times> 'v) list \<Rightarrow> (string \<times> 'v) list" where
  "move_key old new m =
     (case map_of m old of
        Some v \<Rightarrow> AList.update new v (AList.delete old m)
      | None \<Rightarrow> m)"

definition move_in :: "string \<Rightarrow> string \<Rightarrow> (u32 \<Rightarrow> (string \<times> 'v) list option) \<Rightarrow> u32
    \<Rightarrow> (u32 \<Rightarrow> (string \<times> 'v) list option)" where
  "move_in old new f db = f(db := map_option (move_key old new) (f db))"

definition rename_table :: "u32 \<Rightarrow> string \<Rightarrow> string \<Rightarrow> (kvs, string) exec" where
  "rename_table db table new_table s =
     (Done new_table,
      s\<lparr>k_schemas := move_in table new_table (k_schemas s) db,
        k_dbs := move_in table new_table (k_dbs s) db,
        k_rowid_gens := move_in table new_table (k_rowid_gens s) db\<rparr>)"

text \<open>One operation; the result is the table name the following ones work on.\<close>

definition alter_step :: "('x) env_scheme \<Rightarrow> u32 \<Rightarrow> alter_op \<Rightarrow> string \<Rightarrow> (kvs, string) exec" where
  "alter_step E db op table =
     (case op of
        AddColumn col \<Rightarrow> add_column E db table col
      | DropColumn col if_exists \<Rightarrow> drop_column db table (id_value col) if_exists
      | RenameColumn old new \<Rightarrow> rename_column db table (id_value old) (id_value new)
      | RenameTable new_name \<Rightarrow> rename_table db table (object_name_to_string E new_name)
      | OtherAlter rendered \<Rightarrow>
          efail (EUnsupported (''ALTER TABLE operation not supported: '' @ rendered)))"

fun alter_steps :: "('x) env_scheme \<Rightarrow> u32 \<Rightarrow> alter_op list \<Rightarrow> string \<Rightarrow> (kvs, string) exec" where
  "alter_steps E db [] table = eret table"
| "alter_steps E db (op # ops) table = ebind (alter_step E db op table) (alter_steps E db ops)"

definition db_not_found :: "u32 \<Rightarrow> skvs_error" where
  "db_not_found db = ESchema (''Database '' @ show_int (uint db) @ '' not found'')"

definition alter_table ::
  "('x) env_scheme \<Rightarrow> u32 \<Rightarrow> object_name \<Rightarrow> bool \<Rightarrow> alter_op list \<Rightarrow> (kvs, query_result) exec" where
  "alter_table E db name if_exists operations s =
     (let table = object_name_to_string E name in
      if k_schemas s db = None then (Fail (db_not_found db), s)
      else if get_schema s db table = None
      then (if if_exists then (Done qr_empty, s) else (Fail (table_not_found table), s))
      else ebind (alter_steps E db operations table) (\<lambda>_. eret qr_empty) s)"

section \<open>Indexes\<close>

definition create_index ::
  "('x) env_scheme \<Rightarrow> u32 \<Rightarrow> object_name option \<Rightarrow> object_name \<Rightarrow> expr list \<Rightarrow> bool \<Rightarrow> bool
     \<Rightarrow> (kvs, query_result) exec" where
  "create_index E db name table_name columns uniq if_not_exists s =
     (let table = object_name_to_string E table_name in
      if k_schemas s db = None then (Fail (db_not_found db), s)
      else case get_schema s db table of
        None \<Rightarrow> (Fail (table_not_found table), s)
      | Some schema \<Rightarrow>
          (let index_name = (case name of
                               Some n \<Rightarrow> object_name_to_string E n
                             | None \<Rightarrow> ''idx_'' @ table @ ''_'' @ show_int (int (length columns)))
           in if list_ex (\<lambda>i. idx_name i = index_name) (ts_indices schema)
              then (if if_not_exists then (Done qr_empty, s)
                    else (Fail (ESchema (''Index '' @ index_name @ '' already exists'')), s))
              else
                (let new_index = \<lparr>idx_name = index_name, idx_columns = map (expr_to_string E) columns,
                                  idx_unique = uniq, idx_partial_where = None,
                                  idx_is_expression = False\<rparr>;
                     s1 = set_schema db table
                            (schema\<lparr>ts_indices := ts_indices schema @ [new_index]\<rparr>) s
                 in (Done qr_empty, rebuild_index E db table new_index s1))))"

definition drop_one_index :: "('x) env_scheme \<Rightarrow> u32 \<Rightarrow> bool \<Rightarrow> string \<Rightarrow> (kvs, unit) exec" where
  "drop_one_index E db if_exists index_name s =
     (case List.find (\<lambda>(_, sch). list_ex (\<lambda>i. idx_name i = index_name) (ts_indices sch))
             (iter_schemas E (outer (k_schemas s) [] db)) of
        Some (table, sch) \<Rightarrow>
          (Done (),
           drop_index_store db table index_name
             (set_schema db table
                (sch\<lparr>ts_indices := filter (\<lambda>i. idx_name i \<noteq> index_name) (ts_indices sch)\<rparr>) s))
      | None \<Rightarrow>
          (if if_exists then (Done (), s)
           else (Fail (ESchema (''Index '' @ index_name @ '' not found'')), s)))"

definition drop_index ::
  "('x) env_scheme \<Rightarrow> u32 \<Rightarrow> object_name list \<Rightarrow> bool \<Rightarrow> (kvs, query_result) exec" where
  "drop_index E db names if_exists s =
     (if k_schemas s db = None then (Fail (db_not_found db), s)
      else ebind (eiter (\<lambda>n. drop_one_index E db if_exists (object_name_to_string E n)) names)
             (\<lambda>_. eret qr_empty) s)"

section \<open>Views\<close>

definition view_create :: "('x) env_scheme \<Rightarrow> u32 \<Rightarrow> string \<Rightarrow> string \<Rightarrow> (kvs, unit) exec" where
  "view_create E db view_name query s =
     (case parse_sql E query of
        Inl e \<Rightarrow> (Fail (ESqlParse e), s)
      | Inr [SQuery q] \<Rightarrow> (Done (), add_view db view_name query s)
      | Inr [_] \<Rightarrow> (Fail (EUnsupported ''View must be a SELECT query''), s)
      | Inr _ \<Rightarrow> (Fail (EUnsupported ''View definition must be a single SELECT''), s))"

definition create_view ::
  "('x) env_scheme \<Rightarrow> u32 \<Rightarrow> object_name \<Rightarrow> query \<Rightarrow> (kvs, query_result) exec" where
  "create_view E db name q =
     ebind (view_create E db (object_name_to_string E name) (query_to_string E q))
       (\<lambda>_. eret qr_empty)"

definition drop_one_view :: "u32 \<Rightarrow> bool \<Rightarrow> string \<Rightarrow> (kvs, unit) exec" where
  "drop_one_view db if_exists name s =
     (case remove_view db name s of
        (Fail e, s') \<Rightarrow> (if if_exists then (Done (), s') else (Fail e, s'))
      | (r, s') \<Rightarrow> (r, s'))"

definition drop_view ::
  "('x) env_scheme \<Rightarrow> u32 \<Rightarrow> object_name list \<Rightarrow> bool \<Rightarrow> (kvs, query_result) exec" where
  "drop_view E db names if_exists =
     ebind (eiter (\<lambda>n. drop_one_view db if_exists (object_name_to_string E n)) names)
       (\<lambda>_. eret qr_empty)"

section \<open>Full-text tables\<close>

definition text_column :: "string \<Rightarrow> column_def" where
  "text_column name =
     \<lparr>cd_name = name, cd_data_type = DText, cd_primary_key = False, cd_auto_increment = False,
      cd_not_null = False, cd_default = None, cd_unique = False, cd_check_expr = None\<rparr>"

definition create_virtual_table ::
  "('x) env_scheme \<Rightarrow> u32 \<Rightarrow> object_name \<Rightarrow> bool \<Rightarrow> ident \<Rightarrow> ident list \<Rightarrow> (kvs, query_result) exec" where
  "create_virtual_table E db obj_name if_not_exists module_name module_args s0 =
     (let name = object_name_to_string E obj_name;
          module = to_lowercase (ident_to_string E module_name)
      in if module \<noteq> ''fts5''
         then (Fail (EUnsupported (''Virtual table module '' @ [CHR 0x27] @ module @ [CHR 0x27]
                 @ '' not supported (only fts5)'')), s0)
         else
           (let s = ensure_schemas db s0 in
            if get_schema s db name \<noteq> None
            then (if if_not_exists then (Done qr_empty, s) else (Fail (already_exists name), s))
            else
              (let col_names = map id_value module_args;
                   content_column = (case col_names of c # _ \<Rightarrow> c | [] \<Rightarrow> ''content'');
                   columns = fold (\<lambda>c cols. AList.update c (text_column c) cols) col_names []
               in (Done qr_empty,
                   register_fts_table db name (fts_table_new name content_column)
                     (install_table db name
                        \<lparr>ts_name = name, ts_columns = columns, ts_rowid_column = None,
                         ts_foreign_keys = [], ts_indices = [], ts_triggers = [],
                         ts_unique_groups = [], ts_table_checks = [],
                         ts_fts5_content_column = Some content_column\<rparr> s)))))"

section \<open>CREATE TRIGGER, parsed by hand\<close>

fun str_rfind :: "string \<Rightarrow> string \<Rightarrow> nat option" where
  "str_rfind [] p = (if p = [] then Some 0 else None)"
| "str_rfind (c # cs) p =
     (case str_rfind cs p of
        Some i \<Rightarrow> Some (Suc i)
      | None \<Rightarrow> (if starts_with (c # cs) p then Some 0 else None))"

text \<open>Slicing panics when the bounds are out of order or out of range.\<close>

definition str_slice :: "string \<Rightarrow> nat \<Rightarrow> nat \<Rightarrow> string outcome" where
  "str_slice s a b = (if a \<le> b \<and> b \<le> length s then Done (take (b - a) (drop a s)) else Panic)"

fun split_whitespace :: "string \<Rightarrow> string \<Rightarrow> string list" where
  "split_whitespace acc [] = (if acc = [] then [] else [rev acc])"
| "split_whitespace acc (c # cs) =
     (if is_whitespace c
      then (if acc = [] then split_whitespace [] cs else rev acc # split_whitespace [] cs)
      else split_whitespace (c # acc) cs)"

definition trim_table_name :: "string \<Rightarrow> string" where
  "trim_table_name w =
     (let p = (\<lambda>c. c = CHR '','' \<or> c = CHR '';'')
      in rev (dropWhile p (rev (dropWhile p w))))"

fun next_word :: "string list \<Rightarrow> (string \<times> string list) option" where
  "next_word [] = None"
| "next_word (w # ws) = Some (w, ws)"

definition malformed :: "'a outcome" where
  "malformed = Fail (ESqlParse ''Malformed CREATE TRIGGER statement'')"

definition take_word :: "string list \<Rightarrow> (string \<times> string list) outcome" where
  "take_word ws = (case next_word ws of Some wr \<Rightarrow> Done wr | None \<Rightarrow> malformed)"

definition parse_timing :: "string \<Rightarrow> string list \<Rightarrow> (trigger_timing \<times> string list) outcome" where
  "parse_timing w ws =
     (if w = ''BEFORE'' then Done (TBefore, ws)
      else if w = ''AFTER'' then Done (TAfter, ws)
      else if w = ''INSTEAD'' then Done (TInsteadOf, drop 1 ws)
      else malformed)"

definition parse_event :: "string \<Rightarrow> trigger_event outcome" where
  "parse_event w =
     (if w = ''INSERT'' then Done TInsert
      else if w = ''UPDATE'' then Done TUpdate
      else if w = ''DELETE'' then Done TDelete
      else malformed)"

text \<open>The optional condition between \<open> WHEN \<close> and \<open> BEGIN \<close>.\<close>

definition parse_condition :: "string \<Rightarrow> string \<Rightarrow> string option outcome" where
  "parse_condition sql upper =
     (case str_find upper '' WHEN '' of
        None \<Rightarrow> Done None
      | Some when_pos \<Rightarrow>
          (case str_find (drop when_pos upper) '' BEGIN '' of
             None \<Rightarrow> Done None
           | Some p \<Rightarrow>
               obind (str_slice sql (when_pos + 6) (when_pos + p)) (\<lambda>c. Done (Some (trim c)))))"

definition parse_body :: "string \<Rightarrow> string \<Rightarrow> string outcome" where
  "parse_body sql upper =
     (case str_find upper ''BEGIN'' of
        None \<Rightarrow> malformed
      | Some begin_pos \<Rightarrow>
          (case str_rfind upper ''END'' of
             None \<Rightarrow> malformed
           | Some end_pos \<Rightarrow>
               (if end_pos \<le> begin_pos then malformed
                else obind (str_slice sql (begin_pos + 5) end_pos) (\<lambda>b. Done (trim b)))))"

definition parse_trigger :: "string \<Rightarrow> trigger_def outcome" where
  "parse_trigger sql0 =
     (let sql = trim sql0; upper = to_uppercase sql in
      if \<not> starts_with upper ''CREATE TRIGGER'' then malformed
      else
        obind (take_word (split_whitespace [] (drop (length ''CREATE TRIGGER'') sql))) (\<lambda>(name, ws).
        obind (take_word ws) (\<lambda>(timing_word, ws).
        obind (parse_timing (to_uppercase timing_word) ws) (\<lambda>(timing, ws).
        obind (take_word ws) (\<lambda>(event_word, ws).
        obind (parse_event (to_uppercase event_word)) (\<lambda>event.
        obind (take_word ws) (\<lambda>(on_word, ws).
          if to_uppercase on_word \<noteq> ''ON'' then malformed
          else
            obind (take_word ws) (\<lambda>(table_word, _).
              (let remaining = drop (case str_find upper '' ON '' of Some i \<Rightarrow> i + 4 | None \<Rightarrow> 0) upper in
               obind (parse_condition sql upper) (\<lambda>condition.
               obind (parse_body sql upper) (\<lambda>body.
                 Done \<lparr>tr_name = name, tr_timing = timing, tr_event = event,
                       tr_table = trim_table_name table_word,
                       tr_for_each_row = str_contains remaining ''FOR EACH ROW'',
                       tr_condition = condition, tr_body = body\<rparr>)))))))))))"

definition create_trigger :: "u32 \<Rightarrow> string \<Rightarrow> (kvs, query_result) exec" where
  "create_trigger db sql =
     ebind (elift (\<lambda>_. parse_trigger sql)) (\<lambda>trg.
       ebind (emodify (add_trigger db (tr_table trg) trg)) (\<lambda>_. eret qr_empty))"

end
