(* ===== verification/Skvs_Engine.thy ===== *)
theory Skvs_Engine
  imports Skvs_Dml Skvs_Ddl
begin

text \<open>
  The dispatcher of \<^verbatim>\<open>src/src/sql/mod.rs\<close>. Trigger bodies run through
  \<open>execute_single_statement\<close> again; the depth of that recursion (and of nested views) is the
  fuel \<open>n\<close>, \<open>NoFuel\<close> where the program would recurse deeper. \<open>execute\<close> wraps an autocommit
  write in an internal transaction.
\<close>

definition run_drop ::
  "('x) env_scheme \<Rightarrow> u32 \<Rightarrow> object_type \<Rightarrow> object_name list \<Rightarrow> bool \<Rightarrow> (kvs, query_result) exec" where
  "run_drop E db ot names if_exists =
     (case ot of
        ObjTable \<Rightarrow> drop_table E db names if_exists
      | ObjIndex \<Rightarrow> drop_index E db names if_exists
      | ObjView \<Rightarrow> drop_view E db names if_exists
      | ObjOther dbg \<Rightarrow> efail (EUnsupported (''DROP '' @ dbg @ '' not implemented'')))"

fun execute_single_statement ::
  "('x) env_scheme \<Rightarrow> nat \<Rightarrow> u32 \<Rightarrow> statement \<Rightarrow> skvs_value list \<Rightarrow> u32 option \<Rightarrow> (kvs, query_result) exec" where
  "execute_single_statement E 0 db stmt ps tx = (\<lambda>s. (NoFuel, s))"
| "execute_single_statement E (Suc n) db stmt ps tx =
     (let run = (\<lambda>st. execute_single_statement E n db st [] tx) in
      case stmt of
        SQuery q \<Rightarrow> elift (\<lambda>s. execute_select E (Suc n) s db q ps)
      | SInsert table columns source \<Rightarrow> execute_insert E (Suc n) run db table columns source ps tx
      | SUpdate relation assignments selection \<Rightarrow>
          execute_update E run db relation assignments selection ps tx
      | SDelete tables from selection \<Rightarrow> execute_delete E run db tables from selection ps tx
      | SCreateTable name cols constraints ine \<Rightarrow> create_table E db name cols constraints ine
      | SAlterTable name if_exists ops \<Rightarrow> alter_table E db name if_exists ops
      | SCreateIndex name table columns uniq ine \<Rightarrow> create_index E db name table columns uniq ine
      | SCreateView name q \<Rightarrow> create_view E db name q
      | SCreateVirtualTable name ine mname args \<Rightarrow> create_virtual_table E db name ine mname args
      | SDrop ot names if_exists \<Rightarrow> run_drop E db ot names if_exists
      | OtherStatement \<Rightarrow>
          efail (EUnsupported (''Statement not implemented: '' @ statement_debug E stmt))
      | _ \<Rightarrow> efail (EUnsupported
          ''BEGIN/COMMIT/ROLLBACK must go through SqlEngine::execute, not execute_single_statement''))"

fun is_dml :: "statement \<Rightarrow> bool" where
  "is_dml (SInsert _ _ _) = True"
| "is_dml (SUpdate _ _ _) = True"
| "is_dml (SDelete _ _ _) = True"
| "is_dml _ = False"

text \<open>Commit on success, roll back on an error; a panic unwinds past both.\<close>

definition run_atomic :: "u32 \<Rightarrow> (u32 \<Rightarrow> (kvs, query_result) exec) \<Rightarrow> (kvs, query_result) exec" where
  "run_atomic db body =
     ebind (txn_begin db) (\<lambda>shadow s.
       case body shadow s of
         (Done r, s1) \<Rightarrow> (Done r, snd (txn_commit shadow s1))
       | (Fail e, s1) \<Rightarrow> (Fail e, snd (txn_rollback shadow s1))
       | (Panic, s1) \<Rightarrow> (Panic, s1)
       | (NoFuel, s1) \<Rightarrow> (NoFuel, s1))"

definition execute_statement ::
  "('x) env_scheme \<Rightarrow> nat \<Rightarrow> u32 \<Rightarrow> statement \<Rightarrow> skvs_value list \<Rightarrow> u32 option \<Rightarrow> (kvs, query_result) exec" where
  "execute_statement E n db stmt ps tx =
     (case stmt of
        SStartTransaction \<Rightarrow> ebind (txn_begin db) (\<lambda>i. eret (qr_began i))
      | SCommit \<Rightarrow>
          (case tx of
             None \<Rightarrow> efail (ETransaction ''COMMIT with no active transaction id'')
           | Some i \<Rightarrow> ebind (txn_commit i) (\<lambda>_. eret qr_empty))
      | SRollback \<Rightarrow>
          (case tx of
             None \<Rightarrow> efail (ETransaction ''ROLLBACK with no active transaction id'')
           | Some i \<Rightarrow> ebind (txn_rollback i) (\<lambda>_. eret qr_empty))
      | _ \<Rightarrow>
          (if tx = None \<and> is_dml stmt
           then run_atomic db (\<lambda>shadow. execute_single_statement E n db stmt ps (Some shadow))
           else execute_single_statement E n db stmt ps tx))"

definition execute ::
  "('x) env_scheme \<Rightarrow> nat \<Rightarrow> u32 \<Rightarrow> string \<Rightarrow> skvs_value list \<Rightarrow> u32 option \<Rightarrow> (kvs, query_result) exec" where
  "execute E n db sql ps tx =
     (if starts_with (to_uppercase (trim_start sql)) ''CREATE TRIGGER''
      then create_trigger db sql
      else case parse_sql E sql of
        Inl e \<Rightarrow> efail (ESqlParse e)
      | Inr [stmt] \<Rightarrow> execute_statement E n db stmt ps tx
      | Inr _ \<Rightarrow> efail (EUnsupported ''Multiple statements not supported''))"

end
