(* ===== verification/Skvs_Journal.thy ===== *)
theory Skvs_Journal
  imports Skvs_Engine
begin

text \<open>
  What the undo journal of a transaction holds. The abstract state is \<open>row_at\<close>, the row under an
  id of a table. \<open>journaled db i s s'\<close> is the relation every handler keeps from the state it
  starts in to the state it leaves, on every outcome: nothing but rows, indexes, counters and the
  journal of \<open>i\<close> changed, new rows have new ids, and the journal's first entry on a row is the
  row as it was (\<open>journal_faithful\<close>). The locale \<open>row_runner\<close> proves it for the row
  handlers over any runner of trigger bodies that keeps it; \<open>Skvs_Atomicity\<close> interprets it on the
  engine.
\<close>

section \<open>Rows, seen from outside\<close>

text \<open>The row under an id of a table, if any: the abstract state the undo journal is about.\<close>

definition row_at :: "kvs \<Rightarrow> u32 \<Rightarrow> string \<Rightarrow> rowid \<Rightarrow> row option" where
  "row_at s db t rid =
     (case get_table_store s db t of Some ref \<Rightarrow> store_get s ref rid | None \<Rightarrow> None)"

text \<open>No two tables share a row store.\<close>

definition stores_distinct :: "kvs \<Rightarrow> bool" where
  "stores_distinct s \<longleftrightarrow>
     (\<forall>db t db' t' ref. get_table_store s db t = Some ref \<longrightarrow> get_table_store s db' t' = Some ref \<longrightarrow>
        db = db' \<and> t = t')"

lemma get_table_store_cong:
  "k_dbs s = k_dbs s' \<Longrightarrow> get_table_store s db t = get_table_store s' db t"
  by (simp add: get_table_store_def)

lemma row_at_cong:
  "k_dbs s = k_dbs s' \<Longrightarrow> k_heap s = k_heap s' \<Longrightarrow> row_at s db t rid = row_at s' db t rid"
  unfolding row_at_def store_get_def by (simp add: get_table_store_cong [of s s'] split: option.split)

lemma stores_distinct_cong: "k_dbs s = k_dbs s' \<Longrightarrow> stores_distinct s = stores_distinct s'"
  by (simp add: stores_distinct_def get_table_store_cong [of s s'])

lemma stores_distinct_iff:
  "stores_distinct s \<Longrightarrow> get_table_store s db t = Some ref \<Longrightarrow>
   get_table_store s db' t' = Some ref \<longleftrightarrow> db' = db \<and> t' = t"
  unfolding stores_distinct_def by blast

lemma store_fields [simp]:
  "k_dbs (store_insert ref rid r s) = k_dbs s" "k_dbs (store_remove ref rid s) = k_dbs s"
  "k_schemas (store_insert ref rid r s) = k_schemas s" "k_schemas (store_remove ref rid s) = k_schemas s"
  "k_txns (store_insert ref rid r s) = k_txns s" "k_txns (store_remove ref rid s) = k_txns s"
  "k_rowid_gens (store_insert ref rid r s) = k_rowid_gens s"
  "k_rowid_gens (store_remove ref rid s) = k_rowid_gens s"
  "k_triggers (store_insert ref rid r s) = k_triggers s"
  "k_triggers (store_remove ref rid s) = k_triggers s"
  "k_views (store_insert ref rid r s) = k_views s" "k_views (store_remove ref rid s) = k_views s"
  by (simp_all add: store_insert_def store_remove_def)

lemma get_table_store_write [simp]:
  "get_table_store (store_insert ref rid r s) db t = get_table_store s db t"
  "get_table_store (store_remove ref rid s) db t = get_table_store s db t"
  by (rule get_table_store_cong; simp)+

lemma store_get_write:
  "store_get (store_insert ref rid r s) ref' rid' =
     (if ref' = ref \<and> rid' = rid then Some r else store_get s ref' rid')"
  "store_get (store_remove ref rid s) ref' rid' =
     (if ref' = ref \<and> rid' = rid then None else store_get s ref' rid')"
  by (auto simp: store_get_def store_insert_def store_remove_def)

lemma row_at_store_insert:
  assumes "stores_distinct s" "get_table_store s db t = Some ref"
  shows "row_at (store_insert ref rid r s) db' t' rid' =
     (if db' = db \<and> t' = t \<and> rid' = rid then Some r else row_at s db' t' rid')"
proof (cases "get_table_store s db' t'")
  case None
  then show ?thesis using assms(2) by (auto simp: row_at_def)
next
  case (Some ref')
  then show ?thesis
    using stores_distinct_iff [OF assms, of db' t'] assms(2)
    by (auto simp: row_at_def store_get_write)
qed

lemma row_at_store_remove:
  assumes "stores_distinct s" "get_table_store s db t = Some ref"
  shows "row_at (store_remove ref rid s) db' t' rid' =
     (if db' = db \<and> t' = t \<and> rid' = rid then None else row_at s db' t' rid')"
proof (cases "get_table_store s db' t'")
  case None
  then show ?thesis using assms(2) by (auto simp: row_at_def)
next
  case (Some ref')
  then show ?thesis
    using stores_distinct_iff [OF assms, of db' t'] assms(2)
    by (auto simp: row_at_def store_get_write)
qed

section \<open>Replaying a journal\<close>

fun undo_table :: "undo_op \<Rightarrow> string" where
  "undo_table (UndoInsert t rid) = t"
| "undo_table (UndoDelete t rid r) = t"
| "undo_table (UndoUpdate t rid r) = t"

fun undo_rowid :: "undo_op \<Rightarrow> rowid" where
  "undo_rowid (UndoInsert t rid) = rid"
| "undo_rowid (UndoDelete t rid r) = rid"
| "undo_rowid (UndoUpdate t rid r) = rid"

text \<open>The row an entry puts back.\<close>

fun undo_row :: "undo_op \<Rightarrow> row option" where
  "undo_row (UndoInsert t rid) = None"
| "undo_row (UndoDelete t rid r) = Some r"
| "undo_row (UndoUpdate t rid r) = Some r"

abbreviation undo_key :: "undo_op \<Rightarrow> string \<times> rowid" where
  "undo_key op \<equiv> (undo_table op, undo_rowid op)"

lemma row_at_upkeep [simp]:
  "row_at (update_indexes db t r rid op s) db' t' rid' = row_at s db' t' rid'"
  "row_at (sync_fts_index db t rid ro d s) db' t' rid' = row_at s db' t' rid'"
  "row_at (sync_fts_index_change db t rid ro rn s) db' t' rid' = row_at s db' t' rid'"
  by (rule row_at_cong; simp)+

lemma undo_one_shape [simp]:
  "k_dbs (undo_one db op s) = k_dbs s" "k_schemas (undo_one db op s) = k_schemas s"
  "k_txns (undo_one db op s) = k_txns s" "k_triggers (undo_one db op s) = k_triggers s"
  "k_views (undo_one db op s) = k_views s" "k_rowid_gens (undo_one db op s) = k_rowid_gens s"
  by (cases op; simp add: Let_def split: option.split)+

lemma undo_one_row_at:
  assumes "stores_distinct s"
  shows "row_at (undo_one db op s) db' t rid =
     (if db' = db \<and> undo_key op = (t, rid) \<and> get_table_store s db t \<noteq> None then undo_row op
      else row_at s db' t rid)"
proof (cases "get_table_store s db (undo_table op)")
  case None
  then show ?thesis by (cases op) auto
next
  case (Some ref)
  note ins = row_at_store_insert [OF assms Some] and rm = row_at_store_remove [OF assms Some]
  show ?thesis
  proof (cases op)
    case (UndoInsert t' rid')
    have "row_at s db t' rid' = store_get s ref rid'"
      using Some UndoInsert by (simp add: row_at_def)
    then show ?thesis using Some UndoInsert rm by (auto split: option.split)
  next
    case (UndoDelete t' rid' r)
    then show ?thesis using Some ins by auto
  next
    case (UndoUpdate t' rid' r)
    then show ?thesis using Some ins by (auto simp: Let_def split: option.split)
  qed
qed

lemma undo_all_Cons: "undo_all db (op # ops) s = undo_one db op (undo_all db ops s)"
  by (simp add: undo_all_def)

lemma undo_all_Nil [simp]: "undo_all db [] s = s"
  by (simp add: undo_all_def)

lemma undo_all_shape [simp]:
  "k_dbs (undo_all db ops s) = k_dbs s" "k_schemas (undo_all db ops s) = k_schemas s"
  "k_txns (undo_all db ops s) = k_txns s" "k_triggers (undo_all db ops s) = k_triggers s"
  "k_views (undo_all db ops s) = k_views s" "k_rowid_gens (undo_all db ops s) = k_rowid_gens s"
  by (induction ops) (simp_all add: undo_all_Cons)

text \<open>The earliest entry of a row decides.\<close>

lemma undo_all_row_at:
  assumes "stores_distinct s"
  shows "row_at (undo_all db ops s) db' t rid =
     (if db' = db \<and> get_table_store s db t \<noteq> None
      then (case List.find (\<lambda>op. undo_key op = (t, rid)) ops of
              Some op \<Rightarrow> undo_row op | None \<Rightarrow> row_at s db' t rid)
      else row_at s db' t rid)"
proof (induction ops)
  case (Cons op ops)
  have "stores_distinct (undo_all db ops s)"
    using assms stores_distinct_cong [of "undo_all db ops s" s] by simp
  moreover have "get_table_store (undo_all db ops s) db t = get_table_store s db t"
    by (rule get_table_store_cong) simp
  ultimately have "row_at (undo_one db op (undo_all db ops s)) db' t rid =
     (if db' = db \<and> undo_key op = (t, rid) \<and> get_table_store s db t \<noteq> None then undo_row op
      else row_at (undo_all db ops s) db' t rid)"
    using undo_one_row_at [of "undo_all db ops s" db op db' t rid] by simp
  with Cons.IH show ?case
    unfolding undo_all_Cons by (cases "get_table_store s db t"; cases "undo_key op = (t, rid)") auto
qed simp

section \<open>Journaled runs\<close>

text \<open>No row id counter has wrapped.\<close>

definition gens_bounded :: "u32 \<Rightarrow> kvs \<Rightarrow> bool" where
  "gens_bounded db s \<longleftrightarrow> (\<forall>t. rowid_gen s db t \<le> 2 ^ 64)"

text \<open>Tables do not share stores, ids are unique in a store and below the table's counter.\<close>

definition heap_wf :: "kvs \<Rightarrow> bool" where
  "heap_wf s \<longleftrightarrow> (\<forall>ref. wf_alist (k_heap s ref))"

definition ids_issued :: "kvs \<Rightarrow> bool" where
  "ids_issued s \<longleftrightarrow> (\<forall>db t rid. row_at s db t rid \<noteq> None \<longrightarrow> unat rid < rowid_gen s db t)"

definition sound :: "kvs \<Rightarrow> bool" where
  "sound s \<longleftrightarrow> stores_distinct s \<and> heap_wf s \<and> ids_issued s"

definition tx_journal :: "kvs \<Rightarrow> u32 \<Rightarrow> undo_op list option" where
  "tx_journal s i = map_option te_journal (tm_active (k_txns s) i)"

definition tx_db :: "kvs \<Rightarrow> u32 \<Rightarrow> u32 option" where
  "tx_db s i = map_option te_db_id (tm_active (k_txns s) i)"

text \<open>What a run of row changes leaves alone.\<close>

definition same_shape :: "kvs \<Rightarrow> kvs \<Rightarrow> bool" where
  "same_shape s s' \<longleftrightarrow> k_dbs s' = k_dbs s \<and> k_schemas s' = k_schemas s \<and>
     k_triggers s' = k_triggers s \<and> k_views s' = k_views s"

text \<open>The journal \<open>j\<close> holds first, for each row it touched, the value that row had in \<open>s\<close>.\<close>

definition journal_faithful :: "u32 \<Rightarrow> undo_op list \<Rightarrow> kvs \<Rightarrow> kvs \<Rightarrow> bool" where
  "journal_faithful db j s s' \<longleftrightarrow>
     (\<forall>t rid. case List.find (\<lambda>op. undo_key op = (t, rid)) j of
        Some op \<Rightarrow> undo_row op = row_at s db t rid
      | None \<Rightarrow> row_at s' db t rid = row_at s db t rid)"

text \<open>New rows appear only under ids issued in between.\<close>

definition grows :: "u32 \<Rightarrow> kvs \<Rightarrow> kvs \<Rightarrow> bool" where
  "grows db s s' \<longleftrightarrow>
     (\<forall>t rid. row_at s' db t rid \<noteq> None \<longrightarrow>
        row_at s db t rid \<noteq> None \<or> (rowid_gen s db t \<le> unat rid \<and> unat rid < rowid_gen s' db t))"

definition others_same :: "u32 \<Rightarrow> kvs \<Rightarrow> kvs \<Rightarrow> bool" where
  "others_same db s s' \<longleftrightarrow> (\<forall>db' t rid. db' \<noteq> db \<longrightarrow> row_at s' db' t rid = row_at s db' t rid)"

definition gens_grow :: "kvs \<Rightarrow> kvs \<Rightarrow> bool" where
  "gens_grow s s' \<longleftrightarrow> (\<forall>db t. rowid_gen s db t \<le> rowid_gen s' db t)"

definition other_txns_same :: "u32 \<Rightarrow> kvs \<Rightarrow> kvs \<Rightarrow> bool" where
  "other_txns_same i s s' \<longleftrightarrow>
     (\<forall>i'. i' \<noteq> i \<longrightarrow> tm_active (k_txns s') i' = tm_active (k_txns s) i')"

text \<open>A run from \<open>s\<close> to \<open>s'\<close> in database \<open>db\<close> under the transaction \<open>i\<close>.\<close>

definition journaled :: "u32 \<Rightarrow> u32 \<Rightarrow> kvs \<Rightarrow> kvs \<Rightarrow> bool" where
  "journaled db i s s' \<longleftrightarrow>
     same_shape s s' \<and> other_txns_same i s s' \<and> gens_grow s s' \<and> (heap_wf s \<longrightarrow> heap_wf s') \<and>
     (\<forall>j0. tx_journal s i = Some j0 \<longrightarrow> tx_db s' i = tx_db s i \<and>
        (\<exists>j. tx_journal s' i = Some (j0 @ j) \<and>
          (sound s \<and> gens_bounded db s' \<longrightarrow>
             others_same db s s' \<and> grows db s s' \<and> journal_faithful db j s s')))"

lemma gens_bounded_mono: "gens_grow s s' \<Longrightarrow> gens_bounded db s' \<Longrightarrow> gens_bounded db s"
  unfolding gens_bounded_def gens_grow_def by (meson order_trans)

lemma sound_step:
  assumes "sound s" "same_shape s s'" "heap_wf s'" "gens_grow s s'" "others_same db s s'" "grows db s s'"
  shows "sound s'"
proof -
  have "stores_distinct s'"
    using assms(1,2) stores_distinct_cong [of s' s] by (simp add: sound_def same_shape_def)
  moreover have "ids_issued s'"
    unfolding ids_issued_def
  proof (intro allI impI)
    fix db' t rid assume r: "row_at s' db' t rid \<noteq> None"
    have le: "rowid_gen s db' t \<le> rowid_gen s' db' t" using assms(4) by (simp add: gens_grow_def)
    have "row_at s db' t rid \<noteq> None \<longrightarrow> unat rid < rowid_gen s db' t"
      using assms(1) unfolding sound_def ids_issued_def by blast
    with le have old: "row_at s db' t rid \<noteq> None \<Longrightarrow> unat rid < rowid_gen s' db' t"
      by linarith
    show "unat rid < rowid_gen s' db' t"
    proof (cases "db' = db")
      case True
      then show ?thesis using assms(6) r old unfolding grows_def by blast
    next
      case False
      then have "row_at s' db' t rid = row_at s db' t rid"
        using assms(5) by (simp add: others_same_def)
      with r old show ?thesis by metis
    qed
  qed
  ultimately show ?thesis using assms(3) by (simp add: sound_def)
qed

lemma find_append:
  "List.find P (xs @ ys) = (case List.find P xs of Some x \<Rightarrow> Some x | None \<Rightarrow> List.find P ys)"
  by (induction xs) auto

lemma journal_faithful_trans:
  "journal_faithful db j s s1 \<Longrightarrow> journal_faithful db j' s1 s2 \<Longrightarrow> journal_faithful db (j @ j') s s2"
  unfolding journal_faithful_def find_append
  by (intro allI; drule_tac x = t in spec; drule_tac x = t in spec;
      drule_tac x = rid in spec; drule_tac x = rid in spec) (auto split: option.splits)

lemma grows_trans:
  assumes "grows db s s1" "grows db s1 s2" "gens_grow s s1" "gens_grow s1 s2"
  shows "grows db s s2"
  unfolding grows_def
proof (intro allI impI)
  fix t rid assume "row_at s2 db t rid \<noteq> None"
  then have "row_at s1 db t rid \<noteq> None \<or>
      (rowid_gen s1 db t \<le> unat rid \<and> unat rid < rowid_gen s2 db t)"
    using assms(2) by (simp add: grows_def)
  moreover have "rowid_gen s db t \<le> rowid_gen s1 db t" "rowid_gen s1 db t \<le> rowid_gen s2 db t"
    using assms(3,4) by (simp_all add: gens_grow_def)
  ultimately show "row_at s db t rid \<noteq> None \<or>
      (rowid_gen s db t \<le> unat rid \<and> unat rid < rowid_gen s2 db t)"
    using assms(1) unfolding grows_def by (meson less_le_trans order_trans)
qed

lemma frame_trans:
  "same_shape s s1 \<Longrightarrow> same_shape s1 s2 \<Longrightarrow> same_shape s s2"
  "other_txns_same i s s1 \<Longrightarrow> other_txns_same i s1 s2 \<Longrightarrow> other_txns_same i s s2"
  "gens_grow s s1 \<Longrightarrow> gens_grow s1 s2 \<Longrightarrow> gens_grow s s2"
  "others_same db s s1 \<Longrightarrow> others_same db s1 s2 \<Longrightarrow> others_same db s s2"
  by (auto simp: same_shape_def other_txns_same_def others_same_def)
    (meson gens_grow_def order_trans)

lemma journaled_frame:
  "journaled db i s s' \<Longrightarrow> same_shape s s'"
  "journaled db i s s' \<Longrightarrow> other_txns_same i s s'"
  "journaled db i s s' \<Longrightarrow> gens_grow s s'"
  "journaled db i s s' \<Longrightarrow> heap_wf s \<longrightarrow> heap_wf s'"
  by (simp_all add: journaled_def)

lemma journaled_journal:
  assumes "journaled db i s s'" "tx_journal s i = Some j0"
  obtains j where "tx_journal s' i = Some (j0 @ j)" "tx_db s' i = tx_db s i"
    "sound s \<Longrightarrow> gens_bounded db s' \<Longrightarrow> others_same db s s'"
    "sound s \<Longrightarrow> gens_bounded db s' \<Longrightarrow> grows db s s'"
    "sound s \<Longrightarrow> gens_bounded db s' \<Longrightarrow> journal_faithful db j s s'"
  using assms unfolding journaled_def by blast

lemma journaledI:
  assumes "same_shape s s'" "other_txns_same i s s'" "gens_grow s s'" "heap_wf s \<longrightarrow> heap_wf s'"
    and "\<And>j0. tx_journal s i = Some j0 \<Longrightarrow> tx_db s' i = tx_db s i \<and>
        (\<exists>j. tx_journal s' i = Some (j0 @ j) \<and>
          (sound s \<and> gens_bounded db s' \<longrightarrow>
             others_same db s s' \<and> grows db s s' \<and> journal_faithful db j s s'))"
  shows "journaled db i s s'"
  using assms unfolding journaled_def by blast

lemma journaled_refl: "journaled db i s s"
  by (auto simp: journaled_def same_shape_def other_txns_same_def gens_grow_def others_same_def
      grows_def journal_faithful_def)

lemma journaled_trans:
  assumes a: "journaled db i s s1" and b: "journaled db i s1 s2"
  shows "journaled db i s s2"
proof (rule journaledI)
  note fa = journaled_frame [OF a] and fb = journaled_frame [OF b]
  show "same_shape s s2" "other_txns_same i s s2" "gens_grow s s2" "heap_wf s \<longrightarrow> heap_wf s2"
    using frame_trans fa fb by blast+
  fix j0 assume j0: "tx_journal s i = Some j0"
  obtain j where j: "tx_journal s1 i = Some (j0 @ j)" "tx_db s1 i = tx_db s i"
    and 1: "sound s \<Longrightarrow> gens_bounded db s1 \<Longrightarrow> others_same db s s1"
      "sound s \<Longrightarrow> gens_bounded db s1 \<Longrightarrow> grows db s s1"
      "sound s \<Longrightarrow> gens_bounded db s1 \<Longrightarrow> journal_faithful db j s s1"
    by (rule journaled_journal [OF a j0]) blast
  obtain j' where j': "tx_journal s2 i = Some ((j0 @ j) @ j')" "tx_db s2 i = tx_db s1 i"
    and 2: "sound s1 \<Longrightarrow> gens_bounded db s2 \<Longrightarrow> others_same db s1 s2"
      "sound s1 \<Longrightarrow> gens_bounded db s2 \<Longrightarrow> grows db s1 s2"
      "sound s1 \<Longrightarrow> gens_bounded db s2 \<Longrightarrow> journal_faithful db j' s1 s2"
    by (rule journaled_journal [OF b j(1)]) blast
  have "others_same db s s2 \<and> grows db s s2 \<and> journal_faithful db (j @ j') s s2"
    if snd: "sound s" and bd: "gens_bounded db s2"
  proof -
    have bd1: "gens_bounded db s1" by (rule gens_bounded_mono [OF fb(3) bd])
    have "heap_wf s1" using fa(4) snd by (simp add: sound_def)
    then have snd1: "sound s1"
      using sound_step [OF snd fa(1) _ fa(3) 1(1,2) [OF snd bd1]] by simp
    show ?thesis
      using frame_trans(4) [OF 1(1) [OF snd bd1] 2(1) [OF snd1 bd]]
        grows_trans [OF 1(2) [OF snd bd1] 2(2) [OF snd1 bd] fa(3) fb(3)]
        journal_faithful_trans [OF 1(3) [OF snd bd1] 2(3) [OF snd1 bd]] by simp
  qed
  then show "tx_db s2 i = tx_db s i \<and> (\<exists>j. tx_journal s2 i = Some (j0 @ j) \<and>
      (sound s \<and> gens_bounded db s2 \<longrightarrow>
         others_same db s s2 \<and> grows db s s2 \<and> journal_faithful db j s s2))"
    using j j' by auto
qed

text \<open>One write with its journal entry, after a run from \<open>s0\<close>.\<close>

lemma journaled_write:
  assumes run: "journaled db i s0 s"
    and shape: "same_shape s s'" and txns: "other_txns_same i s s'" and txdb: "tx_db s' i = tx_db s i"
    and gens: "k_rowid_gens s' = k_rowid_gens s" and wf: "heap_wf s \<longrightarrow> heap_wf s'"
    and j: "tx_journal s' i = map_option (\<lambda>j. j @ [op]) (tx_journal s i)"
    and row: "\<And>db' t' rid'. stores_distinct s \<Longrightarrow> row_at s' db' t' rid' =
        (if db' = db \<and> undo_key op = (t', rid') then new else row_at s db' t' rid')"
    and first: "sound s0 \<Longrightarrow> gens_bounded db s \<Longrightarrow> undo_row op = row_at s0 db (undo_table op) (undo_rowid op)"
    and fresh: "sound s0 \<Longrightarrow> gens_bounded db s \<Longrightarrow> new \<noteq> None \<Longrightarrow>
       row_at s0 db (undo_table op) (undo_rowid op) \<noteq> None \<or>
       (rowid_gen s0 db (undo_table op) \<le> unat (undo_rowid op) \<and>
        unat (undo_rowid op) < rowid_gen s db (undo_table op))"
  shows "journaled db i s0 s'"
proof (rule journaledI)
  note fr = journaled_frame [OF run]
  have g: "rowid_gen s' = rowid_gen s" by (simp add: rowid_gen_def gens fun_eq_iff)
  have gg: "gens_grow s s'" by (simp add: gens_grow_def g)
  show "same_shape s0 s'" "other_txns_same i s0 s'" "gens_grow s0 s'" "heap_wf s0 \<longrightarrow> heap_wf s'"
    using frame_trans fr shape txns gg wf by blast+
  fix j0 assume j0: "tx_journal s0 i = Some j0"
  obtain jj where jj: "tx_journal s i = Some (j0 @ jj)" "tx_db s i = tx_db s0 i"
    and 1: "sound s0 \<Longrightarrow> gens_bounded db s \<Longrightarrow> others_same db s0 s"
      "sound s0 \<Longrightarrow> gens_bounded db s \<Longrightarrow> grows db s0 s"
      "sound s0 \<Longrightarrow> gens_bounded db s \<Longrightarrow> journal_faithful db jj s0 s"
    by (rule journaled_journal [OF run j0]) blast
  have "others_same db s0 s' \<and> grows db s0 s' \<and> journal_faithful db (jj @ [op]) s0 s'"
    if snd: "sound s0" and bd': "gens_bounded db s'"
  proof -
    have bd: "gens_bounded db s" using bd' by (simp add: gens_bounded_def g)
    have "stores_distinct s"
      using snd fr(1) stores_distinct_cong [of s s0] by (simp add: sound_def same_shape_def)
    note r = row [OF this]
    have "others_same db s0 s'" using 1(1) [OF snd bd] by (simp add: others_same_def r)
    moreover have "grows db s0 s'"
      using 1(2) [OF snd bd] fresh [OF snd bd] by (simp add: grows_def r g)
    moreover have "journal_faithful db (jj @ [op]) s0 s'"
      unfolding journal_faithful_def find_append
    proof (intro allI)
      fix t rid
      have f: "case List.find (\<lambda>op. undo_key op = (t, rid)) jj of
          Some op \<Rightarrow> undo_row op = row_at s0 db t rid | None \<Rightarrow> row_at s db t rid = row_at s0 db t rid"
        using 1(3) [OF snd bd] by (simp add: journal_faithful_def)
      show "case case List.find (\<lambda>op. undo_key op = (t, rid)) jj of
            Some x \<Rightarrow> Some x | None \<Rightarrow> List.find (\<lambda>op. undo_key op = (t, rid)) [op] of
          Some op \<Rightarrow> undo_row op = row_at s0 db t rid
        | None \<Rightarrow> row_at s' db t rid = row_at s0 db t rid"
        using f first [OF snd bd] by (auto simp: r split: option.splits)
    qed
    ultimately show ?thesis by simp
  qed
  then show "tx_db s' i = tx_db s0 i \<and> (\<exists>j. tx_journal s' i = Some (j0 @ j) \<and>
      (sound s0 \<and> gens_bounded db s' \<longrightarrow>
         others_same db s0 s' \<and> grows db s0 s' \<and> journal_faithful db j s0 s'))"
    using jj j txdb by auto
qed

section \<open>The writes of the row handlers\<close>

lemma journal_fields [simp]:
  "k_dbs (journal tx op s) = k_dbs s" "k_heap (journal tx op s) = k_heap s"
  "k_schemas (journal tx op s) = k_schemas s" "k_triggers (journal tx op s) = k_triggers s"
  "k_views (journal tx op s) = k_views s" "k_rowid_gens (journal tx op s) = k_rowid_gens s"
  by (simp_all add: journal_def txn_record_def set_txns_def Let_def split: option.split)

lemma row_at_journal [simp]: "row_at (journal tx op s) db t rid = row_at s db t rid"
  by (rule row_at_cong) simp_all

lemma txns_upkeep:
  "tx_journal (journal (Some i) op s) i = map_option (\<lambda>j. j @ [op]) (tx_journal s i)"
  "tx_db (journal (Some i) op s) i = tx_db s i"
  "i' \<noteq> i \<Longrightarrow> tm_active (k_txns (journal (Some i) op s)) i' = tm_active (k_txns s) i'"
  by (auto simp: tx_journal_def tx_db_def journal_def txn_record_def set_txns_def Let_def
      split: option.split)

lemma tx_cong:
  "k_txns s = k_txns s' \<Longrightarrow> tx_journal s i = tx_journal s' i \<and> tx_db s i = tx_db s' i"
  by (simp add: tx_journal_def tx_db_def)

lemma heap_wf_write:
  "heap_wf s \<Longrightarrow> heap_wf (store_insert ref rid r s)"
  "heap_wf s \<Longrightarrow> heap_wf (store_remove ref rid s)"
  by (auto simp: heap_wf_def store_insert_def store_remove_def distinct_update distinct_delete)

lemma heap_wf_cong: "k_heap s = k_heap s' \<Longrightarrow> heap_wf s = heap_wf s'"
  by (simp add: heap_wf_def)

lemma other_txns_same_write:
  "k_txns s' = k_txns (journal (Some i) op s) \<Longrightarrow> other_txns_same i s s'"
  by (simp add: other_txns_same_def txns_upkeep)

lemma journaled_handler_write:
  assumes run: "journaled db i s0 s"
    and store: "get_table_store s0 db (undo_table op) = Some ref"
    and s1: "s1 = (case new of Some r \<Rightarrow> store_insert ref (undo_rowid op) r s
                   | None \<Rightarrow> store_remove ref (undo_rowid op) s)"
    and s': "k_dbs s' = k_dbs s1" "k_heap s' = k_heap s1" "k_schemas s' = k_schemas s1"
      "k_triggers s' = k_triggers s1" "k_views s' = k_views s1" "k_rowid_gens s' = k_rowid_gens s1"
      "k_txns s' = k_txns (journal (Some i) op s1)"
    and first: "sound s0 \<Longrightarrow> gens_bounded db s \<Longrightarrow> undo_row op = row_at s0 db (undo_table op) (undo_rowid op)"
    and fresh: "sound s0 \<Longrightarrow> gens_bounded db s \<Longrightarrow> new \<noteq> None \<Longrightarrow>
       row_at s0 db (undo_table op) (undo_rowid op) \<noteq> None \<or>
       (rowid_gen s0 db (undo_table op) \<le> unat (undo_rowid op) \<and>
        unat (undo_rowid op) < rowid_gen s db (undo_table op))"
  shows "journaled db i s0 s'"
proof (rule journaled_write [OF run _ _ _ _ _ _ _ first fresh])
  have dbs: "k_dbs s = k_dbs s0" using journaled_frame(1) [OF run] by (simp add: same_shape_def)
  have st: "get_table_store s db (undo_table op) = Some ref"
    using store get_table_store_cong [OF dbs] by simp
  have f1: "k_dbs s1 = k_dbs s" "k_schemas s1 = k_schemas s" "k_triggers s1 = k_triggers s"
    "k_views s1 = k_views s" "k_rowid_gens s1 = k_rowid_gens s" "k_txns s1 = k_txns s"
    by (simp_all add: s1 split: option.split)
  have tx: "tx_journal s1 i = tx_journal s i" "tx_db s1 i = tx_db s i"
    using tx_cong [OF f1(6)] by simp_all
  show "same_shape s s'" by (simp add: same_shape_def s' f1)
  show "other_txns_same i s s'"
    using other_txns_same_write [OF s'(7)] by (simp add: other_txns_same_def f1)
  show "tx_db s' i = tx_db s i" "tx_journal s' i = map_option (\<lambda>j. j @ [op]) (tx_journal s i)"
    using tx_cong [OF s'(7), of i] by (simp_all add: txns_upkeep tx)
  show "k_rowid_gens s' = k_rowid_gens s" by (simp add: s' f1)
  show "heap_wf s \<longrightarrow> heap_wf s'"
    using heap_wf_write [of s ref "undo_rowid op"] heap_wf_cong [OF s'(2)]
    by (auto simp: s1 split: option.split)
  fix db' t' rid' assume "stores_distinct s"
  note w = row_at_store_insert [OF this st] row_at_store_remove [OF this st]
  have "row_at s' db' t' rid' = row_at s1 db' t' rid'" by (rule row_at_cong) (simp_all add: s')
  also have "\<dots> = (if db' = db \<and> undo_key op = (t', rid') then new else row_at s db' t' rid')"
    by (auto simp: s1 w split: option.split)
  finally show "row_at s' db' t' rid' =
      (if db' = db \<and> undo_key op = (t', rid') then new else row_at s db' t' rid')" .
qed

lemma write_insert_journaled:
  assumes "journaled db i s0 s" "get_table_store s0 db t = Some ref"
    and "sound s0 \<Longrightarrow> gens_bounded db s \<Longrightarrow> row_at s0 db t rid = None"
    and "sound s0 \<Longrightarrow> gens_bounded db s \<Longrightarrow> rowid_gen s0 db t \<le> unat rid \<and> unat rid < rowid_gen s db t"
  shows "journaled db i s0 (write_insert db t ref (Some i) rid r s)"
  by (rule journaled_handler_write [where op = "UndoInsert t rid" and new = "Some r", OF assms(1) _ refl])
    (use assms in \<open>simp_all add: write_insert_def\<close>)

lemma write_update_journaled:
  assumes "journaled db i s0 s" "get_table_store s0 db t = Some ref"
    and "sound s0 \<Longrightarrow> row_at s0 db t rid = Some old_row"
  shows "journaled db i s0 (write_update db t ref (Some i) rid old_row new_row s)"
  by (rule journaled_handler_write [where op = "UndoUpdate t rid old_row" and new = "Some new_row",
        OF assms(1) _ refl]) (use assms in \<open>simp_all add: write_update_def\<close>)

lemma write_delete_journaled:
  assumes "journaled db i s0 s" "get_table_store s0 db t = Some ref"
    and "sound s0 \<Longrightarrow> row_at s0 db t rid = Some r"
  shows "journaled db i s0 (write_delete db t ref (Some i) rid r s)"
  by (rule journaled_handler_write [where op = "UndoDelete t rid r" and new = None,
        OF assms(1) _ refl]) (use assms in \<open>simp_all add: write_delete_def\<close>)

section \<open>What runs a trigger body\<close>

text \<open>Statements that only read or change rows.\<close>

definition row_statement :: "statement \<Rightarrow> bool" where
  "row_statement st \<longleftrightarrow> is_dml st \<or> (\<exists>q. st = SQuery q)"

text \<open>Every trigger body, with any rows substituted, parses to such statements.\<close>

definition triggers_row_only :: "('x) env_scheme \<Rightarrow> u32 \<Rightarrow> kvs \<Rightarrow> bool" where
  "triggers_row_only E db s \<longleftrightarrow>
     (\<forall>t trg old_row new_row stmts.
        trg \<in> set (get_triggers s db t) \<longrightarrow>
        parse_sql E (substitute_trigger_variables (tr_body trg) old_row new_row) = Inr stmts \<longrightarrow>
        list_all row_statement stmts)"

lemma triggers_row_only_cong:
  "k_triggers s = k_triggers s' \<Longrightarrow> triggers_row_only E db s = triggers_row_only E db s'"
  by (simp add: triggers_row_only_def get_triggers_def)

text \<open>The step relation of the handlers.\<close>

definition row_run :: "('x) env_scheme \<Rightarrow> u32 \<Rightarrow> u32 \<Rightarrow> kvs \<Rightarrow> kvs \<Rightarrow> bool" where
  "row_run E db i s s' \<longleftrightarrow>
     (iter_ok E \<and> triggers_row_only E db s \<longrightarrow> journaled db i s s')"

lemma row_run_refl: "row_run E db i s s"
  by (simp add: row_run_def journaled_refl)

lemma row_run_triggers:
  "row_run E db i s s' \<Longrightarrow> iter_ok E \<Longrightarrow> triggers_row_only E db s \<Longrightarrow> triggers_row_only E db s'"
proof -
  assume "row_run E db i s s'" and "iter_ok E" and t: "triggers_row_only E db s"
  then have "journaled db i s s'" by (simp add: row_run_def)
  then have "k_triggers s' = k_triggers s"
    using journaled_frame(1) by (simp add: same_shape_def)
  from triggers_row_only_cong [OF this, of E db] t show ?thesis by simp
qed

lemma row_run_trans:
  assumes "row_run E db i s s1" "row_run E db i s1 s2"
  shows "row_run E db i s s2"
proof -
  show ?thesis
    using assms row_run_triggers [OF assms(1)] journaled_trans unfolding row_run_def by blast
qed

lemma keeps_bind:
  assumes trans: "\<And>a b c. R a b \<Longrightarrow> R b c \<Longrightarrow> R a c"
    and m: "keeps R m" and f: "\<And>x. keeps R (f x)"
  shows "keeps R (ebind m f)"
proof (rule keepsI)
  fix s r s' assume r: "ebind m f s = (r, s')"
  obtain o1 s1 where 1: "m s = (o1, s1)" by force
  have 2: "R s s1" by (rule keepsD [OF m 1])
  show "R s s'"
    using r 1 2 keepsD [OF f, of _ s1 r s'] trans [OF 2, of s']
    by (cases o1) (auto simp: ebind_def)
qed

lemma keeps_iter:
  assumes refl: "\<And>s. R s s" and trans: "\<And>a b c. R a b \<Longrightarrow> R b c \<Longrightarrow> R a c"
    and f: "\<And>x. x \<in> set xs \<Longrightarrow> keeps R (f x)"
  shows "keeps R (eiter f xs)"
  using f
proof (induction xs)
  case Nil
  show ?case by (simp add: keeps_def eret_def refl)
next
  case (Cons x xs)
  then show ?case using keeps_bind [of R "f x" "\<lambda>_. eiter f xs", OF trans] by auto
qed

lemma keeps_refl:
  assumes "\<And>s. R s s"
  shows "keeps R (eret x)" "keeps R (efail e)" "keeps R (eget g)" "keeps R (elift h)"
  using assms by (simp_all add: keeps_def exec_defs)

lemma row_run_bind:
  "keeps (row_run E db i) m \<Longrightarrow> (\<And>x. keeps (row_run E db i) (f x)) \<Longrightarrow>
   keeps (row_run E db i) (ebind m f)"
  by (rule keeps_bind) (rule row_run_trans)

lemma row_run_iter:
  "(\<And>x. x \<in> set xs \<Longrightarrow> keeps (row_run E db i) (f x)) \<Longrightarrow> keeps (row_run E db i) (eiter f xs)"
  by (rule keeps_iter) (auto intro: row_run_refl row_run_trans)

lemma row_run_pure:
  "keeps (row_run E db i) (eret x)" "keeps (row_run E db i) (efail e)"
  "keeps (row_run E db i) (eget g)" "keeps (row_run E db i) (elift h)"
  by (rule keeps_refl; rule row_run_refl)+

lemma set_rowid_gen_shape [simp]:
  "k_dbs (set_rowid_gen db' t g s) = k_dbs s" "k_heap (set_rowid_gen db' t g s) = k_heap s"
  "k_schemas (set_rowid_gen db' t g s) = k_schemas s"
  "k_triggers (set_rowid_gen db' t g s) = k_triggers s"
  "k_views (set_rowid_gen db' t g s) = k_views s" "k_txns (set_rowid_gen db' t g s) = k_txns s"
  by (simp_all add: set_rowid_gen_def)

lemma rowid_gen_set [simp]:
  "rowid_gen (set_rowid_gen db1 t1 g s) db2 t2 =
     (if db2 = db1 \<and> t2 = t1 then g else rowid_gen s db2 t2)"
  by (auto simp: rowid_gen_def set_rowid_gen_def outer_def split: option.split)

lemma next_rowid_journaled:
  "journaled db i s (set_rowid_gen db1 t (Suc (rowid_gen s db1 t)) s)"
proof (rule journaledI)
  let ?s = "set_rowid_gen db1 t (Suc (rowid_gen s db1 t)) s"
  show "same_shape s ?s" by (simp add: same_shape_def)
  show "other_txns_same i s ?s" by (simp add: other_txns_same_def)
  show "gens_grow s ?s" by (simp add: gens_grow_def)
  show "heap_wf s \<longrightarrow> heap_wf ?s" by (simp add: heap_wf_def)
  have row: "row_at ?s db' t' rid = row_at s db' t' rid" for db' t' rid
    by (rule row_at_cong) simp_all
  show "tx_db ?s i = tx_db s i \<and> (\<exists>j. tx_journal ?s i = Some (j0 @ j) \<and>
      (sound s \<and> gens_bounded db ?s \<longrightarrow>
         others_same db s ?s \<and> grows db s ?s \<and> journal_faithful db j s ?s))"
    if "tx_journal s i = Some j0" for j0
    using that tx_cong [of ?s s i]
    by (auto simp: others_same_def grows_def journal_faithful_def row intro!: exI [of _ "[]"])
qed

lemma inv_keeps_keeps:
  "keeps R m \<Longrightarrow> (\<And>s s'. P s \<Longrightarrow> R s s' \<Longrightarrow> P s') \<Longrightarrow> inv_keeps P m"
  unfolding keeps_def inv_keeps_def by blast

text \<open>Counters only grow along a run; stated from a first state whose triggers are harmless.\<close>

lemma row_run_gens:
  assumes "row_run E db i s s1" "row_run E db i s1 s2" "iter_ok E" "triggers_row_only E db s"
    "n \<le> rowid_gen s1 db t"
  shows "n \<le> rowid_gen s2 db t"
proof -
  have "journaled db i s1 s2"
    using assms(2) row_run_triggers [OF assms(1,3,4)] assms(3) by (simp add: row_run_def)
  then have "rowid_gen s1 db t \<le> rowid_gen s2 db t"
    using journaled_frame(3) unfolding gens_grow_def by blast
  with assms(5) show ?thesis by simp
qed

lemma rowid_gen_write [simp]:
  "rowid_gen (write_insert db t ref tx rid r s) db' t' = rowid_gen s db' t'"
  by (simp add: rowid_gen_def write_insert_def)

lemma fresh_write_journaled:
  assumes run: "journaled db i s s2" and store: "get_table_store s db t = Some ref"
    and g: "Suc (rowid_gen s db t) \<le> rowid_gen s2 db t"
  shows "journaled db i s (write_insert db t ref (Some i) (word_of_nat (rowid_gen s db t)) r s2)"
proof (rule write_insert_journaled [OF run store])
  let ?g = "rowid_gen s db t"
  assume snd: "sound s" and bd: "gens_bounded db s2"
  have "rowid_gen s2 db t \<le> 2 ^ 64" using bd unfolding gens_bounded_def by blast
  then have "?g < 2 ^ 64" using g by linarith
  then have rid: "unat (word_of_nat ?g :: rowid) = ?g" by (simp add: unat_of_nat)
  have "ids_issued s" using snd by (simp add: sound_def)
  then show "row_at s db t (word_of_nat ?g) = None"
    using rid unfolding ids_issued_def by (metis less_irrefl)
  show "?g \<le> unat (word_of_nat ?g :: rowid) \<and> unat (word_of_nat ?g :: rowid) < rowid_gen s2 db t"
    using rid g by simp
qed

section \<open>The handlers, over any runner of trigger bodies\<close>

locale row_runner =
  fixes E :: "('x) env_scheme" and db :: u32 and i :: u32
    and run :: "statement \<Rightarrow> (kvs, query_result) exec"
  assumes run_rows: "row_statement st \<Longrightarrow> keeps (row_run E db i) (run st)"
begin

lemma run_body_keeps:
  assumes "\<And>stmts. parse_sql E body = Inr stmts \<Longrightarrow> list_all row_statement stmts"
  shows "keeps (row_run E db i) (run_body E run body)"
proof (cases "parse_sql E body")
  case (Inl e)
  then show ?thesis by (simp add: run_body_def row_run_pure)
next
  case (Inr stmts)
  have "keeps (row_run E db i) (ebind (run st) (\<lambda>_. eret ()))" if "st \<in> set stmts" for st
    using run_rows [of st] assms [OF Inr] that
    by (auto intro!: row_run_bind row_run_pure simp: list_all_iff)
  then show ?thesis by (simp add: run_body_def Inr row_run_iter)
qed

lemma fire_triggers_keeps:
  "keeps (row_run E db i) (fire_triggers E run db t ev tm old_row new_row)"
proof (rule keepsI)
  fix s r s' assume f: "fire_triggers E run db t ev tm old_row new_row s = (r, s')"
  show "row_run E db i s s'"
  proof (cases "iter_ok E \<and> triggers_row_only E db s")
    case False
    then show ?thesis by (auto simp: row_run_def)
  next
    case True
    have body: "keeps (row_run E db i)
        (run_body E run (substitute_trigger_variables (tr_body trg) old_row new_row))"
      if "trg \<in> set (get_triggers s db t)" for trg
      by (rule run_body_keeps) (use True that in \<open>auto simp: triggers_row_only_def\<close>)
    have fire: "keeps (row_run E db i) (fire_trigger E run db ev tm old_row new_row trg)"
      if "trg \<in> set (get_triggers s db t)" for trg
      using body [OF that]
      by (auto simp: fire_trigger_def intro!: row_run_bind row_run_pure)
    have "keeps (row_run E db i)
        (eiter (fire_trigger E run db ev tm old_row new_row) (get_triggers s db t))"
      by (rule row_run_iter) (rule fire)
    from keepsD [OF this] show ?thesis using f by (simp add: fire_triggers_def ebind_def eget_def)
  qed
qed

text \<open>A new row: its id is fresh, so its journal entry says "there was none".\<close>

lemma insert_row_keeps:
  "keeps (row_run E db i)
     (\<lambda>s. if get_table_store s db t = Some ref
          then insert_row E run db t schema ref (Some i) r0 s else (Done (), s))"
proof (rule keepsI)
  fix s r s'
  assume m: "(if get_table_store s db t = Some ref
      then insert_row E run db t schema ref (Some i) r0 s else (Done (), s)) = (r, s')"
  let ?g = "rowid_gen s db t"
  let ?rid = "word_of_nat ?g :: rowid"
  let ?r = "apply_defaults schema ?rid r0"
  let ?s1 = "set_rowid_gen db t (Suc ?g) s"
  let ?P = "\<lambda>s2. row_run E db i s s2 \<and>
     (iter_ok E \<and> triggers_row_only E db s \<longrightarrow> Suc ?g \<le> rowid_gen s2 db t)"
  let ?fire = "\<lambda>tm. fire_triggers E run db t TInsert tm None (Some ?r)"
  let ?rest = "ebind (elift (\<lambda>s. validate_constraints E s db schema ?r ?rid)) (\<lambda>_.
     ebind (?fire TBefore) (\<lambda>_.
     ebind (emodify (write_insert db t ref (Some i) ?rid ?r)) (\<lambda>_. ?fire TAfter)))"
  show "row_run E db i s s'"
  proof (cases "get_table_store s db t = Some ref")
    case False
    then show ?thesis using m by (auto simp: row_run_refl)
  next
    case True
    have fire: "inv_keeps ?P (?fire tm)" for tm
      by (rule inv_keeps_keeps [OF fire_triggers_keeps]) (auto intro: row_run_trans row_run_gens)
    have wr: "inv_keeps ?P (emodify (write_insert db t ref (Some i) ?rid ?r))"
      by (rule inv_keepsI) (use fresh_write_journaled [OF _ True] in
        \<open>auto simp: emodify_def row_run_def rowid_gen_write\<close>)
    have all: "inv_keeps ?P ?rest"
      by (intro inv_keeps_bind inv_keeps_basic fire wr)
    have start: "?P ?s1" by (simp add: row_run_def next_rowid_journaled)
    have "?rest ?s1 = (r, s')"
      using m True by (simp only: insert_row_def ebind_app(1) [OF get_next_rowid_def] Let_def if_True simp_thms)
    from inv_keepsD [of ?P, OF all start this] show ?thesis by (rule conjunct1)
  qed
qed

text \<open>A state reached from \<open>s0\<close> still has \<open>s0\<close>'s tables.\<close>

lemma row_run_store:
  assumes "row_run E db i s0 s" "iter_ok E \<and> triggers_row_only E db s0"
  shows "get_table_store s db' t = get_table_store s0 db' t"
proof -
  have "journaled db i s0 s" using assms by (simp add: row_run_def)
  then have "k_dbs s = k_dbs s0" using journaled_frame(1) by (simp add: same_shape_def)
  then show ?thesis by (rule get_table_store_cong)
qed

lemma insert_row_from:
  assumes "get_table_store s0 db t = Some ref"
  shows "inv_keeps (row_run E db i s0) (insert_row E run db t schema ref (Some i) r0)"
proof (rule inv_keepsI)
  fix s r s'
  assume run: "row_run E db i s0 s" and m: "insert_row E run db t schema ref (Some i) r0 s = (r, s')"
  show "row_run E db i s0 s'"
  proof (cases "iter_ok E \<and> triggers_row_only E db s0")
    case True
    have "get_table_store s db t = Some ref" using row_run_store [OF run True] assms by simp
    then have "row_run E db i s s'"
      using keepsD [OF insert_row_keeps [of t ref schema r0], of s r s'] m by simp
    then show ?thesis by (rule row_run_trans [OF run])
  qed (auto simp: row_run_def)
qed

lemma fire_from: "inv_keeps (row_run E db i s0) (fire_triggers E run db t ev tm old_row new_row)"
  by (rule inv_keeps_keeps [OF fire_triggers_keeps]) (rule row_run_trans)

text \<open>A change of a row of \<open>s0\<close>: the journal entry is that row, as it was in \<open>s0\<close>.\<close>

lemma update_row_from:
  assumes "get_table_store s0 db t = Some ref" "iter_ok E \<Longrightarrow> sound s0 \<Longrightarrow> row_at s0 db t rid = Some old_row"
  shows "inv_keeps (row_run E db i s0)
    (update_row E run db t schema ref (Some i) assigns ps (rid, old_row))"
proof -
  have wr: "inv_keeps (row_run E db i s0)
      (emodify (write_update db t ref (Some i) rid old_row new_row))" for new_row
    by (rule inv_keepsI)
      (use write_update_journaled [OF _ assms(1)] assms(2) in \<open>auto simp: emodify_def row_run_def\<close>)
  show ?thesis
    unfolding update_row_def Let_def prod.case
    by (intro inv_keeps_bind inv_keeps_basic fire_from wr)
qed

lemma delete_row_from:
  assumes "get_table_store s0 db t = Some ref" "iter_ok E \<Longrightarrow> sound s0 \<Longrightarrow> row_at s0 db t rid = Some r"
  shows "inv_keeps (row_run E db i s0) (delete_row E run db t ref (Some i) (rid, r))"
proof -
  have wr: "inv_keeps (row_run E db i s0) (emodify (write_delete db t ref (Some i) rid r))"
    by (rule inv_keepsI)
      (use write_delete_journaled [OF _ assms(1)] assms(2) in \<open>auto simp: emodify_def row_run_def\<close>)
  show ?thesis
    unfolding delete_row_def Let_def prod.case
    by (intro inv_keeps_bind inv_keeps_basic fire_from wr)
qed

lemma matching_rows_at:
  assumes "iter_ok E" "matching_rows E s db ref ps selection n = Done entries" "(rid, r) \<in> set entries"
    and "get_table_store s db t = Some ref" "sound s"
  shows "row_at s db t rid = Some r"
proof -
  have "entries = filter (\<lambda>x. (case x of (_, r) \<Rightarrow> where_passes E s db ps selection n r) = Done True)
      (iter_rows E (k_heap s ref))"
    using assms(2) unfolding matching_rows_def by (rule ofilter_DoneD)
  then have "(rid, r) \<in> set (iter_rows E (k_heap s ref))" using assms(3) by simp
  then have "(rid, r) \<in> set (k_heap s ref)" by (simp only: iter_rows_set [OF assms(1)])
  moreover have "wf_alist (k_heap s ref)" using assms(5) by (simp add: sound_def heap_wf_def)
  ultimately have "map_of (k_heap s ref) rid = Some r" by simp
  then show ?thesis using assms(4) by (simp add: row_at_def store_get_def)
qed

lemma run_from: "inv_keeps (row_run E db i s) m \<Longrightarrow> m s = (r, s') \<Longrightarrow> row_run E db i s s'"
  by (rule inv_keepsD [of "row_run E db i s" m s r s', OF _ row_run_refl])

lemma execute_insert_keeps:
  "keeps (row_run E db i) (execute_insert E n run db name cols source ps (Some i))"
proof (rule keepsI)
  fix s r s' assume m: "execute_insert E n run db name cols source ps (Some i) s = (r, s')"
  let ?t = "object_name_to_string E name"
  show "row_run E db i s s'"
  proof (cases "get_schema s db ?t = None \<or> get_table_store s db ?t = None")
    case True
    then show ?thesis using m
      by (auto simp: execute_insert_def Let_def row_run_refl split: option.splits)
  next
    case False
    then obtain schema ref where st: "get_schema s db ?t = Some schema"
      "get_table_store s db ?t = Some ref" by auto
    have all: "inv_keeps (row_run E db i s)
        (ebind (elift (\<lambda>s. candidate_rows E n s db (insert_columns schema cols) source ps)) (\<lambda>rows.
          ebind (eiter (insert_row E run db ?t schema ref (Some i)) rows)
            (\<lambda>_. eret (qr_affected_rows (word_of_nat (length rows))))))" (is "inv_keeps _ ?m")
      by (intro inv_keeps_bind inv_keeps_basic inv_keeps_iter insert_row_from st)
    have eq: "?m s = (r, s')" using m by (simp add: execute_insert_def st)
    show ?thesis by (rule run_from [OF all eq])
  qed
qed

lemma execute_update_keeps:
  "keeps (row_run E db i) (execute_update E run db relation assigns selection ps (Some i))"
proof (rule keepsI)
  fix s r s' assume m: "execute_update E run db relation assigns selection ps (Some i) s = (r, s')"
  let ?t = "factor_name E relation"
  show "row_run E db i s s'"
  proof (cases "get_schema s db ?t = None \<or> get_table_store s db ?t = None")
    case True
    then show ?thesis using m
      by (auto simp: execute_update_def Let_def row_run_refl split: option.splits)
  next
    case False
    then obtain schema ref where st: "get_schema s db ?t = Some schema"
      "get_table_store s db ?t = Some ref" by auto
    let ?sel = "matching_rows E s db ref ps selection (set_param_count assigns)"
    have loop: "inv_keeps (row_run E db i s)
        (eiter (update_row E run db ?t schema ref (Some i) assigns ps) entries)"
      if "?sel = Done entries" for entries
      using matching_rows_at [OF _ that _ st(2)] st(2)
      by (intro inv_keeps_iter) (auto intro: update_row_from)
    show ?thesis
    proof (cases ?sel)
      case (Done entries)
      have eq: "ebind (eiter (update_row E run db ?t schema ref (Some i) assigns ps) entries)
          (\<lambda>_. eret (qr_affected_rows (word_of_nat (length entries)))) s = (r, s')"
        using m Done by (simp add: execute_update_def st ebind_def elift_def)
      have all: "inv_keeps (row_run E db i s)
          (ebind (eiter (update_row E run db ?t schema ref (Some i) assigns ps) entries)
            (\<lambda>_. eret (qr_affected_rows (word_of_nat (length entries)))))"
        by (intro inv_keeps_bind inv_keeps_basic loop Done)
      show ?thesis by (rule run_from [OF all eq])
    qed (use m in \<open>auto simp: execute_update_def st ebind_def elift_def row_run_refl\<close>)
  qed
qed

lemma execute_delete_keeps:
  "keeps (row_run E db i) (execute_delete E run db tables from selection ps (Some i))"
proof (rule keepsI)
  fix s r s' assume m: "execute_delete E run db tables from selection ps (Some i) s = (r, s')"
  show "row_run E db i s s'"
  proof (cases "\<exists>t ref. delete_target E tables from = Some t \<and> get_table_store s db t = Some ref")
    case False
    then show ?thesis using m
      by (auto simp: execute_delete_def row_run_refl split: option.splits)
  next
    case True
    then obtain t ref where st: "delete_target E tables from = Some t"
      "get_table_store s db t = Some ref" by auto
    let ?sel = "matching_rows E s db ref ps selection 0"
    have loop: "inv_keeps (row_run E db i s)
        (eiter (delete_row E run db t ref (Some i)) entries)"
      if "?sel = Done entries" for entries
      using matching_rows_at [OF _ that _ st(2)] st(2)
      by (intro inv_keeps_iter) (auto intro: delete_row_from)
    show ?thesis
    proof (cases ?sel)
      case (Done entries)
      have eq: "ebind (eiter (delete_row E run db t ref (Some i)) entries)
          (\<lambda>_. eret (qr_affected_rows (word_of_nat (length entries)))) s = (r, s')"
        using m Done by (simp add: execute_delete_def st ebind_def elift_def)
      have all: "inv_keeps (row_run E db i s)
          (ebind (eiter (delete_row E run db t ref (Some i)) entries)
            (\<lambda>_. eret (qr_affected_rows (word_of_nat (length entries)))))"
        by (intro inv_keeps_bind inv_keeps_basic loop Done)
      show ?thesis by (rule run_from [OF all eq])
    qed (use m in \<open>auto simp: execute_delete_def st ebind_def elift_def row_run_refl\<close>)
  qed
qed

end

end
