(* ===== verification/Skvs_Atomicity.thy ===== *)
theory Skvs_Atomicity
  imports Skvs_Journal Skvs_Demo
begin

text \<open>
  Transactions over the whole engine: \<open>execute_single_statement\<close> keeps the journal faithful at
  every trigger depth (the interpretation \<open>engine_runner\<close>), so a failed autocommit statement and a
  rolled back transaction leave every row as it was, and a panic leaves a journal that could undo it.
\<close>

section \<open>The engine runs trigger bodies itself\<close>

lemma engine_row_run:
  "row_statement st \<Longrightarrow> keeps (row_run E db i) (execute_single_statement E n db st ps (Some i))"
proof (induction n arbitrary: st ps)
  case 0
  show ?case by (simp add: keeps_def row_run_refl)
next
  case (Suc n)
  have r: "row_runner E db i (\<lambda>st. execute_single_statement E n db st [] (Some i))"
    by unfold_locales (rule Suc.IH)
  show ?case
  proof (cases st)
    case (SInsert name cols source)
    then show ?thesis
      using row_runner.execute_insert_keeps [OF r] by (simp add: Let_def)
  next
    case (SUpdate relation assigns selection)
    then show ?thesis
      using row_runner.execute_update_keeps [OF r] by (simp add: Let_def)
  next
    case (SDelete tables froms selection)
    then show ?thesis
      using row_runner.execute_delete_keeps [OF r] by (simp add: Let_def)
  qed (use Suc.prems in \<open>auto simp: row_statement_def row_run_pure Let_def\<close>)
qed

interpretation engine_runner: row_runner E db i "\<lambda>st. execute_single_statement E n db st [] (Some i)"
  for E db i n
  by unfold_locales (rule engine_row_run)

section \<open>Rolling back\<close>

lemma undo_all_restores:
  assumes sound: "sound s0" and faithful: "journal_faithful db ops s0 s" and others: "others_same db s0 s"
    and shape: "same_shape s0 s"
  shows "row_at (undo_all db ops s) db' t rid = row_at s0 db' t rid"
proof -
  have dbs: "k_dbs s = k_dbs s0" using shape by (simp add: same_shape_def)
  have "stores_distinct s" using sound stores_distinct_cong [OF dbs] by (simp add: sound_def)
  note u = undo_all_row_at [OF this, of db ops db' t rid]
  have none: "row_at s db t rid = None \<and> row_at s0 db t rid = None" if "get_table_store s db t = None"
    using that get_table_store_cong [OF dbs, of db t] by (simp add: row_at_def)
  have f: "case List.find (\<lambda>op. undo_key op = (t, rid)) ops of
      Some op \<Rightarrow> undo_row op = row_at s0 db t rid | None \<Rightarrow> row_at s db t rid = row_at s0 db t rid"
    using faithful by (simp add: journal_faithful_def)
  show ?thesis
    using f none others unfolding u others_same_def
    by (cases "db' = db"; cases "get_table_store s db t") (auto split: option.splits)
qed

lemma journaled_rollback:
  assumes j: "journaled db i s0 s" and tx: "tx_journal s0 i = Some []" "tx_db s0 i = Some db"
    and snd: "sound s0" and bd: "gens_bounded db s"
  shows "fst (txn_rollback i s) = Done ()"
    and "row_at (snd (txn_rollback i s)) db' t rid = row_at s0 db' t rid"
proof -
  obtain ops where ops: "tx_journal s i = Some ([] @ ops)" "tx_db s i = tx_db s0 i"
    and 1: "sound s0 \<Longrightarrow> gens_bounded db s \<Longrightarrow> others_same db s0 s"
      "sound s0 \<Longrightarrow> gens_bounded db s \<Longrightarrow> grows db s0 s"
      "sound s0 \<Longrightarrow> gens_bounded db s \<Longrightarrow> journal_faithful db ops s0 s"
    by (rule journaled_journal [OF j tx(1)]) blast
  obtain entry where e: "tm_active (k_txns s) i = Some entry" "te_journal entry = ops" "te_db_id entry = db"
    using ops tx(2) by (auto simp: tx_journal_def tx_db_def)
  show "fst (txn_rollback i s) = Done ()" by (simp add: txn_rollback_def e)
  have frame: "k_dbs (txn_remove i s) = k_dbs s" "k_heap (txn_remove i s) = k_heap s"
    "k_schemas (txn_remove i s) = k_schemas s" "k_triggers (txn_remove i s) = k_triggers s"
    "k_views (txn_remove i s) = k_views s"
    by (simp_all add: txn_remove_def set_txns_def)
  have row: "row_at (txn_remove i s) db' t rid = row_at s db' t rid" for db' t rid
    by (rule row_at_cong) (simp_all add: frame)
  have "row_at (undo_all db ops (txn_remove i s)) db' t rid = row_at s0 db' t rid"
  proof (rule undo_all_restores [OF snd])
    show "journal_faithful db ops s0 (txn_remove i s)"
      using 1(3) [OF snd bd] unfolding journal_faithful_def row .
    show "others_same db s0 (txn_remove i s)"
      using 1(1) [OF snd bd] unfolding others_same_def row .
    show "same_shape s0 (txn_remove i s)"
      using journaled_frame(1) [OF j] by (simp add: same_shape_def frame)
  qed
  then show "row_at (snd (txn_rollback i s)) db' t rid = row_at s0 db' t rid"
    by (simp add: txn_rollback_def e)
qed

lemma txn_begin_state:
  assumes "txn_begin db s = (o1, s1)"
  obtains i where "o1 = Done i" "i = tm_next_id (k_txns s)" "k_dbs s1 = k_dbs s" "k_heap s1 = k_heap s"
    "k_schemas s1 = k_schemas s" "k_triggers s1 = k_triggers s" "k_views s1 = k_views s"
    "k_rowid_gens s1 = k_rowid_gens s" "tx_journal s1 i = Some []" "tx_db s1 i = Some db"
  using assms by (auto simp: txn_begin_def set_txns_def Let_def tx_journal_def tx_db_def)

lemma sound_cong:
  "k_dbs s = k_dbs s' \<Longrightarrow> k_heap s = k_heap s' \<Longrightarrow> k_rowid_gens s = k_rowid_gens s' \<Longrightarrow> sound s = sound s'"
  unfolding sound_def ids_issued_def
  using stores_distinct_cong [of s s'] heap_wf_cong [of s s'] row_at_cong [of s s']
  by (simp add: rowid_gen_def)

lemma gens_bounded_cong: "k_rowid_gens s = k_rowid_gens s' \<Longrightarrow> gens_bounded db s = gens_bounded db s'"
  by (simp add: gens_bounded_def rowid_gen_def)

lemma gens_rollback: "k_rowid_gens (snd (txn_rollback i s)) = k_rowid_gens s"
  by (simp add: txn_rollback_def txn_remove_def set_txns_def split: option.split)

text \<open>C1. An INSERT, UPDATE or DELETE that fails outside a transaction leaves no trace in any row: every row of
  every table of every database is what it was, although earlier rows of the statement, and the
  triggers they fired at any depth, had already written. This is so where every trigger body of the
  database that parses holds row statements only (INSERT, UPDATE, DELETE, SELECT): schema statements,
  in a body or on their own, are not journalled. (Row ids are unique and below their counters, which
  have not passed 64 bits.)\<close>

theorem autocommit_atomic:
  assumes "iter_ok E" "sound s" "triggers_row_only E db s" "is_dml stmt"
    and run: "execute_statement E n db stmt ps None s = (Fail e, s')"
    and "gens_bounded db s'"
  shows "row_at s' db' t rid = row_at s db' t rid"
proof -
  obtain o1 s1 where b: "txn_begin db s = (o1, s1)" by force
  obtain i where i: "o1 = Done i" and f: "k_dbs s1 = k_dbs s" "k_heap s1 = k_heap s"
    "k_triggers s1 = k_triggers s" "k_rowid_gens s1 = k_rowid_gens s"
    and tx: "tx_journal s1 i = Some []" "tx_db s1 i = Some db"
    by (rule txn_begin_state [OF b]) blast
  obtain r s2 where r: "execute_single_statement E n db stmt ps (Some i) s1 = (r, s2)" by force
  have "run_atomic db (\<lambda>shadow. execute_single_statement E n db stmt ps (Some shadow)) s = (Fail e, s')"
    using run assms(4) by (cases stmt) (simp_all add: execute_statement_def)
  then have s': "s' = snd (txn_rollback i s2)"
    using b i r by (auto simp: run_atomic_def ebind_def split: outcome.splits)
  have "row_statement stmt" using assms(4) by (simp add: row_statement_def)
  from keepsD [OF engine_row_run [OF this] r] have "journaled db i s1 s2"
    using assms(1,3) triggers_row_only_cong [OF f(3), of E db] by (simp add: row_run_def)
  moreover have "sound s1" using assms(2) sound_cong [of s1 s] f by simp
  moreover have "gens_bounded db s2"
    using assms(6) gens_bounded_cong [OF gens_rollback [of i s2], of db] s' by simp
  ultimately have "row_at s' db' t rid = row_at s1 db' t rid"
    using journaled_rollback(2) [OF _ tx] s' by simp
  also have "\<dots> = row_at s db' t rid" by (rule row_at_cong) (simp_all add: f)
  finally show ?thesis .
qed

text \<open>A client's statements under one transaction id, whatever each of them answers.\<close>

fun run_statements ::
  "('x) env_scheme \<Rightarrow> nat \<Rightarrow> u32 \<Rightarrow> u32 \<Rightarrow> (statement \<times> skvs_value list) list \<Rightarrow> kvs \<Rightarrow> kvs" where
  "run_statements E n db i [] s = s"
| "run_statements E n db i ((st, ps) # rest) s =
     run_statements E n db i rest (snd (execute_statement E n db st ps (Some i) s))"

lemma run_statements_run:
  "list_all (\<lambda>(st, _). row_statement st) sts \<Longrightarrow> row_run E db i s (run_statements E n db i sts s)"
proof (induction sts arbitrary: s)
  case Nil
  show ?case by (simp add: row_run_refl)
next
  case (Cons x sts)
  obtain st ps where x: "x = (st, ps)" by force
  have st: "row_statement st" using Cons.prems by (simp add: x)
  have "execute_statement E n db st ps (Some i) = execute_single_statement E n db st ps (Some i)"
    using st by (cases st) (auto simp: execute_statement_def row_statement_def)
  then have "row_run E db i s (snd (execute_statement E n db st ps (Some i) s))"
    using engine_row_run [OF st, of E db i n ps] by (simp add: keeps_def)
  moreover have "row_run E db i s1 (run_statements E n db i sts s1)" for s1
    using Cons by simp
  ultimately show ?case by (simp add: x) (rule row_run_trans)
qed

text \<open>C5. ROLLBACK undoes a whole transaction: after BEGIN, any sequence of row statements (INSERT, UPDATE,
  DELETE, SELECT; some of them failing, some firing triggers) and ROLLBACK, every row of every table
  of every database is what it was before BEGIN, and ROLLBACK answers with an empty result. As for a
  failed statement, every trigger body of the database that parses must hold row statements only, since
  what a schema statement does is not journalled. (Row ids are unique and below their counters, which
  have not passed 64 bits.)\<close>

theorem transaction_rollback_restores:
  assumes "iter_ok E" "sound s" "triggers_row_only E db s"
    and "list_all (\<lambda>(st, _). row_statement st) sts"
    and b: "execute_statement E n db SStartTransaction [] None s = (Done q, s1)"
    and i: "qr_tx_id q = Some i"
    and s2: "s2 = run_statements E n db i sts s1" and "gens_bounded db s2"
    and rb: "execute_statement E n db SRollback [] (Some i) s2 = (r, s3)"
  shows "r = Done qr_empty \<and> row_at s3 db' t rid = row_at s db' t rid"
proof -
  obtain o1 s1' where b': "txn_begin db s = (o1, s1')" by force
  obtain i' where i': "o1 = Done i'" and f: "k_dbs s1' = k_dbs s" "k_heap s1' = k_heap s"
    "k_triggers s1' = k_triggers s" "k_rowid_gens s1' = k_rowid_gens s"
    and tx: "tx_journal s1' i' = Some []" "tx_db s1' i' = Some db"
    by (rule txn_begin_state [OF b']) blast
  have [simp]: "s1' = s1" "i' = i"
    using b b' i i' by (auto simp: execute_statement_def ebind_def eret_def qr_began_def)
  have "row_run E db i s1 s2" unfolding s2 by (rule run_statements_run [OF assms(4)])
  then have j: "journaled db i s1 s2"
    using assms(1,3) triggers_row_only_cong [OF f(3), of E db] by (simp add: row_run_def)
  have snd: "sound s1" using assms(2) sound_cong [of s1 s] f by simp
  note undone = journaled_rollback [OF j _ _ snd assms(8)]
  have "execute_statement E n db SRollback [] (Some i) s2 = (Done qr_empty, snd (txn_rollback i s2))"
    using undone(1) tx by (cases "txn_rollback i s2") (simp add: execute_statement_def ebind_def eret_def)
  then have rs: "r = Done qr_empty" "s3 = snd (txn_rollback i s2)" using rb by simp_all
  have "row_at s3 db' t rid = row_at s1 db' t rid" using undone(2) tx rs(2) by simp
  also have "\<dots> = row_at s db' t rid" by (rule row_at_cong) (use f in simp_all)
  finally show ?thesis using rs(1) by simp
qed

text \<open>C37. A panic in a row statement escapes the autocommit wrapper, which neither commits nor rolls back: the
  statement's own transaction, under the next id of the manager, stays active, with a complete journal
  of what the statement and its triggers have written so far. A ROLLBACK of that id, which no caller was
  ever told, would restore every row of every table. (Conditions as for a failed statement.)\<close>

theorem panic_leaves_open_transaction:
  assumes "iter_ok E" "sound s" "triggers_row_only E db s" "is_dml stmt"
    and run: "execute_statement E n db stmt ps None s = (Panic, s')"
    and "gens_bounded db s'" and i: "i = tm_next_id (k_txns s)"
    and rb: "execute_statement E n db SRollback [] (Some i) s' = (r, s2)"
  shows "txn_is_active s' i \<and> r = Done qr_empty \<and> row_at s2 db' t rid = row_at s db' t rid"
proof -
  obtain o1 s1 where b: "txn_begin db s = (o1, s1)" by force
  have o: "o1 = Done i" and f: "k_dbs s1 = k_dbs s" "k_heap s1 = k_heap s"
    "k_triggers s1 = k_triggers s" "k_rowid_gens s1 = k_rowid_gens s"
    and tx: "tx_journal s1 i = Some []" "tx_db s1 i = Some db"
    by (rule txn_begin_state [OF b]; simp add: i)+
  obtain q s3 where r: "execute_single_statement E n db stmt ps (Some i) s1 = (q, s3)" by force
  have "run_atomic db (\<lambda>shadow. execute_single_statement E n db stmt ps (Some shadow)) s = (Panic, s')"
    using run assms(4) by (cases stmt) (simp_all add: execute_statement_def)
  then have s': "s' = s3"
    using b o r by (auto simp: run_atomic_def ebind_def split: outcome.splits)
  have "row_statement stmt" using assms(4) by (simp add: row_statement_def)
  from keepsD [OF engine_row_run [OF this] r] have j: "journaled db i s1 s'"
    using assms(1,3) triggers_row_only_cong [OF f(3), of E db] by (simp add: row_run_def s')
  have "sound s1" using assms(2) sound_cong [of s1 s] f by simp
  note undone = journaled_rollback [OF j tx this assms(6)]
  obtain jn where "tx_journal s' i = Some ([] @ jn)" by (rule journaled_journal [OF j tx(1)]) blast
  then have "txn_is_active s' i" by (auto simp: tx_journal_def txn_is_active_def)
  moreover have "execute_statement E n db SRollback [] (Some i) s' = (Done qr_empty, snd (txn_rollback i s'))"
    using undone(1) by (cases "txn_rollback i s'") (simp add: execute_statement_def ebind_def eret_def)
  moreover have "row_at s1 db' t rid = row_at s db' t rid" by (rule row_at_cong) (simp_all add: f)
  ultimately show ?thesis using rb undone(2) by simp
qed

section \<open>Concrete runs\<close>

text \<open>\<open>t (a INTEGER UNIQUE)\<close> holds 1; \<open>INSERT INTO t (a) VALUES (2), (1)\<close> fails on its second row.\<close>

definition unique_state :: kvs where
  "unique_state = demo_state True [] 2 [(1, [(''a'', VInteger 1)])]"

definition two_rows :: statement where
  "two_rows = SInsert [nm ''t''] [nm ''a'']
     (Some \<lparr>q_body = ValuesBody [[ValueE (Number ''2'')], [ValueE (Number ''1'')]],
            q_order_by = [], q_limit = None, q_offset = None\<rparr>)"

lemma row_at_demo:
  "row_at (demo_state uniq idxs g rs) db t rid = (if db = 0 \<and> t = ''t'' then map_of rs rid else None)"
  by (simp add: row_at_def store_get_def)

lemma demo_sound:
  "wf_alist rs \<Longrightarrow> \<forall>rid. map_of rs rid \<noteq> None \<longrightarrow> unat rid < g \<Longrightarrow> sound (demo_state uniq idxs g rs)"
  by (auto simp: sound_def stores_distinct_def heap_wf_def ids_issued_def row_at_demo)

lemma demo_triggers: "triggers_row_only E db (demo_state uniq idxs g rs)"
  by (simp add: triggers_row_only_def)

lemma gens_bounded_one:
  "k_rowid_gens s db = Some [(t, g)] \<Longrightarrow> g \<le> 2 ^ 64 \<Longrightarrow> gens_bounded db s"
  by (auto simp: gens_bounded_def rowid_gen_def outer_def)

lemma gens_bounded_two:
  "k_rowid_gens s db = Some [(t, g), (u, h)] \<Longrightarrow> g \<le> 2 ^ 64 \<Longrightarrow> h \<le> 2 ^ 64 \<Longrightarrow> gens_bounded db s"
  by (auto simp: gens_bounded_def rowid_gen_def outer_def)

text \<open>The same table beside an empty \<open>u\<close>, with \<open>CREATE TRIGGER g AFTER INSERT ON t\<close>, whose body is an insertion
  into \<open>u\<close>.\<close>

definition audit_env :: env where
  "audit_env = plain_env\<lparr>parse_sql := \<lambda>_. Inr [SInsert [nm ''u''] [nm ''a'']
     (Some \<lparr>q_body = ValuesBody [[ValueE (Number ''7'')]], q_order_by = [], q_limit = None, q_offset = None\<rparr>)]\<rparr>"

definition audit_trigger :: trigger_def where
  "audit_trigger = \<lparr>tr_name = ''g'', tr_timing = TAfter, tr_event = TInsert, tr_table = ''t'', tr_for_each_row = True,
     tr_condition = None, tr_body = ''INSERT INTO u (a) VALUES (7)''\<rparr>"

definition audited_state :: kvs where
  "audited_state = unique_state
     \<lparr>k_dbs := (\<lambda>db. if db = 0 then Some [(''t'', 0), (''u'', 1)] else None), k_next_ref := 2,
      k_schemas := (\<lambda>db. if db = 0 then Some [(''t'', demo_schema ''t'' True []), (''u'', demo_schema ''u'' False [])] else None),
      k_rowid_gens := (\<lambda>db. if db = 0 then Some [(''t'', 2), (''u'', 1)] else None),
      k_triggers := (\<lambda>db. if db = 0 then Some [(''t'', [audit_trigger])] else None)\<rparr>"

lemma row_at_audited:
  "row_at audited_state db t rid =
     (if db = 0 \<and> t = ''t'' then map_of [(1, [(''a'', VInteger 1)])] rid else None)"
  by (auto simp: row_at_def store_get_def audited_state_def unique_state_def demo_state_def get_table_store_def)

lemma audited_state_sound: "sound audited_state"
  unfolding sound_def stores_distinct_def heap_wf_def ids_issued_def
  by (auto simp: row_at_audited rowid_gen_def outer_def)
    (auto simp: audited_state_def unique_state_def demo_state_def get_table_store_def split: if_splits)

lemma audited_triggers: "triggers_row_only audit_env 0 audited_state"
proof -
  have "parse_sql audit_env sql = Inr stmts \<Longrightarrow> list_all row_statement stmts" for sql stmts
    by (auto simp: audit_env_def row_statement_def)
  then show ?thesis by (auto simp: triggers_row_only_def)
qed

lemma audit_env_ok: "iter_ok audit_env"
  by (simp add: audit_env_def iter_ok_def plain_env_def)

text \<open>The insertion of 2 and 1 writes \<open>t\<close> and, through the trigger, \<open>u\<close>, before it fails.\<close>

lemma two_rows_run:
  "fst (execute_statement audit_env 3 0 two_rows [] None audited_state) =
     Fail (EConstraintViolation ''UNIQUE constraint failed: t.a'')"
  "k_rowid_gens (snd (execute_statement audit_env 3 0 two_rows [] None audited_state)) 0 = Some [(''t'', 4), (''u'', 2)]"
  "row_at (snd (execute_single_statement audit_env 3 0 two_rows [] None audited_state)) 0 ''u'' 1 =
     Some [(''a'', VInteger 7)]"
  by code_simp+

theorem autocommit_atomic_witness:
  "row_at (snd (execute_single_statement audit_env 3 0 two_rows [] None audited_state)) 0 ''u'' 1 =
     Some [(''a'', VInteger 7)] \<and>
   row_at (snd (execute_statement audit_env 3 0 two_rows [] None audited_state)) 0 ''u'' 1 = None \<and>
   row_at (snd (execute_statement audit_env 3 0 two_rows [] None audited_state)) 0 ''t'' 2 = None"
proof -
  let ?x = "execute_statement audit_env 3 0 two_rows [] None audited_state"
  have x: "?x = (Fail (EConstraintViolation ''UNIQUE constraint failed: t.a''), snd ?x)"
    by (metis two_rows_run(1) prod.collapse)
  have g: "gens_bounded 0 (snd ?x)" by (rule gens_bounded_two [OF two_rows_run(2)]) simp_all
  have "is_dml two_rows" by (simp add: two_rows_def)
  from autocommit_atomic [OF audit_env_ok audited_state_sound audited_triggers this x g]
  show ?thesis using two_rows_run(3) by (simp add: row_at_audited)
qed

text \<open>BEGIN; an insertion that fires the trigger and one that fails; ROLLBACK.\<close>

definition one_row :: "string \<Rightarrow> statement" where
  "one_row n = SInsert [nm ''t''] [nm ''a'']
     (Some \<lparr>q_body = ValuesBody [[ValueE (Number n)]], q_order_by = [], q_limit = None,
            q_offset = None\<rparr>)"

definition begun_state :: kvs where
  "begun_state = snd (execute_statement audit_env 3 0 SStartTransaction [] None audited_state)"

definition worked_state :: kvs where
  "worked_state = run_statements audit_env 3 0 1 [(one_row ''2'', []), (one_row ''1'', [])] begun_state"

lemma worked_state_facts:
  "k_rowid_gens worked_state 0 = Some [(''t'', 4), (''u'', 2)]"
  "row_at worked_state 0 ''t'' 2 = Some [(''a'', VInteger 2)]"
  "row_at worked_state 0 ''u'' 1 = Some [(''a'', VInteger 7)]"
  by code_simp+

theorem transaction_rollback_restores_witness:
  "let (r, s) = execute_statement audit_env 3 0 SRollback [] (Some 1) worked_state in
   row_at worked_state 0 ''u'' 1 = Some [(''a'', VInteger 7)] \<and>
   r = Done qr_empty \<and> row_at s 0 ''u'' 1 = None \<and> row_at s 0 ''t'' 2 = None"
proof -
  let ?sts = "[(one_row ''2'', []), (one_row ''1'', [])]"
  obtain r s where x: "execute_statement audit_env 3 0 SRollback [] (Some 1) worked_state = (r, s)" by force
  have b: "execute_statement audit_env 3 0 SStartTransaction [] None audited_state = (Done (qr_began 1), begun_state)"
    by (simp add: begun_state_def execute_statement_def txn_begin_def ebind_def eret_def Let_def
        audited_state_def unique_state_def txn_new_def)
  have g: "gens_bounded 0 worked_state" by (rule gens_bounded_two [OF worked_state_facts(1)]) simp_all
  have st: "list_all (\<lambda>(st, _). row_statement st) ?sts" by (simp add: one_row_def row_statement_def)
  have i: "qr_tx_id (qr_began 1) = Some 1" by (simp add: qr_began_def)
  note rule = transaction_rollback_restores [OF audit_env_ok audited_state_sound audited_triggers st b i worked_state_def g x]
  show ?thesis using rule [of 0 "''u''" 1] rule [of 0 "''t''" 2] worked_state_facts(3) by (simp add: x row_at_audited)
qed

text \<open>\<open>t\<close> holds 5 and the smallest integer.\<close>

definition min_state :: kvs where
  "min_state = demo_state False [] 3
     [(1, [(''a'', VInteger 5)]), (2, [(''a'', VInteger 0x8000000000000000)])]"

text \<open>\<open>UPDATE t SET a = a % -1\<close>\<close>

definition mod_update :: statement where
  "mod_update = SUpdate (TableFactor [nm ''t''] None)
     [\<lparr>as_id = [nm ''a''], as_value = BinaryOp (Identifier (nm ''a'')) BModulo
          (UnaryOp UMinus (ValueE (Number ''1'')))\<rparr>] None"

text \<open>A panic in the evaluator: the update over the rows 5 and i64::MIN panics on the second row, after the
  first has been written.\<close>

theorem update_panic_leaves_partial_write:
  "fst (execute_statement plain_env 1 0 mod_update [] None min_state) = Panic \<and>
   row_at min_state 0 ''t'' 1 = Some [(''a'', VInteger 5)] \<and>
   row_at (snd (execute_statement plain_env 1 0 mod_update [] None min_state)) 0 ''t'' 1 =
     Some [(''a'', VInteger 0)] \<and>
   txn_is_active (snd (execute_statement plain_env 1 0 mod_update [] None min_state)) 1"
  by code_simp

lemma min_state_panics:
  "fst (execute_statement plain_env 1 0 mod_update [] None min_state) = Panic"
  "k_rowid_gens (snd (execute_statement plain_env 1 0 mod_update [] None min_state)) 0 = Some [(''t'', 3)]"
  "row_at (snd (execute_statement plain_env 1 0 mod_update [] None min_state)) 0 ''t'' 1 = Some [(''a'', VInteger 0)]"
  by code_simp+

theorem panic_leaves_open_transaction_witness:
  "let s = snd (execute_statement plain_env 1 0 mod_update [] None min_state);
       s2 = snd (execute_statement plain_env 1 0 SRollback [] (Some 1) s) in
   row_at s 0 ''t'' 1 = Some [(''a'', VInteger 0)] \<and> txn_is_active s 1 \<and> row_at s2 0 ''t'' 1 = Some [(''a'', VInteger 5)]"
proof -
  let ?x = "execute_statement plain_env 1 0 mod_update [] None min_state"
  let ?y = "execute_statement plain_env 1 0 SRollback [] (Some 1) (snd ?x)"
  have x: "?x = (Panic, snd ?x)" by (metis min_state_panics(1) prod.collapse)
  have y: "?y = (fst ?y, snd ?y)" by simp
  have g: "gens_bounded 0 (snd ?x)" by (rule gens_bounded_one [OF min_state_panics(2)]) simp
  have snd: "sound min_state" unfolding min_state_def by (rule demo_sound) (auto split: if_splits)
  have trg: "triggers_row_only plain_env 0 min_state" unfolding min_state_def by (rule demo_triggers)
  have i: "1 = tm_next_id (k_txns min_state)" by (simp add: min_state_def txn_new_def)
  have "is_dml mod_update" by (simp add: mod_update_def)
  from panic_leaves_open_transaction [OF plain_env_ok snd trg this x g i y, of 0 "''t''" 1]
  show ?thesis using min_state_panics(3) by (simp add: Let_def min_state_def row_at_demo)
qed

end
