(* ===== verification/Skvs_Rows.thy ===== *)
theory Skvs_Rows
  imports Skvs_Atomicity
begin

text \<open>
  INSERT, UPDATE and DELETE on a table without triggers. Such a statement is a sequence of row
  changes (\<open>row_changes\<close>), each true to the row it replaces and each written row validated, on every
  outcome (\<open>dml_changes\<close>). When it succeeds its effect on the rows is the expected one, and every
  other table is left alone.
\<close>

section \<open>Changes of rows\<close>

datatype row_change =
    Inserted rowid row
  | Updated rowid row row
  | Deleted rowid row

fun change_rows :: "row_change \<Rightarrow> (rowid \<Rightarrow> row option) \<Rightarrow> (rowid \<Rightarrow> row option)" where
  "change_rows (Inserted rid r) R = R(rid \<mapsto> r)"
| "change_rows (Updated rid old_row r) R = R(rid \<mapsto> r)"
| "change_rows (Deleted rid r) R = R(rid := None)"

fun write_change :: "u32 \<Rightarrow> string \<Rightarrow> store_ref \<Rightarrow> u32 option \<Rightarrow> row_change \<Rightarrow> kvs \<Rightarrow> kvs" where
  "write_change db t ref tx (Inserted rid r) s = write_insert db t ref tx rid r s"
| "write_change db t ref tx (Updated rid old_row r) s = write_update db t ref tx rid old_row r s"
| "write_change db t ref tx (Deleted rid r) s = write_delete db t ref tx rid r s"

text \<open>A change that fits the table: what it says of the row's old state is true, and a row it writes was validated.\<close>

fun change_fits :: "('x) env_scheme \<Rightarrow> u32 \<Rightarrow> table_schema \<Rightarrow> kvs \<Rightarrow> (rowid \<Rightarrow> row option) \<Rightarrow> row_change \<Rightarrow> bool" where
  "change_fits E db schema s R (Inserted rid r) \<longleftrightarrow>
     R rid = None \<and> validate_constraints E s db schema r rid = Done ()"
| "change_fits E db schema s R (Updated rid old_row r) \<longleftrightarrow>
     R rid = Some old_row \<and> validate_constraints E s db schema r rid = Done ()"
| "change_fits E db schema s R (Deleted rid r) \<longleftrightarrow> R rid = Some r"

text \<open>A run of a handler on one table: ids issued and fitting changes, in their order.\<close>

inductive row_changes ::
  "('x) env_scheme \<Rightarrow> u32 \<Rightarrow> string \<Rightarrow> table_schema \<Rightarrow> store_ref \<Rightarrow> u32 option \<Rightarrow> kvs \<Rightarrow> row_change list \<Rightarrow> kvs \<Rightarrow> bool"
  for E :: "('x) env_scheme" and db t schema ref tx and s :: kvs where
  changes_none: "row_changes E db t schema ref tx s [] s"
| changes_issue:
    "row_changes E db t schema ref tx s cs s1 \<Longrightarrow>
     row_changes E db t schema ref tx s cs (set_rowid_gen db t (Suc (rowid_gen s1 db t)) s1)"
| changes_write:
    "row_changes E db t schema ref tx s cs s1 \<Longrightarrow> change_fits E db schema s1 (row_at s1 db t) c \<Longrightarrow>
     row_changes E db t schema ref tx s (cs @ [c]) (write_change db t ref tx c s1)"

text \<open>A table without triggers, in a sound state.\<close>

definition quiet_table :: "kvs \<Rightarrow> u32 \<Rightarrow> string \<Rightarrow> table_schema \<Rightarrow> store_ref \<Rightarrow> bool" where
  "quiet_table s db t schema ref \<longleftrightarrow>
     get_schema s db t = Some schema \<and> get_table_store s db t = Some ref \<and> get_triggers s db t = [] \<and>
     stores_distinct s \<and> heap_wf s"

lemma write_change_fields [simp]:
  "k_dbs (write_change db t ref tx c s) = k_dbs s" "k_schemas (write_change db t ref tx c s) = k_schemas s"
  "k_triggers (write_change db t ref tx c s) = k_triggers s"
  "k_rowid_gens (write_change db t ref tx c s) = k_rowid_gens s"
  by (cases c; simp add: write_insert_def write_update_def write_delete_def)+

lemma write_change_heap:
  "heap_wf s \<Longrightarrow> heap_wf (write_change db t ref tx c s)"
  by (cases c) (auto simp: write_insert_def write_update_def write_delete_def heap_wf_write
      cong: heap_wf_cong)

lemma quiet_table_cong:
  "k_dbs s = k_dbs s' \<Longrightarrow> k_schemas s = k_schemas s' \<Longrightarrow> k_triggers s = k_triggers s' \<Longrightarrow>
   heap_wf s = heap_wf s' \<Longrightarrow> quiet_table s db t schema ref = quiet_table s' db t schema ref"
  using stores_distinct_cong [of s s'] get_table_store_cong [of s s' db t]
  by (simp add: quiet_table_def get_schema_def get_triggers_def)

lemma quiet_write_change:
  assumes "quiet_table s db t schema ref"
  shows "quiet_table (write_change db t ref tx c s) db t schema ref"
proof -
  have "heap_wf s" "heap_wf (write_change db t ref tx c s)"
    using assms write_change_heap by (auto simp: quiet_table_def)
  then show ?thesis
    using quiet_table_cong [of "write_change db t ref tx c s" s db t schema ref] assms by simp
qed

lemma quiet_issue:
  assumes "quiet_table s db t schema ref"
  shows "quiet_table (set_rowid_gen db' t' g s) db t schema ref"
  using quiet_table_cong [of "set_rowid_gen db' t' g s" s db t schema ref] assms
  by (simp add: heap_wf_def)

lemma row_at_write_change:
  assumes "quiet_table s db t schema ref"
  shows "row_at (write_change db t ref tx c s) db' t' rid =
     (if db' = db \<and> t' = t then change_rows c (row_at s db t) rid else row_at s db' t' rid)"
proof -
  have d: "stores_distinct s" "get_table_store s db t = Some ref"
    using assms by (simp_all add: quiet_table_def)
  show ?thesis
    by (cases c) (auto simp: write_insert_def write_update_def write_delete_def
        row_at_store_insert [OF d] row_at_store_remove [OF d])
qed

declare write_change.simps [simp del]

lemma row_at_issue [simp]: "row_at (set_rowid_gen db' t' g s) db t rid = row_at s db t rid"
  by (rule row_at_cong) simp_all

lemma row_changes_quiet:
  "row_changes E db t schema ref tx s cs s' \<Longrightarrow> quiet_table s db t schema ref \<Longrightarrow> quiet_table s' db t schema ref"
  by (induction rule: row_changes.induct) (simp_all add: quiet_issue quiet_write_change)

text \<open>Nothing else changes, and the table's rows are changed one by one.\<close>

lemma row_changes_rows:
  assumes "row_changes E db t schema ref tx s cs s'" "quiet_table s db t schema ref"
  shows "row_at s' db' t' rid =
     (if db' = db \<and> t' = t then fold change_rows cs (row_at s db t) rid else row_at s db' t' rid)"
  using assms
proof (induction arbitrary: db' t' rid rule: row_changes.induct)
  case (changes_write cs s1 c)
  have q: "quiet_table s1 db t schema ref"
    by (rule row_changes_quiet [OF changes_write.hyps(1) changes_write.prems])
  have "row_at s1 db t = fold change_rows cs (row_at s db t)"
    using changes_write.IH [OF changes_write.prems, of db t] by (simp add: fun_eq_iff)
  then show ?case
    using changes_write.IH [OF changes_write.prems] by (simp add: row_at_write_change [OF q])
qed simp_all

lemma rowid_gen_write_change [simp]: "rowid_gen (write_change db t ref tx c s) db' t' = rowid_gen s db' t'"
  by (simp add: rowid_gen_def)

lemma row_changes_gens:
  "row_changes E db t schema ref tx s cs s' \<Longrightarrow> rowid_gen s db t \<le> rowid_gen s' db t"
  by (induction rule: row_changes.induct) simp_all

lemma row_changes_trans:
  assumes "row_changes E db t schema ref tx s cs s1" "row_changes E db t schema ref tx s1 cs' s2"
  shows "row_changes E db t schema ref tx s (cs @ cs') s2"
  using assms(2)
proof (induction rule: row_changes.induct)
  case (changes_write cs'' s3 c)
  from row_changes.changes_write [OF changes_write.IH changes_write.hyps(2)] show ?case by simp
qed (simp_all add: assms(1) row_changes.changes_issue)

section \<open>The handlers on a table without triggers\<close>

lemma fire_quiet: "quiet_table s db t schema ref \<Longrightarrow>
  fire_triggers E run db t ev tm old_row new_row s = (Done (), s)"
  by (simp add: quiet_table_def fire_triggers_def ebind_def eget_def eret_def)

definition rows_issued :: "kvs \<Rightarrow> u32 \<Rightarrow> string \<Rightarrow> bool" where
  "rows_issued s db t \<longleftrightarrow> (\<forall>rid. row_at s db t rid \<noteq> None \<longrightarrow> unat rid < rowid_gen s db t)"

lemma fst_in: "(a, b) \<in> set xs \<Longrightarrow> a \<in> fst ` set xs"
  by force

lemma rows_issuedI: "sound s \<Longrightarrow> rows_issued s db t"
  by (simp add: sound_def ids_issued_def rows_issued_def)

fun inserted :: "table_schema \<Rightarrow> nat \<Rightarrow> row list \<Rightarrow> row_change list" where
  "inserted schema g [] = []"
| "inserted schema g (r # rs) =
     Inserted (word_of_nat g) (apply_defaults schema (word_of_nat g) r) # inserted schema (Suc g) rs"

lemma insert_row_cases:
  assumes q: "quiet_table s db t schema ref"
    and run: "insert_row E run db t schema ref tx r0 s = (res, s')"
  defines "g \<equiv> rowid_gen s db t"
  defines "s1 \<equiv> set_rowid_gen db t (Suc g) s"
  defines "c \<equiv> Inserted (word_of_nat g) (apply_defaults schema (word_of_nat g) r0)"
  obtains "res = Done ()" "validate_constraints E s1 db schema (apply_defaults schema (word_of_nat g) r0) (word_of_nat g) = Done ()"
      "s' = write_change db t ref tx c s1" |
    "res \<noteq> Done ()" "s' = s1"
proof -
  let ?rid = "word_of_nat g :: rowid" and ?r = "apply_defaults schema (word_of_nat g) r0"
  have q1: "quiet_table s1 db t schema ref" unfolding s1_def by (rule quiet_issue [OF q])
  note fires = fire_quiet [OF q1] fire_quiet [OF quiet_write_change [OF q1, of tx c], unfolded c_def]
  have "insert_row E run db t schema ref tx r0 s =
      (case validate_constraints E s1 db schema ?r ?rid of
         Done _ \<Rightarrow> (Done (), write_change db t ref tx c s1)
       | Fail e \<Rightarrow> (Fail e, s1) | Panic \<Rightarrow> (Panic, s1) | NoFuel \<Rightarrow> (NoFuel, s1))"
    unfolding insert_row_def ebind_app(1) [OF get_next_rowid_def] g_def [symmetric] s1_def [symmetric] Let_def
    by (simp add: ebind_def elift_def emodify_def c_def fires write_change.simps(1) [symmetric] split: outcome.split)
  then show thesis
    using that run by (cases "validate_constraints E s1 db schema ?r ?rid") auto
qed

lemma insert_row_quiet:
  assumes "quiet_table s db t schema ref" "insert_row E run db t schema ref tx r0 s = (res, s')"
  shows "quiet_table s' db t schema ref \<and> rowid_gen s' db t = Suc (rowid_gen s db t)"
  by (rule insert_row_cases [OF assms]) (simp_all add: assms(1) quiet_issue quiet_write_change)

lemma insert_rows_gens:
  assumes "quiet_table s db t schema ref" "eiter (insert_row E run db t schema ref tx) rows s = (res, s')"
  shows "rowid_gen s db t \<le> rowid_gen s' db t"
proof -
  have "inv_keeps (\<lambda>s1. rowid_gen s db t \<le> rowid_gen s1 db t \<and> quiet_table s1 db t schema ref)
      (insert_row E run db t schema ref tx r0)" for r0
    by (rule inv_keepsI) (use insert_row_quiet in fastforce)
  then have "inv_keeps (\<lambda>s1. rowid_gen s db t \<le> rowid_gen s1 db t \<and> quiet_table s1 db t schema ref)
      (eiter (insert_row E run db t schema ref tx) rows)"
    by (rule inv_keeps_iter)
  from inv_keepsD [OF this _ assms(2)] assms(1) show ?thesis by simp
qed

lemma insert_row_changes:
  assumes q: "quiet_table s db t schema ref" and i: "rows_issued s db t"
    and run: "insert_row E run db t schema ref tx r0 s = (res, s')" and b: "rowid_gen s' db t \<le> 2 ^ 64"
  shows "rowid_gen s' db t = Suc (rowid_gen s db t)"
    and "row_changes E db t schema ref tx s (if res = Done () then inserted schema (rowid_gen s db t) [r0] else []) s'"
    and "rows_issued s' db t"
proof -
  let ?g = "rowid_gen s db t"
  let ?rid = "word_of_nat ?g :: rowid" and ?s1 = "set_rowid_gen db t (Suc ?g) s"
  note cases = insert_row_cases [OF q run]
  show gen: "rowid_gen s' db t = Suc ?g" by (rule cases) simp_all
  have issue: "row_changes E db t schema ref tx s [] ?s1" by (rule changes_issue [OF changes_none])
  have u: "unat ?rid = ?g" using b gen by (simp add: unat_of_nat)
  then have none: "row_at s db t ?rid = None" using i by (auto simp: rows_issued_def)
  show c: "row_changes E db t schema ref tx s (if res = Done () then inserted schema ?g [r0] else []) s'"
  proof (rule cases)
    assume d: "res = Done ()" "validate_constraints E ?s1 db schema (apply_defaults schema ?rid r0) ?rid = Done ()"
      "s' = write_change db t ref tx (Inserted ?rid (apply_defaults schema ?rid r0)) ?s1"
    have "row_changes E db t schema ref tx s ([] @ [Inserted ?rid (apply_defaults schema ?rid r0)]) s'"
      unfolding d(3) by (rule changes_write [OF issue]) (use none d(2) in simp)
    then show ?thesis by (simp add: d(1))
  qed (use issue in simp)
  show "rows_issued s' db t"
    using i u unfolding rows_issued_def row_changes_rows [OF c q] gen
    by (auto simp: less_Suc_eq split: if_splits)
qed

lemma insert_rows_changes:
  assumes "quiet_table s db t schema ref" "rows_issued s db t"
    and "eiter (insert_row E run db t schema ref tx) rows s = (res, s')" "rowid_gen s' db t \<le> 2 ^ 64"
  shows "\<exists>k \<le> length rows. row_changes E db t schema ref tx s (inserted schema (rowid_gen s db t) (take k rows)) s' \<and>
    rowid_gen s db t + k \<le> rowid_gen s' db t \<and>
    (res = Done () \<longrightarrow> k = length rows \<and> rowid_gen s' db t = rowid_gen s db t + length rows)"
  using assms
proof (induction rows arbitrary: s)
  case Nil
  then show ?case by (simp add: eret_def changes_none)
next
  case (Cons r0 rows)
  obtain o1 s1 where 1: "insert_row E run db t schema ref tx r0 s = (o1, s1)" by force
  show ?case
  proof (cases "o1 = Done ()")
    case False
    then have "s' = s1" "res \<noteq> Done ()"
      using Cons.prems(3) 1 by (cases o1; auto simp: ebind_def)+
    then show ?thesis
      using insert_row_changes [OF Cons.prems(1,2) 1] Cons.prems(4) False
      by (intro exI [of _ 0]) simp
  next
    case True
    then have rest: "eiter (insert_row E run db t schema ref tx) rows s1 = (res, s')"
      using Cons.prems(3) 1 by (simp add: ebind_def)
    have q1: "quiet_table s1 db t schema ref" using insert_row_quiet [OF Cons.prems(1) 1] by simp
    have "rowid_gen s1 db t \<le> 2 ^ 64" using insert_rows_gens [OF q1 rest] Cons.prems(4) by simp
    note r = insert_row_changes [OF Cons.prems(1,2) 1 this]
    obtain k where "k \<le> length rows" "rowid_gen s1 db t + k \<le> rowid_gen s' db t"
      "res = Done () \<longrightarrow> k = length rows \<and> rowid_gen s' db t = rowid_gen s1 db t + length rows"
      "row_changes E db t schema ref tx s1 (inserted schema (rowid_gen s1 db t) (take k rows)) s'"
      using Cons.IH [OF q1 r(3) rest Cons.prems(4)] by blast
    then show ?thesis
      using row_changes_trans [OF r(2)] True r(1) by (intro exI [of _ "Suc k"]) simp
  qed
qed

text \<open>UPDATE: the rows are those the WHERE clause picked, each rewritten from its old state.\<close>

definition updated :: "('x) env_scheme \<Rightarrow> skvs_value list \<Rightarrow> assignment list \<Rightarrow> rowid \<times> row \<Rightarrow> row_change" where
  "updated E ps assigns entry =
     Updated (fst entry) (snd entry)
       (case eval_assignments E (snd entry) ps assigns 0 (snd entry) of Done r \<Rightarrow> r | _ \<Rightarrow> snd entry)"

lemma update_row_cases:
  assumes q: "quiet_table s db t schema ref"
    and run: "update_row E run db t schema ref tx assigns ps (rid, old_row) s = (res, s')"
  obtains r where "res = Done ()" "eval_assignments E old_row ps assigns 0 old_row = Done r"
      "validate_constraints E s db schema r rid = Done ()"
      "s' = write_change db t ref tx (Updated rid old_row r) s" |
    "res \<noteq> Done ()" "s' = s"
proof (cases "eval_assignments E old_row ps assigns 0 old_row")
  case (Done r)
  note fires = fire_quiet [OF q]
    fire_quiet [OF quiet_write_change [OF q, of tx "Updated rid old_row r"]]
  have "update_row E run db t schema ref tx assigns ps (rid, old_row) s =
      (case validate_constraints E s db schema r rid of
         Done _ \<Rightarrow> (Done (), write_change db t ref tx (Updated rid old_row r) s)
       | Fail e \<Rightarrow> (Fail e, s) | Panic \<Rightarrow> (Panic, s) | NoFuel \<Rightarrow> (NoFuel, s))"
    by (simp add: update_row_def ebind_def elift_def emodify_def Done fires write_change.simps(2) [symmetric] split: outcome.split)
  then show thesis
    using that run Done by (cases "validate_constraints E s db schema r rid") auto
qed (use that run in \<open>auto simp: update_row_def ebind_def elift_def\<close>)

lemma update_rows_changes:
  assumes "quiet_table s db t schema ref" "distinct (map fst entries)"
    and "\<And>rid r. (rid, r) \<in> set entries \<Longrightarrow> row_at s db t rid = Some r"
    and "eiter (update_row E run db t schema ref tx assigns ps) entries s = (res, s')"
  shows "\<exists>k \<le> length entries.
    row_changes E db t schema ref tx s (map (updated E ps assigns) (take k entries)) s' \<and>
    (res = Done () \<longrightarrow> k = length entries \<and>
       (\<forall>(rid, r) \<in> set entries. is_done (eval_assignments E r ps assigns 0 r)))"
  using assms
proof (induction entries arbitrary: s)
  case Nil
  then show ?case by (simp add: eret_def changes_none)
next
  case (Cons entry entries)
  obtain rid old_row where e: "entry = (rid, old_row)" by force
  obtain o1 s1 where 1: "update_row E run db t schema ref tx assigns ps (rid, old_row) s = (o1, s1)" by force
  note q = Cons.prems(1)
  show ?case
  proof (rule update_row_cases [OF q 1])
    assume "o1 \<noteq> Done ()" "s1 = s"
    then have "s' = s" "res \<noteq> Done ()"
      using Cons.prems(4) 1 by (cases o1; auto simp: ebind_def e)+
    then show ?thesis by (intro exI [of _ 0]) (simp add: changes_none)
  next
    fix r assume d: "o1 = Done ()" "eval_assignments E old_row ps assigns 0 old_row = Done r"
      "validate_constraints E s db schema r rid = Done ()" "s1 = write_change db t ref tx (Updated rid old_row r) s"
    have rest: "eiter (update_row E run db t schema ref tx assigns ps) entries s1 = (res, s')"
      using Cons.prems(4) 1 d(1) by (simp add: ebind_def e)
    have step: "row_changes E db t schema ref tx s ([] @ [updated E ps assigns entry]) s1"
      using changes_write [OF changes_none, of E db schema s t "updated E ps assigns entry" ref tx] Cons.prems(3) [of rid old_row] d
      by (simp add: updated_def e)
    have at: "row_at s1 db t rid' = Some r'" if "(rid', r') \<in> set entries" for rid' r'
      using Cons.prems(2) Cons.prems(3) [of rid' r'] that fst_in [OF that]
      by (auto simp: row_changes_rows [OF step q] updated_def e)
    obtain k where "k \<le> length entries"
      "res = Done () \<longrightarrow> k = length entries \<and> (\<forall>(rid, r) \<in> set entries. is_done (eval_assignments E r ps assigns 0 r))"
      "row_changes E db t schema ref tx s1 (map (updated E ps assigns) (take k entries)) s'"
      using Cons.IH [OF row_changes_quiet [OF step q] _ at rest] Cons.prems(2) by auto
    then show ?thesis using row_changes_trans [OF step] d(2) by (intro exI [of _ "Suc k"]) (simp add: e)
  qed
qed

text \<open>DELETE never fails once its rows are picked.\<close>

lemma delete_row_quiet:
  assumes "quiet_table s db t schema ref"
  shows "delete_row E run db t ref tx (rid, r) s = (Done (), write_change db t ref tx (Deleted rid r) s)"
  using fire_quiet [OF assms, of E run TDelete TBefore "Some r" None]
    fire_quiet [OF quiet_write_change [OF assms, of tx "Deleted rid r"], of E run TDelete TAfter "Some r" None]
  by (simp add: delete_row_def ebind_def emodify_def write_change.simps(3) [symmetric])

lemma delete_rows_changes:
  assumes "quiet_table s db t schema ref" "distinct (map fst entries)"
    and "\<And>rid r. (rid, r) \<in> set entries \<Longrightarrow> row_at s db t rid = Some r"
    and "eiter (delete_row E run db t ref tx) entries s = (res, s')"
  shows "res = Done () \<and> row_changes E db t schema ref tx s (map (\<lambda>(rid, r). Deleted rid r) entries) s'"
  using assms
proof (induction entries arbitrary: s)
  case Nil
  then show ?case by (simp add: eret_def changes_none)
next
  case (Cons entry entries)
  obtain rid r where e: "entry = (rid, r)" by force
  let ?s1 = "write_change db t ref tx (Deleted rid r) s"
  note q = Cons.prems(1)
  have rest: "eiter (delete_row E run db t ref tx) entries ?s1 = (res, s')"
    using Cons.prems(4) by (simp add: ebind_def e delete_row_quiet [OF q])
  have step: "row_changes E db t schema ref tx s ([] @ [Deleted rid r]) ?s1"
    by (rule changes_write [OF changes_none]) (use Cons.prems(3) [of rid r] e in simp)
  have at: "row_at ?s1 db t rid' = Some r'" if "(rid', r') \<in> set entries" for rid' r'
  proof -
    have "rid' \<noteq> rid" using Cons.prems(2) fst_in [OF that] unfolding e by (metis distinct.simps(2) fst_conv list.set_map list.simps(9))
    then show ?thesis using Cons.prems(3) [of rid' r'] that by (simp add: row_changes_rows [OF step q])
  qed
  show ?case
    using Cons.IH [OF row_changes_quiet [OF step q] _ at rest] Cons.prems(2) row_changes_trans [OF step] by (auto simp: e)
qed

section \<open>The statements on a table without triggers\<close>

lemma insert_changes:
  assumes q: "quiet_table s db t schema ref" "rows_issued s db t"
    and t: "object_name_to_string E name = t"
    and run: "execute_insert E n run db name cols source ps tx s = (res, s')"
    and b: "rowid_gen s' db t \<le> 2 ^ 64"
  obtains rows k where "candidate_rows E n s db (insert_columns schema cols) source ps = Done rows"
      "row_changes E db t schema ref tx s (inserted schema (rowid_gen s db t) (take k rows)) s'"
      "k \<le> length rows" "rowid_gen s db t + k \<le> rowid_gen s' db t"
      "\<And>x. res = Done x \<Longrightarrow> k = length rows \<and> x = qr_affected_rows (word_of_nat (length rows)) \<and>
         rowid_gen s' db t = rowid_gen s db t + length rows" |
    "s' = s" "\<And>x. res \<noteq> Done x"
proof (cases "candidate_rows E n s db (insert_columns schema cols) source ps")
  case (Done rows)
  have run': "ebind (eiter (insert_row E run db t schema ref tx) rows)
      (\<lambda>_. eret (qr_affected_rows (word_of_nat (length rows)))) s = (res, s')"
    using run q(1) t Done by (simp add: execute_insert_def quiet_table_def Let_def ebind_def elift_def)
  obtain o1 s1 where 1: "eiter (insert_row E run db t schema ref tx) rows s = (o1, s1)" by force
  then have s1: "s1 = s'" "o1 = Done () \<or> (\<forall>x. res \<noteq> Done x)"
    "o1 = Done () \<Longrightarrow> res = Done (qr_affected_rows (word_of_nat (length rows)))"
    using run' by (cases o1; auto simp: ebind_def eret_def)+
  show thesis
    using insert_rows_changes [OF q 1 [unfolded s1(1)] b] s1 that(1) [OF Done] by auto
qed (use that(2) run q(1) t in \<open>auto simp: execute_insert_def quiet_table_def Let_def ebind_def elift_def\<close>)

lemma matching_rows_distinct:
  assumes "iter_ok E" "quiet_table s db t schema ref" "matching_rows E s db ref ps selection i = Done entries"
  shows "distinct (map fst entries)"
    and "(rid, r) \<in> set entries \<longleftrightarrow>
      row_at s db t rid = Some r \<and> where_passes E s db ps selection i r = Done True"
proof -
  have wf: "wf_alist (k_heap s ref)" using assms(2) by (simp add: quiet_table_def heap_wf_def)
  have m: "mset (iter_rows E (k_heap s ref)) = mset (k_heap s ref)" using assms(1) by (simp add: iter_ok_def)
  have at: "row_at s db t rid = Some r \<longleftrightarrow> (rid, r) \<in> set (k_heap s ref)"
    using assms(2) set_map_of [OF wf] by (simp add: row_at_def store_get_def quiet_table_def)
  have e: "entries = filter (\<lambda>x. (case x of (_, r) \<Rightarrow> where_passes E s db ps selection i r) = Done True)
      (iter_rows E (k_heap s ref))"
    using assms(3) unfolding matching_rows_def by (rule ofilter_DoneD)
  have "distinct (map fst (iter_rows E (k_heap s ref)))" using m wf by (metis mset_eq_imp_distinct_iff mset_map)
  then show "distinct (map fst entries)" unfolding e by (rule distinct_map_filter)
  show "(rid, r) \<in> set entries \<longleftrightarrow>
      row_at s db t rid = Some r \<and> where_passes E s db ps selection i r = Done True"
    unfolding e at by (simp add: iter_rows_set [OF assms(1)])
qed

lemma update_changes:
  assumes ok: "iter_ok E" and q: "quiet_table s db t schema ref" and t: "factor_name E relation = t"
    and run: "execute_update E run db relation assigns selection ps tx s = (res, s')"
  obtains entries k where "matching_rows E s db ref ps selection (set_param_count assigns) = Done entries"
      "row_changes E db t schema ref tx s (map (updated E ps assigns) (take k entries)) s'"
      "\<And>x. res = Done x \<Longrightarrow> k = length entries \<and> x = qr_affected_rows (word_of_nat (length entries)) \<and>
         (\<forall>(rid, r) \<in> set entries. is_done (eval_assignments E r ps assigns 0 r))" |
    "s' = s" "\<And>x. res \<noteq> Done x"
proof (cases "matching_rows E s db ref ps selection (set_param_count assigns)")
  case (Done entries)
  note m = matching_rows_distinct [OF ok q Done]
  have run': "ebind (eiter (update_row E run db t schema ref tx assigns ps) entries)
      (\<lambda>_. eret (qr_affected_rows (word_of_nat (length entries)))) s = (res, s')"
    using run q t Done by (simp add: execute_update_def quiet_table_def Let_def ebind_def elift_def)
  obtain o1 s1 where 1: "eiter (update_row E run db t schema ref tx assigns ps) entries s = (o1, s1)" by force
  then have s1: "s1 = s'" "o1 = Done () \<or> (\<forall>x. res \<noteq> Done x)"
    "o1 = Done () \<Longrightarrow> res = Done (qr_affected_rows (word_of_nat (length entries)))"
    using run' by (cases o1; auto simp: ebind_def eret_def)+
  show thesis
    using update_rows_changes [OF q m(1) _ 1 [unfolded s1(1)]] m(2) s1 that(1) [OF Done] by auto
qed (use that(2) run q t in \<open>auto simp: execute_update_def quiet_table_def Let_def ebind_def elift_def\<close>)

lemma delete_changes:
  assumes ok: "iter_ok E" and q: "quiet_table s db t schema ref" and t: "delete_target E tables from = Some t"
    and run: "execute_delete E run db tables from selection ps tx s = (res, s')"
  obtains entries where "matching_rows E s db ref ps selection 0 = Done entries"
      "row_changes E db t schema ref tx s (map (\<lambda>(rid, r). Deleted rid r) entries) s'"
      "res = Done (qr_affected_rows (word_of_nat (length entries)))" |
    "s' = s" "\<And>x. res \<noteq> Done x" "\<And>entries. matching_rows E s db ref ps selection 0 \<noteq> Done entries"
proof (cases "matching_rows E s db ref ps selection 0")
  case (Done entries)
  note m = matching_rows_distinct [OF ok q Done]
  have run': "ebind (eiter (delete_row E run db t ref tx) entries)
      (\<lambda>_. eret (qr_affected_rows (word_of_nat (length entries)))) s = (res, s')"
    using run q t Done by (simp add: execute_delete_def quiet_table_def Let_def ebind_def elift_def)
  obtain o1 s1 where 1: "eiter (delete_row E run db t ref tx) entries s = (o1, s1)" by force
  note d = delete_rows_changes [OF q m(1) _ 1]
  show thesis
    using d m(2) run' 1 that(1) [OF Done] by (auto simp: ebind_def eret_def)
qed (use that(2) run q t in \<open>auto simp: execute_delete_def quiet_table_def Let_def ebind_def elift_def\<close>)

text \<open>The table a row statement writes.\<close>

fun dml_target :: "('x) env_scheme \<Rightarrow> statement \<Rightarrow> string option" where
  "dml_target E (SInsert name cols source) = Some (object_name_to_string E name)"
| "dml_target E (SUpdate relation assigns selection) = Some (factor_name E relation)"
| "dml_target E (SDelete tables from selection) = delete_target E tables from"
| "dml_target E _ = None"

fun change_id :: "row_change \<Rightarrow> rowid" where
  "change_id (Inserted rid r) = rid"
| "change_id (Updated rid old_row r) = rid"
| "change_id (Deleted rid r) = rid"

lemma inserted_ids:
  "g + length rows \<le> 2 ^ 64 \<Longrightarrow>
   distinct (map change_id (inserted schema g rows)) \<and>
   (\<forall>c \<in> set (inserted schema g rows). g \<le> unat (change_id c) \<and> unat (change_id c) < g + length rows)"
proof (induction rows arbitrary: g)
  case (Cons r rows)
  have "unat (word_of_nat g :: rowid) = g" using Cons.prems by (simp add: unat_of_nat)
  with Cons.IH [of "Suc g"] Cons.prems show ?case by (auto simp: image_iff)
qed simp

text \<open>Each row is changed at most once.\<close>

lemma dml_changes:
  assumes ok: "iter_ok E" and q: "quiet_table s db t schema ref" "rows_issued s db t"
    and t: "dml_target E stmt = Some t"
    and run: "execute_single_statement E n db stmt ps tx s = (res, s')"
    and b: "rowid_gen s' db t \<le> 2 ^ 64"
  shows "\<exists>cs. row_changes E db t schema ref tx s cs s' \<and> distinct (map change_id cs)"
proof (cases n)
  case 0
  then show ?thesis using run changes_none [of E db t schema ref tx s] by (intro exI [of _ "[]"]) simp
next
  case (Suc m)
  have none: "s' = s \<Longrightarrow> \<exists>cs. row_changes E db t schema ref tx s cs s' \<and> distinct (map change_id cs)"
    using changes_none by fastforce
  show ?thesis
  proof (cases stmt)
    case (SInsert name cols source)
    then have "execute_insert E n (\<lambda>st. execute_single_statement E m db st [] tx) db name cols source ps tx s = (res, s')"
      "object_name_to_string E name = t"
      using run t Suc by (simp_all add: Let_def)
    note ins = insert_changes [OF q this(2,1) b]
    show ?thesis
    proof (rule ins)
      fix rows k assume r: "row_changes E db t schema ref tx s (inserted schema (rowid_gen s db t) (take k rows)) s'"
        "k \<le> length rows" "rowid_gen s db t + k \<le> rowid_gen s' db t"
      then have "distinct (map change_id (inserted schema (rowid_gen s db t) (take k rows)))"
        using inserted_ids [of "rowid_gen s db t" "take k rows" schema] b by simp
      with r show ?thesis by blast
    qed (rule none)
  next
    case (SUpdate relation assigns selection)
    then have "execute_update E (\<lambda>st. execute_single_statement E m db st [] tx) db relation assigns selection ps tx s = (res, s')"
      "factor_name E relation = t"
      using run t Suc by (simp_all add: Let_def)
    note upd = update_changes [OF ok q(1) this(2,1)]
    show ?thesis
    proof (rule upd)
      fix entries k assume m: "matching_rows E s db ref ps selection (set_param_count assigns) = Done entries"
        and r: "row_changes E db t schema ref tx s (map (updated E ps assigns) (take k entries)) s'"
      have "distinct (map change_id (map (updated E ps assigns) (take k entries)))"
        using matching_rows_distinct(1) [OF ok q(1) m] distinct_take [of "map fst entries" k]
        by (simp add: comp_def updated_def take_map)
      with r show ?thesis by blast
    qed (rule none)
  next
    case (SDelete tables froms selection)
    then have "execute_delete E (\<lambda>st. execute_single_statement E m db st [] tx) db tables froms selection ps tx s = (res, s')"
      "delete_target E tables froms = Some t"
      using run t Suc by (simp_all add: Let_def)
    note del = delete_changes [OF ok q(1) this(2,1)]
    show ?thesis
    proof (rule del)
      fix entries assume m: "matching_rows E s db ref ps selection 0 = Done entries"
        and r: "row_changes E db t schema ref tx s (map (\<lambda>(rid, r). Deleted rid r) entries) s'"
      have "distinct (map change_id (map (\<lambda>(rid, r). Deleted rid r) entries))"
        using matching_rows_distinct(1) [OF ok q(1) m] by (simp add: comp_def case_prod_unfold)
      with r show ?thesis by blast
    qed (rule none)
  qed (use t in auto)
qed

text \<open>The row a change writes.\<close>

fun change_row :: "row_change \<Rightarrow> row option" where
  "change_row (Inserted rid r) = Some r"
| "change_row (Updated rid old_row r) = Some r"
| "change_row (Deleted rid r) = None"

lemma change_rows_id: "change_rows c R rid = (if rid = change_id c then change_row c else R rid)"
  by (cases c) auto

lemma fold_changes_other: "rid \<notin> change_id ` set cs \<Longrightarrow> fold change_rows cs R rid = R rid"
  by (induction cs arbitrary: R) (auto simp: change_rows_id)

lemma fold_changes_written:
  "distinct (map change_id cs) \<Longrightarrow> c \<in> set cs \<Longrightarrow> fold change_rows cs R (change_id c) = change_row c"
proof (induction cs arbitrary: R)
  case (Cons c' cs)
  show ?case
  proof (cases "c = c'")
    case True
    have "fold change_rows cs (change_rows c' R) (change_id c') = change_rows c' R (change_id c')"
      by (rule fold_changes_other) (use Cons.prems in simp)
    also have "\<dots> = change_row c'" by (rule trans [OF change_rows_id]) simp
    finally show ?thesis by (simp add: True)
  qed (use Cons in simp)
qed simp

lemma row_changes_written:
  assumes "row_changes E db t schema ref tx s cs s'" "quiet_table s db t schema ref"
    and "distinct (map change_id cs)" "c \<in> set cs"
  shows "row_at s' db t (change_id c) = change_row c"
  using row_changes_rows [OF assms(1,2), of db t] fold_changes_written [OF assms(3,4)] by simp

section \<open>INSERT\<close>

lemma inserted_rows:
  "g + length rows \<le> 2 ^ 64 \<Longrightarrow>
   fold change_rows (inserted schema g rows) R rid =
     (if g \<le> unat rid \<and> unat rid < g + length rows
      then Some (apply_defaults schema rid (rows ! (unat rid - g))) else R rid)"
proof (induction rows arbitrary: g R)
  case (Cons r rows)
  have g: "unat (word_of_nat g :: rowid) = g" using Cons.prems by (simp add: unat_of_nat)
  then have "rid = word_of_nat g \<longleftrightarrow> unat rid = g" by (metis unsigned_word_eqI)
  then show ?case using Cons.IH [of "Suc g"] Cons.prems g
    by (auto simp: nth_Cons' Suc_diff_Suc not_less_eq_eq)
qed auto

text \<open>C18. A successful INSERT on a table without triggers adds exactly its rows, with the defaults
  filled in, under the next row ids, reports their number, and changes no other row of any table.\<close>

theorem insert_adds_rows:
  assumes q: "quiet_table s db (object_name_to_string E name) schema ref" "rows_issued s db (object_name_to_string E name)"
    and run: "execute_single_statement E (Suc n) db (SInsert name cols source) ps tx s = (Done q, s')"
    and b: "rowid_gen s' db (object_name_to_string E name) \<le> 2 ^ 64"
  defines "t \<equiv> object_name_to_string E name"
  defines "g \<equiv> rowid_gen s db t"
  shows "\<exists>rows. candidate_rows E (Suc n) s db (insert_columns schema cols) source ps = Done rows \<and>
    q = qr_affected_rows (word_of_nat (length rows)) \<and>
    (\<forall>db' t' rid. row_at s' db' t' rid =
       (if db' = db \<and> t' = t \<and> g \<le> unat rid \<and> unat rid < g + length rows
        then Some (apply_defaults schema rid (rows ! (unat rid - g))) else row_at s db' t' rid))"
proof -
  have "execute_insert E (Suc n) (\<lambda>st. execute_single_statement E n db st [] tx) db name cols source ps tx s = (Done q, s')"
    using run by (simp add: Let_def)
  from insert_changes [OF q refl this b]
  obtain rows where r: "candidate_rows E (Suc n) s db (insert_columns schema cols) source ps = Done rows"
    "row_changes E db t schema ref tx s (inserted schema g rows) s'"
    "q = qr_affected_rows (word_of_nat (length rows))" "rowid_gen s' db t = g + length rows"
    unfolding t_def g_def by (metis take_all order_refl)
  have "g + length rows \<le> 2 ^ 64" using b r(4) by (simp add: t_def)
  then show ?thesis
    using r row_changes_rows [OF r(2) q(1) [folded t_def]] by (intro exI [of _ rows]) (simp add: inserted_rows)
qed

section \<open>DELETE\<close>

lemma is_done_bool: "is_done m \<Longrightarrow> m = Done (m = Done True)"
  by (cases m) auto

lemma deleted_rows:
  "fold change_rows (map (\<lambda>(rid, r). Deleted rid r) entries) R rid = (if rid \<in> fst ` set entries then None else R rid)"
  by (induction entries arbitrary: R) auto

lemma affected_card:
  assumes "iter_ok E" "quiet_table s db t schema ref" "matching_rows E s db ref ps selection i = Done entries"
  shows "fst ` set entries = {rid. \<exists>r. row_at s db t rid = Some r \<and> where_passes E s db ps selection i r = Done True}"
    and "length entries = card {rid. \<exists>r. row_at s db t rid = Some r \<and> where_passes E s db ps selection i r = Done True}"
proof -
  show eq: "fst ` set entries = {rid. \<exists>r. row_at s db t rid = Some r \<and> where_passes E s db ps selection i r = Done True}"
    using matching_rows_distinct(2) [OF assms] by (auto simp: image_iff) force+
  show "length entries = card {rid. \<exists>r. row_at s db t rid = Some r \<and> where_passes E s db ps selection i r = Done True}"
    using distinct_card [OF matching_rows_distinct(1) [OF assms]] by (simp flip: eq)
qed

text \<open>C17. DELETE on a table without triggers succeeds as soon as its WHERE clause evaluates on every
  row: it removes exactly the rows that pass, reports how many there were, and changes no other row.\<close>

theorem delete_removes_matching:
  assumes ok: "iter_ok E" and q: "quiet_table s db t schema ref" and t: "delete_target E tables from = Some t"
    and total: "\<And>rid r. row_at s db t rid = Some r \<Longrightarrow> is_done (where_passes E s db ps selection 0 r)"
    and run: "execute_single_statement E (Suc n) db (SDelete tables from selection) ps tx s = (res, s')"
  defines "hits \<equiv> {rid. \<exists>r. row_at s db t rid = Some r \<and> where_passes E s db ps selection 0 r = Done True}"
  shows "res = Done (qr_affected_rows (word_of_nat (card hits))) \<and>
    (\<forall>db' t' rid. row_at s' db' t' rid =
       (if db' = db \<and> t' = t \<and> rid \<in> hits then None else row_at s db' t' rid))"
proof -
  have run': "execute_delete E (\<lambda>st. execute_single_statement E n db st [] tx) db tables from selection ps tx s = (res, s')"
    using run by (simp add: Let_def)
  have wf: "wf_alist (k_heap s ref)" using q by (simp add: quiet_table_def heap_wf_def)
  have at: "row_at s db t rid = Some r" if "(rid, r) \<in> set (k_heap s ref)" for rid r
    using that q set_map_of [OF wf] by (simp add: row_at_def store_get_def quiet_table_def)
  have "is_done ((case x of (_, r) \<Rightarrow> where_passes E s db ps selection 0 r))" if "x \<in> set (iter_rows E (k_heap s ref))" for x
    using that total [OF at, of "fst x" "snd x"] by (simp add: iter_rows_set [OF ok] case_prod_unfold)
  then have "matching_rows E s db ref ps selection 0 =
      Done (filter (\<lambda>x. (case x of (_, r) \<Rightarrow> where_passes E s db ps selection 0 r) = Done True) (iter_rows E (k_heap s ref)))"
    unfolding matching_rows_def by (intro ofilter_Done is_done_bool) simp
  note picked = this
  show ?thesis
  proof (rule delete_changes [OF ok q t run'])
    fix entries assume m: "matching_rows E s db ref ps selection 0 = Done entries"
      and r: "row_changes E db t schema ref tx s (map (\<lambda>(rid, r). Deleted rid r) entries) s'"
      "res = Done (qr_affected_rows (word_of_nat (length entries)))"
    show ?thesis
      unfolding row_changes_rows [OF r(1) q] deleted_rows affected_card(1) [OF ok q m]
      using r(2) affected_card(2) [OF ok q m] by (auto simp: hits_def)
  qed (use picked in blast)
qed

section \<open>UPDATE\<close>

lemma updated_rows:
  assumes "distinct (map fst entries)"
  shows "fold change_rows (map (updated E ps assigns) entries) R rid =
    (case map_of entries rid of Some r \<Rightarrow> change_row (updated E ps assigns (rid, r)) | None \<Rightarrow> R rid)"
proof (cases "map_of entries rid")
  case None
  then have "rid \<notin> fst ` set entries" by (simp add: map_of_eq_None_iff)
  then show ?thesis
    using fold_changes_other [of rid "map (updated E ps assigns) entries" R]
    by (simp add: None updated_def image_image)
next
  case (Some r)
  then have "updated E ps assigns (rid, r) \<in> set (map (updated E ps assigns) entries)"
    using map_of_SomeD [OF Some] by auto
  moreover have "distinct (map change_id (map (updated E ps assigns) entries))"
    using assms by (simp add: comp_def updated_def)
  ultimately show ?thesis
    using fold_changes_written [of "map (updated E ps assigns) entries" "updated E ps assigns (rid, r)" R] Some
    by (simp add: updated_def)
qed

text \<open>C16. A successful UPDATE on a table without triggers replaces exactly the rows that pass its WHERE
  clause (whose placeholders come after those of SET) by the row its assignments give on the old
  values, reports how many there were, and changes no other row.\<close>

theorem update_rewrites_matching:
  assumes ok: "iter_ok E" and q: "quiet_table s db (factor_name E relation) schema ref"
    and run: "execute_single_statement E (Suc n) db (SUpdate relation assigns selection) ps tx s = (Done q, s')"
  defines "t \<equiv> factor_name E relation"
  defines "hit \<equiv> \<lambda>r. where_passes E s db ps selection (set_param_count assigns) r = Done True"
  shows "q = qr_affected_rows (word_of_nat (card {rid. \<exists>r. row_at s db t rid = Some r \<and> hit r})) \<and>
    (\<forall>db' t' rid.
       case row_at s db' t' rid of
         Some r \<Rightarrow>
           if db' = db \<and> t' = t \<and> hit r
           then \<exists>r'. eval_assignments E r ps assigns 0 r = Done r' \<and> row_at s' db' t' rid = Some r'
           else row_at s' db' t' rid = Some r
       | None \<Rightarrow> row_at s' db' t' rid = None)"
proof -
  have "execute_update E (\<lambda>st. execute_single_statement E n db st [] tx) db relation assigns selection ps tx s = (Done q, s')"
    using run by (simp add: Let_def)
  note upd = update_changes [OF ok q refl this]
  obtain entries where m: "matching_rows E s db ref ps selection (set_param_count assigns) = Done entries"
    and r: "row_changes E db t schema ref tx s (map (updated E ps assigns) entries) s'"
    "q = qr_affected_rows (word_of_nat (length entries))"
    and evald: "\<And>rid r. (rid, r) \<in> set entries \<Longrightarrow> is_done (eval_assignments E r ps assigns 0 r)"
    by (rule upd) (auto simp: t_def)
  note d = matching_rows_distinct [OF ok q [folded t_def] m]
  have at: "row_at s' db' t' rid = (if db' = db \<and> t' = t then
      (case map_of entries rid of Some r \<Rightarrow> change_row (updated E ps assigns (rid, r)) | None \<Rightarrow> row_at s db t rid)
      else row_at s db' t' rid)" for db' t' rid
    unfolding row_changes_rows [OF r(1) q [folded t_def]] updated_rows [OF d(1)] by simp
  have map: "map_of entries rid = Some r \<longleftrightarrow> row_at s db t rid = Some r \<and> hit r" for rid r
    using set_map_of [OF d(1)] d(2) by (simp add: hit_def)
  have "case row_at s db' t' rid of
         Some r \<Rightarrow>
           if db' = db \<and> t' = t \<and> hit r
           then \<exists>r'. eval_assignments E r ps assigns 0 r = Done r' \<and> row_at s' db' t' rid = Some r'
           else row_at s' db' t' rid = Some r
       | None \<Rightarrow> row_at s' db' t' rid = None" for db' t' rid
  proof (cases "db' = db \<and> t' = t")
    case True
    show ?thesis
    proof (cases "map_of entries rid")
      case None
      then show ?thesis using True at [of db t rid] map [of rid] by (auto split: option.split)
    next
      case (Some r)
      then show ?thesis
        using True at [of db t rid] map [of rid r] evald [OF map_of_SomeD [OF Some]]
        by (auto simp: updated_def is_done_iff)
    qed
  qed (auto simp: at split: option.split)
  then show ?thesis
    using r(2) affected_card(2) [OF ok q [folded t_def] m] by (simp add: hit_def)
qed

section \<open>Concrete statements\<close>

lemma demo_quiet:
  "wf_alist rs \<Longrightarrow> quiet_table (demo_state uniq idxs g rs) 0 ''t'' (demo_schema ''t'' uniq idxs) 0"
  by (simp add: quiet_table_def stores_distinct_def heap_wf_def)

lemma demo_issued:
  "\<forall>rid. map_of rs rid \<noteq> None \<longrightarrow> unat rid < g \<Longrightarrow> rows_issued (demo_state uniq idxs g rs) 0 ''t''"
  by (simp add: rows_issued_def row_at_demo)

lemma unique_state_quiet:
  "quiet_table unique_state 0 ''t'' (demo_schema ''t'' True []) 0" "rows_issued unique_state 0 ''t''"
  unfolding unique_state_def by (rule demo_quiet, simp, rule demo_issued) auto

lemma plain_name_t: "object_name_to_string plain_env [nm ''t''] = ''t''"
  by code_simp

theorem insert_adds_rows_witness:
  "row_at (snd (execute_single_statement plain_env 1 0 (one_row ''2'') [] None unique_state)) 0 ''t'' 2 =
     Some [(''a'', VInteger 2)] \<and>
   row_at (snd (execute_single_statement plain_env 1 0 (one_row ''2'') [] None unique_state)) 0 ''t'' 1 =
     Some [(''a'', VInteger 1)]"
proof -
  let ?x = "execute_single_statement plain_env 1 0 (one_row ''2'') [] None unique_state"
  let ?src = "Some \<lparr>q_body = ValuesBody [[ValueE (Number ''2'')]], q_order_by = [], q_limit = None, q_offset = None\<rparr>"
  have x: "fst ?x = Done (qr_affected_rows 1)" "rowid_gen (snd ?x) 0 ''t'' = 3" by code_simp+
  then have run: "execute_single_statement plain_env (Suc 0) 0 (SInsert [nm ''t''] [nm ''a''] ?src) [] None unique_state
      = (Done (qr_affected_rows 1), snd ?x)"
    unfolding one_row_def One_nat_def by (metis prod.collapse)
  have c: "candidate_rows plain_env (Suc 0) unique_state 0 (insert_columns (demo_schema ''t'' True []) [nm ''a'']) ?src []
      = Done [[(''a'', VInteger 2)]]" by code_simp
  have g: "rowid_gen unique_state 0 ''t'' = 2" by (simp add: unique_state_def)
  have d: "apply_defaults (demo_schema ''t'' True []) rid [(''a'', VInteger 2)] = [(''a'', VInteger 2)]" for rid
    by (simp add: apply_defaults_def demo_schema_def entry_or_insert_def)
  have q: "quiet_table unique_state 0 (object_name_to_string plain_env [nm ''t'']) (demo_schema ''t'' True []) 0"
    "rows_issued unique_state 0 (object_name_to_string plain_env [nm ''t''])"
    unfolding plain_name_t by (rule unique_state_quiet)+
  have "rowid_gen (snd ?x) 0 (object_name_to_string plain_env [nm ''t'']) \<le> 2 ^ 64"
    unfolding plain_name_t x by simp
  from insert_adds_rows [OF q run this]
  have "\<forall>db' t' rid. row_at (snd ?x) db' t' rid =
      (if db' = 0 \<and> t' = ''t'' \<and> 2 \<le> unat rid \<and> unat rid < 2 + 1
       then Some [(''a'', VInteger 2)] else row_at unique_state db' t' rid)"
    unfolding c g plain_name_t by (auto simp: d less_Suc_eq)
  then show ?thesis by (simp add: unique_state_def row_at_demo)
qed

definition a_is :: "string \<Rightarrow> expr" where
  "a_is n = BinaryOp (Identifier (nm ''a'')) BEq (ValueE (Number n))"

definition delete_t :: "expr option \<Rightarrow> statement" where
  "delete_t selection = SDelete [] [\<lparr>tj_relation = TableFactor [nm ''t''] None, tj_joins = []\<rparr>] selection"

lemma target_t: "delete_target plain_env [] [\<lparr>tj_relation = TableFactor [nm ''t''] None, tj_joins = []\<rparr>] = Some ''t''"
  by code_simp

lemma factor_t: "factor_name plain_env (TableFactor [nm ''t''] None) = ''t''"
  by code_simp

definition few_rows :: rows where
  "few_rows = [(1, [(''a'', VInteger 1)]), (2, [(''a'', VInteger 4)]), (3, [(''a'', VInteger 1)])]"

definition few_state :: kvs where
  "few_state = demo_state False [] 4 few_rows"

lemma few_state_quiet:
  "quiet_table few_state 0 ''t'' (demo_schema ''t'' False []) 0" "rows_issued few_state 0 ''t''"
  unfolding few_state_def by (rule demo_quiet, simp add: few_rows_def, rule demo_issued) (auto simp: few_rows_def)

lemma few_at: "row_at few_state 0 ''t'' rid = map_of few_rows rid"
  by (simp add: few_state_def row_at_demo)

lemma few_where:
  "where_passes plain_env few_state 0 [] (Some (a_is ''1'')) 0 [(''a'', VInteger 1)] = Done True"
  "where_passes plain_env few_state 0 [] (Some (a_is ''1'')) 0 [(''a'', VInteger 4)] = Done False"
  by code_simp+

lemma few_hits:
  "{rid. \<exists>r. row_at few_state 0 ''t'' rid = Some r \<and>
      where_passes plain_env few_state 0 [] (Some (a_is ''1'')) 0 r = Done True} = {1, 3}"
  by (auto simp: few_at few_rows_def few_where split: if_splits)

theorem delete_removes_matching_witness:
  "fst (execute_single_statement plain_env 1 0 (delete_t (Some (a_is ''1''))) [] None few_state) = Done (qr_affected_rows 2) \<and>
   (\<forall>rid. row_at (snd (execute_single_statement plain_env 1 0 (delete_t (Some (a_is ''1''))) [] None few_state)) 0 ''t'' rid =
      (if rid = 2 then Some [(''a'', VInteger 4)] else None))"
proof -
  let ?x = "execute_single_statement plain_env 1 0 (delete_t (Some (a_is ''1''))) [] None few_state"
  have run: "execute_single_statement plain_env (Suc 0) 0 (SDelete [] [\<lparr>tj_relation = TableFactor [nm ''t''] None, tj_joins = []\<rparr>]
      (Some (a_is ''1''))) [] None few_state = (fst ?x, snd ?x)"
    by (simp add: delete_t_def)
  have total: "is_done (where_passes plain_env few_state 0 [] (Some (a_is ''1'')) 0 r)"
    if "row_at few_state 0 ''t'' rid = Some r" for rid r
    using that by (auto simp: few_at few_rows_def few_where split: if_splits)
  have "card {1 :: rowid, 3} = 2" by simp
  with delete_removes_matching [OF plain_env_ok few_state_quiet(1) target_t total run]
  have "fst ?x = Done (qr_affected_rows 2) \<and>
      (\<forall>rid. row_at (snd ?x) 0 ''t'' rid = (if rid \<in> {1, 3} then None else row_at few_state 0 ''t'' rid))"
    unfolding few_hits by simp
  then show ?thesis by (auto simp: few_at few_rows_def)
qed

text \<open>UPDATE t SET a = 9 WHERE a = 1\<close>

definition set_nine :: "assignment list" where
  "set_nine = [\<lparr>as_id = [nm ''a''], as_value = ValueE (Number ''9'')\<rparr>]"

lemma set_nine_ok:
  "set_param_count set_nine = 0"
  "eval_assignments plain_env [(''a'', VInteger 1)] [] set_nine 0 [(''a'', VInteger 1)] = Done [(''a'', VInteger 9)]"
  by code_simp+

theorem update_rewrites_matching_witness:
  "row_at (snd (execute_single_statement plain_env 1 0
       (SUpdate (TableFactor [nm ''t''] None) set_nine (Some (a_is ''1''))) [] None few_state)) 0 ''t'' 3 =
     Some [(''a'', VInteger 9)] \<and>
   row_at (snd (execute_single_statement plain_env 1 0
       (SUpdate (TableFactor [nm ''t''] None) set_nine (Some (a_is ''1''))) [] None few_state)) 0 ''t'' 2 =
     Some [(''a'', VInteger 4)]"
proof -
  let ?x = "execute_single_statement plain_env 1 0
       (SUpdate (TableFactor [nm ''t''] None) set_nine (Some (a_is ''1''))) [] None few_state"
  have "fst ?x = Done (qr_affected_rows 2)" by code_simp
  then have run: "execute_single_statement plain_env (Suc 0) 0
       (SUpdate (TableFactor [nm ''t''] None) set_nine (Some (a_is ''1''))) [] None few_state
      = (Done (qr_affected_rows 2), snd ?x)"
    unfolding One_nat_def by (metis prod.collapse)
  have q: "quiet_table few_state 0 (factor_name plain_env (TableFactor [nm ''t''] None)) (demo_schema ''t'' False []) 0"
    unfolding factor_t by (rule few_state_quiet)
  note u = conjunct2 [OF update_rewrites_matching [OF plain_env_ok q run], rule_format, of 0 "''t''", unfolded factor_t set_nine_ok]
  show ?thesis
    using u [of 3] u [of 2] by (simp add: few_at few_rows_def few_where set_nine_ok)
qed

end
