(* ===== verification/Skvs_Paths.thy ===== *)
theory Skvs_Paths
  imports Skvs_Select Skvs_Demo
begin

text \<open>
  Access paths of a single-table SELECT: over an index that covers its table, the rows that pass the
  WHERE clause are the same through the index and through a full scan, for an equality
  (\<open>fetch_equality_sound\<close>) and for a range (\<open>fetch_range_sound\<close>). Each of their hypotheses is needed:
  the last section has the queries whose answer an index changes.
\<close>

section \<open>A comparison with a constant\<close>

text \<open>The expressions the index paths read as constants do not mention columns.\<close>

fun constant_sides :: "expr \<Rightarrow> bool" where
  "constant_sides (BinaryOp l op r) =
     (case column_side l r of Some (col, other, flipped) \<Rightarrow> expr_all column_free other | None \<Rightarrow> True)"
| "constant_sides (Between inner negated low high) =
     (expr_all column_free low \<and> expr_all column_free high \<and>
      expr_all case_free low \<and> count_placeholders low = 0)"
| "constant_sides e = True"

lemma ident_ofD: "ident_of e = Some col \<Longrightarrow> \<exists>i. e = Identifier i \<and> id_value i = col"
  by (cases e) auto

lemma column_sideD:
  assumes "column_side l r = Some (col, other, flipped)"
  obtains i where "id_value i = col" "\<not> flipped" "l = Identifier i" "other = r"
    | i where "id_value i = col" "flipped" "r = Identifier i" "other = l"
  using assms by (auto simp: column_side_def split: option.splits bool.splits dest!: ident_ofD)

lemma const_value_eval:
  assumes "const_value E ps e = Done v" "expr_all column_free e"
  shows "\<exists>j. eval E ctx ps e 0 = Done (v, j)"
  using assms eval_column_free [of e E None ps 0 ctx]
  by (auto simp: const_value_def outcome_simps)

lemma where_equality:
  assumes eq: "simple_equality E ps e = Done (Some (col, v))" and c: "constant_sides e"
  shows "where_passes E s db ps (Some e) 0 r = Done (value_eq (lookup_column (Some r) col) v)"
proof -
  obtain l q where e: "e = BinaryOp l BEq q"
    using eq by (cases "(E, ps, e)" rule: simple_equality.cases) auto
  obtain other fl where cs: "column_side l q = Some (col, other, fl)"
    and v: "const_value E ps other = Done v"
    using eq by (auto simp: e outcome_simps split: option.splits)
  obtain j where j: "eval E (Some r) ps other 0 = Done (v, j)"
    using const_value_eval [OF v, of "Some r"] c cs by (auto simp: e)
  show ?thesis using column_sideD [OF cs]
    by cases (use j in \<open>auto simp: e where_passes_def binary_value_def bool_val_def value_eq_sym\<close>)
qed


lemma truthy_bool_val [simp]: "truthy (bool_val b) = b"
  by (simp add: bool_val_def)

lemma op_bounds_value:
  assumes "op_bounds op v = Some (lo, hi)"
  shows "op \<noteq> BAnd" "op \<noteq> BOr"
    "binary_value op w v = Done (bool_val (above value_compare lo w \<and> below value_compare hi w))"
  using assms by (cases op; auto simp: binary_value_def)+

lemma flip_op_value:
  assumes "op_bounds (flip_op op) v = Some (lo, hi)"
  shows "op \<noteq> BAnd" "op \<noteq> BOr"
    "binary_value op v w = Done (bool_val (above value_compare lo w \<and> below value_compare hi w))"
  using assms value_compare_swap [of v w]
  by (cases op; cases "value_compare w v"; auto simp: binary_value_def)+

lemma where_range:
  assumes rg: "simple_range E ps e = Done (Some (col, lo, hi))" and c: "constant_sides e"
  shows "where_passes E s db ps (Some e) 0 r =
    Done (above value_compare lo (lookup_column (Some r) col) \<and>
          below value_compare hi (lookup_column (Some r) col))"
proof -
  consider (op) l op q where "e = BinaryOp l op q" | (btw) x low high where "e = Between x False low high"
    using rg by (cases "(E, ps, e)" rule: simple_range.cases) (auto split: if_splits)
  then show ?thesis
  proof cases
    case op
    obtain other fl v where cs: "column_side l q = Some (col, other, fl)"
      and v: "const_value E ps other = Done v"
      and b: "op_bounds (if fl then flip_op op else op) v = Some (lo, hi)"
      using rg by (auto simp: op outcome_simps split: option.splits)
    obtain j where j: "eval E (Some r) ps other 0 = Done (v, j)"
      using const_value_eval [OF v, of "Some r"] c cs by (auto simp: op)
    show ?thesis using column_sideD [OF cs]
    proof cases
      case (1 i)
      then show ?thesis using j b op_bounds_value [of op v lo hi] by (auto simp: op where_passes_def)
    next
      case (2 i)
      then show ?thesis using j b flip_op_value [of op v lo hi] by (auto simp: op where_passes_def)
    qed
  next
    case btw
    obtain i where i: "x = Identifier i" "id_value i = col"
      and v: "const_value E ps low = Done (case lo of Included a \<Rightarrow> a)" "lo = Included (case lo of Included a \<Rightarrow> a)"
        "const_value E ps high = Done (case hi of Included a \<Rightarrow> a)" "hi = Included (case hi of Included a \<Rightarrow> a)"
      using rg by (auto simp: btw outcome_simps split: option.splits dest!: ident_ofD)
    let ?a = "case lo of Included a \<Rightarrow> a" and ?b = "case hi of Included a \<Rightarrow> a"
    obtain j k where j: "eval E (Some r) ps low 0 = Done (?a, j)" and k: "eval E (Some r) ps high 0 = Done (?b, k)"
      using const_value_eval [OF v(1), of "Some r"] const_value_eval [OF v(3), of "Some r"] c
      by (auto simp: btw)
    have "j = 0" using eval_index_all(1) [OF _ j] c by (simp add: btw)
    then show ?thesis using j k by (subst v(2), subst v(4)) (simp add: btw i where_passes_def)
  qed
qed

section \<open>The rows of a list of ids\<close>

lemma tag_rowid_rid [simp]: "map_of (tag_rowid (rid, r)) ''_rowid_'' = Some (VInteger rid)"
  by (simp add: tag_rowid_def map_of_update)

lemma tag_rowid_other: "col \<noteq> ''_rowid_'' \<Longrightarrow> map_of (tag_rowid (rid, r)) col = map_of r col"
  by (simp add: tag_rowid_def map_of_update)

lemma tag_rowid_inj: "tag_rowid (rid, r) = tag_rowid (rid', r') \<Longrightarrow> rid = rid'"
  using tag_rowid_rid [of rid r] tag_rowid_rid [of rid' r'] by simp

lemma fetched_set:
  "set (List.map_filter (\<lambda>rid. map_option (\<lambda>r. tag_rowid (rid, r)) (R rid)) ids) =
     {tag_rowid (rid, r) | rid r. rid \<in> set ids \<and> R rid = Some r}"
  by (induction ids) (auto simp: List.map_filter_simps split: option.splits)

lemma fetched_distinct:
  "distinct ids \<Longrightarrow> distinct (List.map_filter (\<lambda>rid. map_option (\<lambda>r. tag_rowid (rid, r)) (R rid)) ids)"
proof (induction ids)
  case (Cons rid ids)
  then show ?case
    using fetched_set [of R ids]
    by (auto simp: List.map_filter_simps dest: tag_rowid_inj split: option.split)
qed (simp add: List.map_filter_simps)

lemma scanned:
  assumes "iter_ok E" "wf_alist rows"
  shows "set (map tag_rowid (iter_rows E rows)) = {tag_rowid (rid, r) | rid r. map_of rows rid = Some r}"
    and "distinct (map tag_rowid (iter_rows E rows))"
proof -
  show "set (map tag_rowid (iter_rows E rows)) = {tag_rowid (rid, r) | rid r. map_of rows rid = Some r}"
    using iter_rows_set [OF assms(1)] set_map_of [OF assms(2)] by force
  have "mset (iter_rows E rows) = mset rows" using assms(1) by (simp add: iter_ok_def)
  then have "distinct (map fst (iter_rows E rows))"
    using assms(2) by (metis mset_eq_imp_distinct_iff mset_map)
  then have d: "distinct (iter_rows E rows)" "inj_on fst (set (iter_rows E rows))"
    by (simp_all add: distinct_map)
  have "inj_on tag_rowid (set (iter_rows E rows))"
    using inj_onD [OF d(2)] by (auto intro!: inj_onI dest: tag_rowid_inj)
  then show "distinct (map tag_rowid (iter_rows E rows))" using d(1) by (simp add: distinct_map)
qed

text \<open>Fetching by ids that miss no passing row, and filtering, is scanning and filtering.\<close>

lemma fetched_same:
  assumes "iter_ok E" "wf_alist rows" "distinct ids"
    and all: "\<And>rid r. map_of rows rid = Some r \<Longrightarrow> P (tag_rowid (rid, r)) \<Longrightarrow> rid \<in> set ids"
  shows "mset (filter P (List.map_filter (\<lambda>rid. map_option (\<lambda>r. tag_rowid (rid, r)) (map_of rows rid)) ids)) =
     mset (filter P (map tag_rowid (iter_rows E rows)))"
proof -
  let ?f = "List.map_filter (\<lambda>rid. map_option (\<lambda>r. tag_rowid (rid, r)) (map_of rows rid)) ids"
  have "set (filter P ?f) = set (filter P (map tag_rowid (iter_rows E rows)))"
    using all by (auto simp: fetched_set scanned(1) [OF assms(1,2)] simp del: set_map)
  moreover have "distinct (filter P ?f)" by (simp add: fetched_distinct [OF assms(3)])
  moreover have "distinct (filter P (map tag_rowid (iter_rows E rows)))"
    using scanned(2) [OF assms(1,2)] by (rule distinct_filter)
  ultimately show ?thesis using set_eq_iff_mset_eq_distinct by blast
qed

lemma covers_range_distinct:
  assumes cov: "index_covers D idx R st" and "bt_range value_compare lo hi st = Done m"
  shows "distinct (concat (map snd m))"
proof -
  have m: "m = filter (\<lambda>(k, _). above value_compare lo k \<and> below value_compare hi k) st"
    using assms(2) by (simp add: bt_range_def split: if_splits)
  have key: "\<exists>r w. R rid = Some r \<and> index_value idx r = Some w \<and> value_key w = value_key k"
    if "(k, ids) \<in> set st" "rid \<in> set ids" for k ids rid
  proof -
    have "bt_abs value_key st (value_key k) = Some ids"
      using value_order.bt_abs_set [OF covers_wf [OF cov]] that(1) by blast
    then have "rid \<in> ids_at st (value_key k)" using that(2) by (simp add: ids_at_def)
    then show ?thesis unfolding index_covers_ids [OF cov] by auto
  qed
  have "sorted_wrt (\<lambda>x y. value_key (fst x) < value_key (fst y)) m"
    unfolding m using covers_wf [OF cov] by (simp add: bt_wf_def sorted_wrt_filter)
  moreover have "\<forall>(k, ids) \<in> set m. distinct ids \<and> (k, ids) \<in> set st"
    using cov by (auto simp: m index_covers_def)
  ultimately show ?thesis
  proof (induction m)
    case (Cons x m)
    obtain k ids where x: "x = (k, ids)" by force
    have "set ids \<inter> set ids' = {}" if "(k', ids') \<in> set m" for k' ids'
    proof -
      have "value_key k < value_key k'" "(k, ids) \<in> set st" "(k', ids') \<in> set st"
        using Cons.prems that by (auto simp: x)
      then show ?thesis using key [of k ids] key [of k' ids'] by fastforce
    qed
    then show ?case using Cons x by (auto; blast)
  qed simp
qed

section \<open>The index paths find what the scan finds\<close>

lemma filter_where_some:
  assumes "\<And>r. where_passes E s db ps (Some e) 0 r = Done (P r)"
  shows "filter_where E s db ps (Some e) rows = Done (filter P rows)"
  using assms by (simp add: filter_where_def ofilter_Done)

text \<open>C9. For \<open>WHERE col = constant\<close> with an index on col that covers the table, fetching the
  rows through the index and applying the clause selects exactly the rows that a full scan and the
  clause select (as multisets), when the other side mentions no column, the constant and the indexed
  values compare exactly with each other, and every row has the column.\<close>

theorem fetch_equality_sound:
  assumes "iter_ok E" and store: "get_table_store s db t = Some ref" and wf: "wf_alist (k_heap s ref)"
    and eq: "simple_equality E ps e = Done (Some (col, v))" "constant_sides e"
    and idx: "column_index s db t col = Some idx"
    and cov: "index_covers D idx (map_of (k_heap s ref)) (get_index_store s db t (idx_name idx))"
    and D: "comparable_set (insert v D)"
    and col: "col \<noteq> ''_rowid_''" "\<And>rid r. map_of (k_heap s ref) rid = Some r \<Longrightarrow> map_of r col \<noteq> None"
  shows "\<exists>fetched scanned. rows_for_simple_where E s db t (Some e) ps = Done fetched \<and>
      scan_rows E s db t = Done scanned \<and>
      (\<exists>a b. filter_where E s db ps (Some e) fetched = Done a \<and>
             filter_where E s db ps (Some e) scanned = Done b \<and> mset a = mset b)"
proof -
  let ?st = "get_index_store s db t (idx_name idx)" and ?R = "map_of (k_heap s ref)"
  let ?P = "\<lambda>r. value_eq (lookup_column (Some r) col) v"
  have ic: "idx_columns idx = [col]"
    using idx by (auto simp: column_index_def find_Some_iff split: option.splits)
  have "rid \<in> set (store_lookup ?st v)" if r: "?R rid = Some r" "?P (tag_rowid (rid, r))" for rid r
  proof -
    obtain w where w: "map_of r col = Some w" using col(2) [OF r(1)] by auto
    then have "value_compare w v = Equal"
      using r(2) value_eq_compare col(1) by (simp add: lookup_column_def tag_rowid_other)
    then show ?thesis using r(1) w by (simp add: covers_lookup(1) [OF cov D] index_value_def ic)
  qed
  note same = fetched_same [OF assms(1) wf covers_lookup(2) [OF cov D] this]
  show ?thesis
    using same eq(1) idx store filter_where_some [of E s db ps e ?P, OF where_equality [OF eq]]
    by (simp add: rows_for_simple_where_def rows_from_ids_def lookup_index_def scan_rows_def store_get_def)
qed

text \<open>C3. For one range comparison of a column with a constant (\<open><\<close>, \<open><=\<close>,
  \<open>>\<close>, \<open>>=\<close>, either way round, or BETWEEN with no placeholder in its lower
  bound; no side but the column mentions a column) and an index that covers the table, the range
  lookup and the clause select exactly the rows that a full scan and the clause select (as
  multisets), provided that the bounds are not reversed (there the lookup panics where the scan
  selects nothing), that the bounds and the indexed values compare exactly with each other (no NaN,
  no integer beyond 53 bits beside a real), and that every row has the column.\<close>

theorem fetch_range_sound:
  assumes "iter_ok E" and store: "get_table_store s db t = Some ref" and wf: "wf_alist (k_heap s ref)"
    and ne: "simple_equality E ps e = Done None"
    and rg: "simple_range E ps e = Done (Some (col, lo, hi))" "constant_sides e"
    and "\<not> range_panics value_compare lo hi"
    and idx: "column_index s db t col = Some idx"
    and cov: "index_covers D idx (map_of (k_heap s ref)) (get_index_store s db t (idx_name idx))"
    and D: "comparable_set (bound_values lo \<union> bound_values hi \<union> D)"
    and col: "col \<noteq> ''_rowid_''" "\<And>rid r. map_of (k_heap s ref) rid = Some r \<Longrightarrow> map_of r col \<noteq> None"
  shows "\<exists>fetched scanned. rows_for_simple_where E s db t (Some e) ps = Done fetched \<and>
      scan_rows E s db t = Done scanned \<and>
      (\<exists>a b. filter_where E s db ps (Some e) fetched = Done a \<and>
             filter_where E s db ps (Some e) scanned = Done b \<and> mset a = mset b)"
proof -
  let ?st = "get_index_store s db t (idx_name idx)" and ?R = "map_of (k_heap s ref)"
  let ?P = "\<lambda>r. above value_compare lo (lookup_column (Some r) col) \<and>
                below value_compare hi (lookup_column (Some r) col)"
  have ic: "idx_columns idx = [col]"
    using idx by (auto simp: column_index_def find_Some_iff split: option.splits)
  obtain m where m: "bt_range value_compare lo hi ?st = Done m" using assms(7) by (simp add: bt_range_def)
  have "rid \<in> set (concat (map snd m))" if r: "?R rid = Some r" "?P (tag_rowid (rid, r))" for rid r
  proof -
    obtain w where w: "map_of r col = Some w" using col(2) [OF r(1)] by auto
    then show ?thesis
      using r col(1) unfolding covers_range [OF cov D m]
      by (simp add: index_value_def ic lookup_column_def tag_rowid_other)
  qed
  note same = fetched_same [OF assms(1) wf covers_range_distinct [OF cov m] this]
  show ?thesis
    using same ne rg(1) idx store m filter_where_some [of E s db ps e ?P, OF where_range [OF rg]]
    by (simp add: rows_for_simple_where_def fetch_range_def range_lookup_def rows_from_ids_def
        scan_rows_def store_get_def)
qed

section \<open>Concrete queries\<close>

definition ix_a :: index_def where
  "ix_a = \<lparr>idx_name = ''ix'', idx_columns = [''a''], idx_unique = False, idx_partial_where = None,
     idx_is_expression = False\<rparr>"

text \<open>\<open>t\<close> with an index on \<open>a\<close> built over its rows.\<close>

definition indexed_state :: "nat \<Rightarrow> rows \<Rightarrow> kvs" where
  "indexed_state g rs = rebuild_index plain_env 0 ''t'' ix_a (demo_state False [ix_a] g rs)"

definition from_t :: "bool \<Rightarrow> select_item list \<Rightarrow> expr option \<Rightarrow> query" where
  "from_t is_distinct items selection =
     \<lparr>q_body = SelectBody \<lparr>sel_distinct = is_distinct, sel_projection = items,
        sel_from = [\<lparr>tj_relation = TableFactor [nm ''t''] None, tj_joins = []\<rparr>],
        sel_selection = selection, sel_group_by = GroupByExprs []\<rparr>,
      q_order_by = [], q_limit = None, q_offset = None\<rparr>"

definition select_rows :: "kvs \<Rightarrow> query \<Rightarrow> skvs_value list \<Rightarrow> row list outcome" where
  "select_rows s q ps = obind (execute_select plain_env 1 s 0 q ps) (\<lambda>r. Done (qr_rows r))"

abbreviation col_a :: expr where
  "col_a \<equiv> Identifier (nm ''a'')"

abbreviation num :: "string \<Rightarrow> expr" where
  "num n \<equiv> ValueE (Number n)"

abbreviation mark :: expr where
  "mark \<equiv> ValueE (Placeholder ''?'')"

lemma indexed_state_simps [simp]:
  "get_table_store (indexed_state g rs) db t = (if db = 0 \<and> t = ''t'' then Some 0 else None)"
  "get_schema (indexed_state g rs) db t =
     (if db = 0 \<and> t = ''t'' then Some (demo_schema ''t'' False [ix_a]) else None)"
  "k_heap (indexed_state g rs) ref = (if ref = 0 then rs else [])"
  "get_view_definition (indexed_state g rs) db t = None"
  "get_index_store (indexed_state g rs) 0 ''t'' ''ix'' = fold (rebuild_push ix_a) rs []"
  unfolding get_schema_def get_table_store_def get_view_definition_def
  by (simp_all add: indexed_state_def rebuild_index_def ix_a_def set_index_store_def get_index_store_def
      flip: get_schema_def get_table_store_def get_view_definition_def)

lemma indexed_state_covers:
  assumes "wf_alist rs" "\<And>rid r v. map_of rs rid = Some r \<Longrightarrow> map_of r ''a'' = Some v \<Longrightarrow> v \<in> D"
    and "comparable_set D"
  shows "index_covers D ix_a (map_of rs) (get_index_store (indexed_state g rs) 0 ''t'' ''ix'')"
  using rebuild_covers [of plain_env rs D ix_a] assms by (simp add: index_value_def ix_a_def)

definition three_rows :: rows where
  "three_rows = [(1, [(''a'', VInteger 1)]), (2, [(''a'', VInteger 4)]), (3, [(''a'', VInteger 9)])]"

lemma three_rows_ok:
  "wf_alist three_rows" "map_of three_rows rid = Some r \<Longrightarrow> map_of r ''a'' \<noteq> None"
  "map_of three_rows rid = Some r \<Longrightarrow> map_of r ''a'' = Some v \<Longrightarrow> v \<in> {VInteger 1, VInteger 4, VInteger 9}"
  by (auto simp: three_rows_def split: if_splits)

lemma comparable_integers: "comparable_set (VInteger ` I)"
  by (auto simp: comparable_set_def)

lemma three_rows_covered:
  "index_covers {VInteger 1, VInteger 4, VInteger 9} ix_a (map_of three_rows)
     (get_index_store (indexed_state 4 three_rows) 0 ''t'' (idx_name ix_a))"
  using indexed_state_covers [OF three_rows_ok(1,3), where g = 4] comparable_integers [of "{1, 4, 9}"]
  by (simp add: ix_a_def)

lemma ix_a_found: "column_index (indexed_state g rs) 0 ''t'' ''a'' = Some ix_a"
  by (simp add: column_index_def demo_schema_def ix_a_def)

text \<open>\<open>WHERE a = 4\<close> and \<open>WHERE 4 <= a\<close>\<close>

theorem fetch_equality_sound_witness:
  "\<exists>fetched scanned. rows_for_simple_where plain_env (indexed_state 4 three_rows) 0 ''t''
        (Some (BinaryOp col_a BEq (num ''4''))) [] = Done fetched \<and>
      scan_rows plain_env (indexed_state 4 three_rows) 0 ''t'' = Done scanned \<and>
      (\<exists>a b. filter_where plain_env (indexed_state 4 three_rows) 0 []
               (Some (BinaryOp col_a BEq (num ''4''))) fetched = Done a \<and>
             filter_where plain_env (indexed_state 4 three_rows) 0 []
               (Some (BinaryOp col_a BEq (num ''4''))) scanned = Done b \<and> mset a = mset b)"
proof (rule fetch_equality_sound [where ref = 0 and idx = ix_a and v = "VInteger 4" and col = "''a''"
      and D = "{VInteger 1, VInteger 4, VInteger 9}"])
  show "simple_equality plain_env [] (BinaryOp col_a BEq (num ''4'')) = Done (Some (''a'', VInteger 4))"
    by code_simp
  show "comparable_set (insert (VInteger 4) {VInteger 1, VInteger 4, VInteger 9})"
    by (simp add: comparable_set_def)
  show "index_covers {VInteger 1, VInteger 4, VInteger 9} ix_a
      (map_of (k_heap (indexed_state 4 three_rows) 0))
      (get_index_store (indexed_state 4 three_rows) 0 ''t'' (idx_name ix_a))"
    using three_rows_covered by simp
qed (use three_rows_ok ix_a_found in \<open>auto simp: column_side_def\<close>)

theorem fetch_range_sound_witness:
  "\<exists>fetched scanned. rows_for_simple_where plain_env (indexed_state 4 three_rows) 0 ''t''
        (Some (BinaryOp (num ''4'') BLtEq col_a)) [] = Done fetched \<and>
      scan_rows plain_env (indexed_state 4 three_rows) 0 ''t'' = Done scanned \<and>
      (\<exists>a b. filter_where plain_env (indexed_state 4 three_rows) 0 []
               (Some (BinaryOp (num ''4'') BLtEq col_a)) fetched = Done a \<and>
             filter_where plain_env (indexed_state 4 three_rows) 0 []
               (Some (BinaryOp (num ''4'') BLtEq col_a)) scanned = Done b \<and> mset a = mset b)"
proof (rule fetch_range_sound [where ref = 0 and idx = ix_a and lo = "Included (VInteger 4)"
      and hi = Unbounded and col = "''a''" and D = "{VInteger 1, VInteger 4, VInteger 9}"])
  show "simple_range plain_env [] (BinaryOp (num ''4'') BLtEq col_a) =
      Done (Some (''a'', Included (VInteger 4), Unbounded))"
    by code_simp
  show "comparable_set (bound_values (Included (VInteger 4)) \<union> bound_values Unbounded \<union>
      {VInteger 1, VInteger 4, VInteger 9})"
    by (simp add: comparable_set_def)
  show "index_covers {VInteger 1, VInteger 4, VInteger 9} ix_a
      (map_of (k_heap (indexed_state 4 three_rows) 0))
      (get_index_store (indexed_state 4 three_rows) 0 ''t'' (idx_name ix_a))"
    using three_rows_covered by simp
qed (use three_rows_ok ix_a_found in \<open>auto simp: column_side_def\<close>)

text \<open>An index changes the answer of \<open>SELECT * FROM t WHERE a = (a)\<close>: the index path
  evaluates the other side without a row, looks NULL up and finds nothing, the full scan finds the row.\<close>

theorem indexed_expression_loses_rows:
  "select_rows (demo_state False [] 2 [(1, [(''a'', VInteger 1)])])
     (from_t False [Wildcard] (Some (BinaryOp col_a BEq (Nested col_a)))) [] = Done [[(''a'', VInteger 1)]] \<and>
   select_rows (indexed_state 2 [(1, [(''a'', VInteger 1)])])
     (from_t False [Wildcard] (Some (BinaryOp col_a BEq (Nested col_a)))) [] = Done []"
  by code_simp

text \<open>An index changes the answer of \<open>SELECT * FROM t WHERE a BETWEEN ? AND ?\<close> with the
  parameters 1 and 5: the range lookup reads both bounds from the first parameter and misses the row 3.\<close>

theorem between_placeholders_differ:
  "select_rows (demo_state False [] 2 [(1, [(''a'', VInteger 3)])])
     (from_t False [Wildcard] (Some (Between col_a False mark mark))) [VInteger 1, VInteger 5] =
       Done [[(''a'', VInteger 3)]] \<and>
   select_rows (indexed_state 2 [(1, [(''a'', VInteger 3)])])
     (from_t False [Wildcard] (Some (Between col_a False mark mark))) [VInteger 1, VInteger 5] = Done []"
  by code_simp

text \<open>An index turns \<open>SELECT * FROM t WHERE a BETWEEN 5 AND 1\<close> from an empty answer into a
  panic, since BTreeMap::range refuses a start behind its end.\<close>

theorem between_reversed_panics:
  "select_rows (demo_state False [] 2 [(1, [(''a'', VInteger 3)])])
     (from_t False [Wildcard] (Some (Between col_a False (num ''5'') (num ''1'')))) [] = Done [] \<and>
   select_rows (indexed_state 2 [(1, [(''a'', VInteger 3)])])
     (from_t False [Wildcard] (Some (Between col_a False (num ''5'') (num ''1'')))) [] = Panic"
  by code_simp

text \<open>\<open>SELECT DISTINCT *\<close> removes no duplicate: the internal row id is still in the rows when
  they are told apart. \<open>SELECT DISTINCT a\<close> over the same two equal rows answers with one.\<close>

theorem distinct_star_keeps_duplicates:
  "select_rows (demo_state False [] 3 [(1, [(''a'', VInteger 7)]), (2, [(''a'', VInteger 7)])])
     (from_t True [Wildcard] None) [] = Done [[(''a'', VInteger 7)], [(''a'', VInteger 7)]] \<and>
   select_rows (demo_state False [] 3 [(1, [(''a'', VInteger 7)]), (2, [(''a'', VInteger 7)])])
     (from_t True [UnnamedExpr col_a] None) [] = Done [[(''a'', VInteger 7)]]"
  by code_simp

end
