(* ===== verification/Skvs_Keys.thy ===== *)
theory Skvs_Keys
  imports Skvs_Rows Skvs_Paths
begin

text \<open>
  What a row statement keeps, proved along its sequence of row changes: the secondary indexes of
  the table cover its rows, its full-text index covers its documents, and the keys declared UNIQUE or
  PRIMARY KEY stay unique. The statement may have failed half way.
\<close>

section \<open>Indexes\<close>

lemma issue_fields [simp]:
  "k_indexes (set_rowid_gen db t g s) = k_indexes s" "k_fts (set_rowid_gen db t g s) = k_fts s"
  by (simp_all add: set_rowid_gen_def)

fun change_op :: "row_change \<Rightarrow> row \<times> rowid \<times> index_op" where
  "change_op (Inserted rid r) = (r, rid, IxInsert)"
| "change_op (Updated rid old_row r) = (r, rid, IxUpdate old_row)"
| "change_op (Deleted rid r) = (r, rid, IxDelete)"

text \<open>What a change says of the row it replaces is true.\<close>

fun change_true :: "(rowid \<Rightarrow> row option) \<Rightarrow> row_change \<Rightarrow> bool" where
  "change_true R (Inserted rid r) \<longleftrightarrow> R rid = None"
| "change_true R (Updated rid old_row r) \<longleftrightarrow> R rid = Some old_row"
| "change_true R (Deleted rid r) \<longleftrightarrow> R rid = Some r"

lemma change_fits_true: "change_fits E db schema s R c \<Longrightarrow> change_true R c"
  by (cases c) auto

lemma indexes_cover_cong:
  "k_schemas s = k_schemas s' \<Longrightarrow> k_indexes s = k_indexes s' \<Longrightarrow>
   indexes_cover D db t R s = indexes_cover D db t R s'"
  by (simp add: indexes_cover_def get_schema_def get_index_store_def)

lemma write_change_indexes:
  assumes "change_op c = (r, rid, op)"
  shows "indexes_cover D db t R (write_change db t ref tx c s) = indexes_cover D db t R (update_indexes db t r rid op s)"
proof -
  have k: "k_indexes (update_indexes db t r rid op s1) = k_indexes (update_indexes db t r rid op s)"
    if "k_indexes s1 = k_indexes s" "k_schemas s1 = k_schemas s" for s1 r rid op
  proof -
    have "k_indexes (fold (update_index db t r rid op) xs s1) = k_indexes (fold (update_index db t r rid op) xs s)" for xs
      using that
    proof (induction xs arbitrary: s1 s)
      case (Cons x xs)
      show ?case unfolding fold_simps
        by (rule Cons.IH) (simp_all add: update_index_store set_index_store_def get_index_store_def Cons.prems)
    qed simp
    then show ?thesis using that by (simp add: update_indexes_def get_schema_def split: option.split)
  qed
  show ?thesis
    by (rule indexes_cover_cong; cases c)
      (use assms in \<open>auto simp: write_change.simps write_insert_def write_update_def write_delete_def journal_def
        txn_record_def set_txns_def store_insert_def store_remove_def Let_def intro!: k split: option.split\<close>)
qed

lemma write_change_covers:
  assumes cov: "indexes_cover D db t R s" and q: "quiet_table s db t schema ref"
    and fits: "change_true R c"
    and dom: "\<And>r. change_row c = Some r \<Longrightarrow> row_in_domains D (ts_indices schema) r"
  shows "indexes_cover D db t (change_rows c R) (write_change db t ref tx c s)"
proof -
  obtain r rid op where op: "change_op c = (r, rid, op)" by (cases "change_op c") auto
  have "op_applies r rid op R" "change_rows c R = op_rows r rid op R" "op = IxDelete \<or> change_row c = Some r"
    using op fits by (cases c; auto)+
  then show ?thesis
    using update_indexes_cover [OF cov, of r rid op] dom q
    by (auto simp: write_change_indexes [OF op] quiet_table_def)
qed

lemma row_changes_cover:
  assumes "row_changes E db t schema ref tx s cs s'" "quiet_table s db t schema ref"
    and "indexes_cover D db t (row_at s db t) s"
    and "\<And>c r. c \<in> set cs \<Longrightarrow> change_row c = Some r \<Longrightarrow> row_in_domains D (ts_indices schema) r"
  shows "indexes_cover D db t (row_at s' db t) s'"
  using assms
proof (induction rule: row_changes.induct)
  case (changes_issue cs s1)
  have "row_at (set_rowid_gen db t (Suc (rowid_gen s1 db t)) s1) db t = row_at s1 db t" by (simp add: fun_eq_iff)
  then show ?case
    using changes_issue indexes_cover_cong [of "set_rowid_gen db t (Suc (rowid_gen s1 db t)) s1" s1 D db t]
    by simp
next
  case (changes_write cs s1 c)
  have q: "quiet_table s1 db t schema ref" by (rule row_changes_quiet [OF changes_write.hyps(1) changes_write.prems(1)])
  have cov: "indexes_cover D db t (row_at s1 db t) s1"
    by (rule changes_write.IH [OF changes_write.prems(1,2)]) (use changes_write.prems(3) in auto)
  have "row_at (write_change db t ref tx c s1) db t = change_rows c (row_at s1 db t)"
    by (simp add: fun_eq_iff row_at_write_change [OF q])
  then show ?case
    using write_change_covers [OF cov q change_fits_true [OF changes_write.hyps(2)] changes_write.prems(3) [of c], of tx] by simp
qed

lemma dml_covers:
  assumes run: "row_changes E db t schema ref tx s cs s'" "distinct (map change_id cs)"
    and q: "quiet_table s db t schema ref" and cov: "indexes_cover D db t (row_at s db t) s"
    and dom: "\<And>rid r. row_at s' db t rid = Some r \<Longrightarrow> row_in_domains D (ts_indices schema) r"
  shows "indexes_cover D db t (row_at s' db t) s'"
  by (rule row_changes_cover [OF run(1) q cov]) (metis dom row_changes_written [OF run(1) q run(2)])

section \<open>Full-text indexes\<close>

text \<open>The documents of a full-text table: the rows whose content column is text.\<close>

definition fts_docs :: "string \<Rightarrow> (rowid \<Rightarrow> row option) \<Rightarrow> (rowid \<Rightarrow> string option)" where
  "fts_docs col R rid =
     (case R rid of Some r \<Rightarrow> (case map_of r col of Some (VText c) \<Rightarrow> Some c | _ \<Rightarrow> None) | None \<Rightarrow> None)"

lemma fts_docs_Some: "fts_docs col R rid = Some c \<longleftrightarrow> (\<exists>r. R rid = Some r \<and> map_of r col = Some (VText c))"
  by (auto simp: fts_docs_def split: option.splits skvs_value.splits)

lemma fts_docs_none: "fts_docs col (\<lambda>_. None) = (\<lambda>_. None)"
  by (simp add: fts_docs_def fun_eq_iff)

definition fts_in_step :: "u32 \<Rightarrow> string \<Rightarrow> (rowid \<Rightarrow> row option) \<Rightarrow> kvs \<Rightarrow> bool" where
  "fts_in_step db t R s \<longleftrightarrow>
     (\<forall>ft. get_fts_table s db t = Some ft \<longrightarrow> fts_covers (ft_index ft) (fts_docs (ft_content_column ft) R))"

lemma get_fts_register [simp]:
  "get_fts_table (register_fts_table db t ft s) db' t' =
     (if db' = db \<and> t' = t then Some ft else get_fts_table s db' t')"
  by (auto simp: get_fts_table_def register_fts_table_def outer_def split: option.split)

lemma fts_in_step_cong: "k_fts s = k_fts s' \<Longrightarrow> fts_in_step db t R s = fts_in_step db t R s'"
  by (simp add: fts_in_step_def get_fts_table_def)

lemma fts_docs_upd:
  "fts_docs col (R(rid \<mapsto> r)) =
     (fts_docs col R)(rid := (case map_of r col of Some (VText c) \<Rightarrow> Some c | _ \<Rightarrow> None))"
  "fts_docs col (R(rid := None)) = (fts_docs col R)(rid := None)"
  by (auto simp: fts_docs_def fun_eq_iff)

lemma sync_add_in_step:
  assumes "fts_in_step db t R s" "R rid = None"
  shows "fts_in_step db t (R(rid \<mapsto> r)) (sync_fts_index db t rid (Some r) False s)"
proof -
  have "fts_docs col R rid = None" for col using assms(2) by (simp add: fts_docs_def)
  then show ?thesis
    using assms(1)
    by (auto simp: fts_in_step_def sync_fts_index_def fts_update_def fts_docs_upd fun_upd_idem
        intro!: add_document_covers split: option.splits skvs_value.splits if_splits)
qed

lemma sync_remove_in_step:
  assumes "fts_in_step db t R s" "R rid = Some r"
  shows "fts_in_step db t (R(rid := None)) (sync_fts_index db t rid (Some r) True s)"
proof -
  have "fts_docs col R rid = (case map_of r col of Some (VText c) \<Rightarrow> Some c | _ \<Rightarrow> None)" for col
    using assms(2) by (simp add: fts_docs_def)
  then show ?thesis
    using assms(1)
    by (auto simp: fts_in_step_def sync_fts_index_def fts_update_def fts_docs_upd fun_upd_idem
        intro!: remove_document_covers split: option.splits skvs_value.splits if_splits)
qed

lemma write_change_in_step:
  assumes "fts_in_step db t R s" "change_true R c"
  shows "fts_in_step db t (change_rows c R) (write_change db t ref tx c s)"
proof -
  have j: "fts_in_step db t R (update_indexes db t r rid op (journal tx u s2)) = fts_in_step db t R s"
    if "k_fts s2 = k_fts s" for r rid op u s2
    by (rule fts_in_step_cong)
      (simp add: that journal_def txn_record_def set_txns_def Let_def split: option.split)
  have h: "k_fts (store_insert ref rid r s) = k_fts s" "k_fts (store_remove ref rid s) = k_fts s" for rid r
    by (simp_all add: store_insert_def store_remove_def)
  show ?thesis
  proof (cases c)
    case (Inserted rid r)
    let ?s = "update_indexes db t r rid IxInsert (journal tx (UndoInsert t rid) (store_insert ref rid r s))"
    have "fts_in_step db t R ?s" using assms(1) j [OF h(1)] by simp
    from sync_add_in_step [OF this, of rid r] show ?thesis
      using assms(2) by (simp add: Inserted write_change.simps write_insert_def)
  next
    case (Updated rid old_row r)
    let ?s = "update_indexes db t r rid (IxUpdate old_row) (journal tx (UndoUpdate t rid old_row) (store_insert ref rid r s))"
    have "fts_in_step db t R ?s" using assms(1) j [OF h(1)] by simp
    then have "fts_in_step db t (R(rid := None)) (sync_fts_index db t rid (Some old_row) True ?s)"
      by (rule sync_remove_in_step) (use assms(2) Updated in simp)
    from sync_add_in_step [OF this, of rid r] show ?thesis
      by (simp add: Updated write_change.simps write_update_def sync_fts_index_change_def)
  next
    case (Deleted rid r)
    let ?s = "update_indexes db t r rid IxDelete (journal tx (UndoDelete t rid r) (store_remove ref rid s))"
    have "fts_in_step db t R ?s" using assms(1) j [OF h(2)] by simp
    from sync_remove_in_step [OF this, of rid r] show ?thesis
      using assms(2) by (simp add: Deleted write_change.simps write_delete_def)
  qed
qed

lemma row_changes_in_step:
  assumes "row_changes E db t schema ref tx s cs s'" "quiet_table s db t schema ref"
    and "fts_in_step db t (row_at s db t) s"
  shows "fts_in_step db t (row_at s' db t) s'"
  using assms
proof (induction rule: row_changes.induct)
  case (changes_issue cs s1)
  have "row_at (set_rowid_gen db t (Suc (rowid_gen s1 db t)) s1) db t = row_at s1 db t" by (simp add: fun_eq_iff)
  then show ?case
    using changes_issue fts_in_step_cong [of "set_rowid_gen db t (Suc (rowid_gen s1 db t)) s1" s1 db t] by simp
next
  case (changes_write cs s1 c)
  have q: "quiet_table s1 db t schema ref" by (rule row_changes_quiet [OF changes_write.hyps(1) changes_write.prems(1)])
  have "row_at (write_change db t ref tx c s1) db t = change_rows c (row_at s1 db t)"
    by (simp add: fun_eq_iff row_at_write_change [OF q])
  then show ?case
    using write_change_in_step [OF _ change_fits_true [OF changes_write.hyps(2)]] changes_write.IH [OF changes_write.prems] by simp
qed

section \<open>Unique keys\<close>

text \<open>The column lists a schema keeps unique, and rows that have the same non-null values there.\<close>

definition unique_keys :: "table_schema \<Rightarrow> string list list" where
  "unique_keys schema =
     map (\<lambda>(c, _). [c]) (filter (\<lambda>(_, cd). cd_unique cd \<or> cd_primary_key cd) (ts_columns schema)) @
     map ug_columns (ts_unique_groups schema)"

definition same_key :: "string list \<Rightarrow> row \<Rightarrow> row \<Rightarrow> bool" where
  "same_key key r r' \<longleftrightarrow>
     (\<forall>c\<in>set key. \<exists>v w. map_of r c = Some v \<and> map_of r' c = Some w \<and> v \<noteq> VNull \<and> value_eq v w)"

definition keys_unique :: "table_schema \<Rightarrow> (rowid \<Rightarrow> row option) \<Rightarrow> bool" where
  "keys_unique schema R \<longleftrightarrow>
     (\<forall>key \<in> set (unique_keys schema). \<forall>rid rid' r r'.
        R rid = Some r \<longrightarrow> R rid' = Some r' \<longrightarrow> same_key key r r' \<longrightarrow> rid = rid')"

lemma same_key_sym: "same_key key r r' \<Longrightarrow> same_key key r' r"
  unfolding same_key_def by (metis value_eq_null(1) value_eq_sym)

lemma same_key_values:
  assumes "same_key key r r'"
  defines "vals \<equiv> map (\<lambda>c. case map_of r c of Some v \<Rightarrow> v | None \<Rightarrow> VNull) key"
  shows "\<not> list_ex is_null vals" "row_has_values key vals r'"
  using assms(1) unfolding vals_def same_key_def row_has_values_def
  by (auto simp: list_ex_iff list_all_iff is_null_def zip_map2 zip_same_conv_map value_eq_sym
      split: option.splits skvs_value.splits)

lemma exists_elsewhere:
  assumes q: "quiet_table s db t schema ref" and name: "ts_name schema = t"
    and cov: "indexes_cover D db t (row_at s db t) s" and dom: "row_in_domains D (ts_indices schema) r"
    and key: "same_key key r r'" and at: "row_at s db t rid' = Some r'" "rid' \<noteq> rid"
  shows "value_exists_elsewhere s db schema key
    (map (\<lambda>c. case map_of r c of Some v \<Rightarrow> v | None \<Rightarrow> VNull) key) rid"
proof -
  let ?vals = "map (\<lambda>c. case map_of r c of Some v \<Rightarrow> v | None \<Rightarrow> VNull) key"
  have st: "get_table_store s db (ts_name schema) = Some ref" "get_schema s db t = Some schema"
    using q name by (simp_all add: quiet_table_def)
  let ?idx = "if length key = 1 then List.find (\<lambda>i. idx_columns i = key) (ts_indices schema) else None"
  show ?thesis
  proof (cases ?idx)
    case None
    have "map_of (k_heap s ref) rid' = Some r'"
      using at(1) q by (simp add: row_at_def store_get_def quiet_table_def)
    then have in_heap: "(rid', r') \<in> set (k_heap s ref)" by (rule map_of_SomeD)
    have "list_ex (\<lambda>(rid1, r1). rid1 \<noteq> rid \<and> row_has_values key ?vals r1) (k_heap s ref)"
      unfolding list_ex_iff by (rule bexI [OF _ in_heap]) (use same_key_values(2) [OF key] at(2) in simp)
    then show ?thesis by (simp only: value_exists_elsewhere_def st option.case None)
  next
    case (Some idx)
    then obtain c where c: "key = [c]" "idx \<in> set (ts_indices schema)" "idx_columns idx = [c]"
      by (auto simp: find_Some_iff length_Suc_conv split: if_splits)
    obtain v w where v: "map_of r c = Some v" "map_of r' c = Some w" "value_eq v w"
      using key by (auto simp: same_key_def c(1))
    have cov': "index_covers (D idx) idx (row_at s db t) (get_index_store s db t (idx_name idx))"
      using cov st(2) c(2) by (simp add: indexes_cover_def)
    have "v \<in> D idx" using dom c v(1) by (auto simp: row_in_domains_def index_value_def)
    then have "comparable_set (insert v (D idx))" using cov' by (simp add: insert_absorb index_covers_def)
    from covers_lookup(1) [OF cov' this] have "rid' \<in> set (lookup_index s db t (idx_name idx) v)"
      using at(1) c(3) v value_eq_compare [of w v] value_eq_sym [of v w]
      by (auto simp: lookup_index_def index_value_def)
    then show ?thesis
      unfolding value_exists_elsewhere_def st option.case Some
      using at(2) by (auto simp: list_ex_iff c(1) v(1) name)
  qed
qed

lemma validated_fresh_key:
  assumes "validate_constraints E s db schema r rid = Done ()" "key \<in> set (unique_keys schema)"
    and "quiet_table s db t schema ref" "ts_name schema = t"
    and "indexes_cover D db t (row_at s db t) s" "row_in_domains D (ts_indices schema) r"
    and "same_key key r r'" "row_at s db t rid' = Some r'"
  shows "rid' = rid"
proof (rule ccontr)
  assume "rid' \<noteq> rid"
  note ex = exists_elsewhere [OF assms(3-8) this]
  note nn = same_key_values(1) [OF assms(7)]
  have v: "ocheck (check_column_unique s db schema r rid) (ts_columns schema) = Done ()"
    "ocheck (check_group s db schema r rid) (ts_unique_groups schema) = Done ()"
    using assms(1) by (auto simp: validate_constraints_def outcome_simps)
  from assms(2) consider (column) c cd where "key = [c]" "(c, cd) \<in> set (ts_columns schema)" "cd_unique cd \<or> cd_primary_key cd"
    | (group) g where "key = ug_columns g" "g \<in> set (ts_unique_groups schema)"
    by (auto simp: unique_keys_def)
  then show False
  proof cases
    case column
    have "check_column_unique s db schema r rid (c, cd) = Done ()"
      using v(1) column(2) by (auto simp: outcome_simps)
    then show False
      using ex nn column(1,3) by (auto simp: check_column_unique_def violation_def split: option.splits if_splits)
  next
    case group
    have "check_group s db schema r rid g = Done ()" using v(2) group(2) by (auto simp: outcome_simps)
    then show False
      using ex nn group(1) by (auto simp: check_group_def violation_def Let_def split: if_splits)
  qed
qed

lemma row_changes_unique:
  assumes "row_changes E db t schema ref tx s cs s'" "quiet_table s db t schema ref" "ts_name schema = t"
    and "indexes_cover D db t (row_at s db t) s"
    and "\<And>c r. c \<in> set cs \<Longrightarrow> change_row c = Some r \<Longrightarrow> row_in_domains D (ts_indices schema) r"
    and "keys_unique schema (row_at s db t)"
  shows "keys_unique schema (row_at s' db t)"
  using assms
proof (induction rule: row_changes.induct)
  case (changes_issue cs s1)
  have "row_at (set_rowid_gen db t (Suc (rowid_gen s1 db t)) s1) db t = row_at s1 db t" by (simp add: fun_eq_iff)
  then show ?case using changes_issue by simp
next
  case (changes_write cs s1 c)
  have q: "quiet_table s1 db t schema ref" by (rule row_changes_quiet [OF changes_write.hyps(1) changes_write.prems(1)])
  have cov: "indexes_cover D db t (row_at s1 db t) s1"
    by (rule row_changes_cover [OF changes_write.hyps(1) changes_write.prems(1,3)])
      (use changes_write.prems(4) in auto)
  have u: "keys_unique schema (row_at s1 db t)"
    by (rule changes_write.IH [OF changes_write.prems(1-3) _ changes_write.prems(5)])
      (use changes_write.prems(4) in auto)
  have eq: "row_at (write_change db t ref tx c s1) db t = change_rows c (row_at s1 db t)"
    by (simp add: fun_eq_iff row_at_write_change [OF q])
  have new: "rid' = change_id c"
    if "change_row c = Some r" "key \<in> set (unique_keys schema)" "same_key key r r'" "row_at s1 db t rid' = Some r'"
    for r r' key rid'
  proof (rule validated_fresh_key [OF _ that(2) q changes_write.prems(2) cov _ that(3,4)])
    show "validate_constraints E s1 db schema r (change_id c) = Done ()"
      using changes_write.hyps(2) that(1) by (cases c) auto
    show "row_in_domains D (ts_indices schema) r" using changes_write.prems(4) [of c] that(1) by simp
  qed
  show ?case
    unfolding keys_unique_def eq change_rows_id
  proof (intro ballI allI impI)
    fix key rid rid' r r'
    assume key: "key \<in> set (unique_keys schema)" "same_key key r r'"
      and at: "(if rid = change_id c then change_row c else row_at s1 db t rid) = Some r"
        "(if rid' = change_id c then change_row c else row_at s1 db t rid') = Some r'"
    show "rid = rid'"
      using at new [OF _ key(1) key(2)] new [OF _ key(1) same_key_sym [OF key(2)]] u key
      unfolding keys_unique_def by (auto split: if_splits)
  qed
qed

section \<open>What row statements keep\<close>

text \<open>C11. Whatever its outcome, a row statement on a table without triggers keeps every UNIQUE and PRIMARY
  KEY column or group free of two rows with the same non-null values, whether uniqueness is looked up
  in an index or by a scan, as long as the schema carries the table's own name (which ALTER TABLE
  RENAME TO does not see to: a renamed table takes duplicates), the table's indexes cover its rows,
  and the values left in indexed columns compare exactly with each other (no NaN, no integer beyond
  53 bits beside a real).\<close>

theorem unique_keys_kept:
  assumes ok: "iter_ok E" and q: "quiet_table s db t schema ref" "rows_issued s db t" and name: "ts_name schema = t"
    and t: "dml_target E stmt = Some t"
    and run: "execute_single_statement E n db stmt ps tx s = (res, s')"
    and b: "rowid_gen s' db t \<le> 2 ^ 64"
    and cov: "indexes_cover D db t (row_at s db t) s"
    and dom: "\<And>rid r. row_at s' db t rid = Some r \<Longrightarrow> row_in_domains D (ts_indices schema) r"
    and u: "keys_unique schema (row_at s db t)"
  shows "keys_unique schema (row_at s' db t)"
proof -
  obtain cs where cs: "row_changes E db t schema ref tx s cs s'" "distinct (map change_id cs)"
    using dml_changes [OF ok q t run b] by blast
  show ?thesis
    by (rule row_changes_unique [OF cs(1) q(1) name cov _ u]) (metis dom row_changes_written [OF cs(1) q(1) cs(2)])
qed

text \<open>C13. Whatever its outcome, a row statement on a table without triggers leaves every secondary index of
  the table covering exactly its rows, if they did before and the values in indexed columns compare
  exactly with each other.\<close>

theorem dml_keeps_indexes:
  assumes ok: "iter_ok E" and q: "quiet_table s db t schema ref" "rows_issued s db t"
    and t: "dml_target E stmt = Some t"
    and run: "execute_single_statement E n db stmt ps tx s = (res, s')"
    and b: "rowid_gen s' db t \<le> 2 ^ 64"
    and cov: "indexes_cover D db t (row_at s db t) s"
    and dom: "\<And>rid r. row_at s' db t rid = Some r \<Longrightarrow> row_in_domains D (ts_indices schema) r"
  shows "indexes_cover D db t (row_at s' db t) s'"
proof -
  obtain cs where cs: "row_changes E db t schema ref tx s cs s'" "distinct (map change_id cs)"
    using dml_changes [OF ok q t run b] by blast
  show ?thesis by (rule dml_covers [OF cs q(1) cov dom])
qed

text \<open>C20. Whatever its outcome, a row statement on a table without triggers leaves the full-text index of
  the table in step with the rows, if it was before: a search then returns exactly the rows whose
  content column is a text with all the words of the query (none, for a query without words).\<close>

theorem full_text_search_follows_rows:
  assumes ok: "iter_ok E" and q: "quiet_table s db t schema ref" "rows_issued s db t"
    and t: "dml_target E stmt = Some t"
    and run: "execute_single_statement E n db stmt ps tx s = (res, s')"
    and b: "rowid_gen s' db t \<le> 2 ^ 64"
    and fts: "fts_in_step db t (row_at s db t) s" and ft: "get_fts_table s' db t = Some ft"
  shows "fts_in_step db t (row_at s' db t) s' \<and>
    fts_search (ft_index ft) query =
      (if tokenize query = [] then {}
       else {rid. \<exists>r c. row_at s' db t rid = Some r \<and> map_of r (ft_content_column ft) = Some (VText c) \<and>
               set (tokenize query) \<subseteq> set (tokenize c)})"
proof -
  have step: "fts_in_step db t (row_at s' db t) s'"
    using dml_changes [OF ok q t run b] row_changes_in_step [OF _ q(1) fts] by blast
  then have "fts_covers (ft_index ft) (fts_docs (ft_content_column ft) (row_at s' db t))"
    using ft by (simp add: fts_in_step_def)
  from fts_search_spec [OF this] step show ?thesis by (auto simp: fts_docs_Some)
qed

section \<open>Concrete statements\<close>

lemma demo_no_indexes: "indexes_cover D 0 ''t'' R (demo_state uniq [] g rs)"
  by (simp add: indexes_cover_def demo_schema_def)

lemma one_row_target: "dml_target plain_env (one_row n) = Some ''t''"
  by (simp add: one_row_def plain_name_t)

theorem unique_keys_kept_witness:
  "keys_unique (demo_schema ''t'' True [])
     (row_at (snd (execute_single_statement plain_env 1 0 (one_row ''1'') [] None unique_state)) 0 ''t'') \<and>
   keys_unique (demo_schema ''t'' True [])
     (row_at (snd (execute_single_statement plain_env 1 0 (one_row ''2'') [] None unique_state)) 0 ''t'')"
proof -
  have kept: "keys_unique (demo_schema ''t'' True []) (row_at s' 0 ''t'')"
    if "execute_single_statement plain_env 1 0 (one_row n) [] None unique_state = (res, s')" "rowid_gen s' 0 ''t'' = 3"
    for n res s'
  proof (rule unique_keys_kept [OF plain_env_ok unique_state_quiet _ one_row_target that(1), where D = "\<lambda>_. {}"])
    show "indexes_cover (\<lambda>_. {}) 0 ''t'' (row_at unique_state 0 ''t'') unique_state"
      unfolding unique_state_def by (rule demo_no_indexes)
    show "keys_unique (demo_schema ''t'' True []) (row_at unique_state 0 ''t'')"
      by (auto simp: keys_unique_def unique_state_def row_at_demo split: if_splits)
  qed (use that(2) in \<open>simp_all add: demo_schema_def row_in_domains_def\<close>)
  have "rowid_gen (snd (execute_single_statement plain_env 1 0 (one_row ''1'') [] None unique_state)) 0 ''t'' = 3"
    "rowid_gen (snd (execute_single_statement plain_env 1 0 (one_row ''2'') [] None unique_state)) 0 ''t'' = 3"
    by code_simp+
  with kept show ?thesis by (metis prod.collapse)
qed

lemma indexed_quiet:
  assumes "wf_alist rs" "\<forall>rid. map_of rs rid \<noteq> None \<longrightarrow> unat rid < g"
  shows "quiet_table (indexed_state g rs) 0 ''t'' (demo_schema ''t'' False [ix_a]) 0" "rows_issued (indexed_state g rs) 0 ''t''"
proof -
  have f: "k_triggers (indexed_state g rs) = k_triggers (demo_state False [ix_a] g rs)"
    "k_rowid_gens (indexed_state g rs) = k_rowid_gens (demo_state False [ix_a] g rs)"
    by (simp_all add: indexed_state_def rebuild_index_def set_index_store_def)
  have "get_triggers (indexed_state g rs) 0 ''t'' = get_triggers (demo_state False [ix_a] g rs) 0 ''t''"
    unfolding get_triggers_def f ..
  moreover have "rowid_gen (indexed_state g rs) 0 ''t'' = rowid_gen (demo_state False [ix_a] g rs) 0 ''t''"
    unfolding rowid_gen_def f ..
  ultimately show "quiet_table (indexed_state g rs) 0 ''t'' (demo_schema ''t'' False [ix_a]) 0" "rows_issued (indexed_state g rs) 0 ''t''"
    using assms by (auto simp: quiet_table_def stores_distinct_def heap_wf_def rows_issued_def row_at_def store_get_def)
qed

theorem dml_keeps_indexes_witness:
  "indexes_cover (\<lambda>_. {VInteger 1, VInteger 4, VInteger 9}) 0 ''t''
     (row_at (snd (execute_single_statement plain_env 1 0 (one_row ''4'') [] None (indexed_state 4 three_rows))) 0 ''t'')
     (snd (execute_single_statement plain_env 1 0 (one_row ''4'') [] None (indexed_state 4 three_rows)))"
proof -
  let ?s = "indexed_state 4 three_rows" and ?D = "\<lambda>_ :: index_def. {VInteger 1, VInteger 4, VInteger 9}"
  obtain res s2 where x: "execute_single_statement plain_env 1 0 (one_row ''4'') [] None ?s = (res, s2)" by force
  have "k_heap (snd (execute_single_statement plain_env 1 0 (one_row ''4'') [] None ?s)) 0 =
      three_rows @ [(4, [(''a'', VInteger 4)])]"
    "get_table_store (snd (execute_single_statement plain_env 1 0 (one_row ''4'') [] None ?s)) 0 ''t'' = Some 0"
    "rowid_gen (snd (execute_single_statement plain_env 1 0 (one_row ''4'') [] None ?s)) 0 ''t'' = 5"
    by code_simp+
  note heap = this [unfolded x snd_conv]
  have q: "quiet_table ?s 0 ''t'' (demo_schema ''t'' False [ix_a]) 0" "rows_issued ?s 0 ''t''"
    by (rule indexed_quiet; auto simp: three_rows_def)+
  have at: "row_at ?s 0 ''t'' = map_of three_rows" by (simp add: row_at_def store_get_def fun_eq_iff)
  show ?thesis
    unfolding x snd_conv
  proof (rule dml_keeps_indexes [OF plain_env_ok q one_row_target x])
    have "index_covers {VInteger 1, VInteger 4, VInteger 9} ix_a (map_of three_rows) (get_index_store ?s 0 ''t'' ''ix'')"
      by (rule indexed_state_covers)
        (auto simp: three_rows_def comparable_set_def split: if_splits)
    then show "indexes_cover ?D 0 ''t'' (row_at ?s 0 ''t'') ?s"
      unfolding at by (simp add: indexes_cover_def demo_schema_def ix_a_def)
    show "row_in_domains ?D (ts_indices (demo_schema ''t'' False [ix_a])) r" if "row_at s2 0 ''t'' rid = Some r" for rid r
      using that by (auto simp: row_at_def store_get_def heap three_rows_def row_in_domains_def demo_schema_def
          index_value_def ix_a_def split: if_splits)
  qed (use heap in simp_all)
qed

text \<open>A full-text table on \<open>a\<close>, and INSERT INTO t (a) VALUES ('the quick fox').\<close>

definition note_state :: kvs where
  "note_state = register_fts_table 0 ''t'' (fts_table_new ''t'' ''a'') (demo_state False [] 1 [])"

definition add_note :: statement where
  "add_note = SInsert [nm ''t''] [nm ''a'']
     (Some \<lparr>q_body = ValuesBody [[ValueE (SingleQuotedString ''the quick fox'')]], q_order_by = [],
            q_limit = None, q_offset = None\<rparr>)"

theorem full_text_search_follows_rows_witness:
  "\<exists>ft. get_fts_table (snd (execute_single_statement plain_env 1 0 add_note [] None note_state)) 0 ''t'' = Some ft \<and>
     fts_search (ft_index ft) ''Quick'' = {1} \<and> fts_search (ft_index ft) ''quick dog'' = {}"
proof -
  let ?x = "execute_single_statement plain_env 1 0 add_note [] None note_state"
  have g: "rowid_gen (snd ?x) 0 ''t'' = 2" "k_heap (snd ?x) 0 = [(1, [(''a'', VText ''the quick fox'')])]"
    "get_table_store (snd ?x) 0 ''t'' = Some 0"
    by code_simp+
  have f: "k_dbs note_state = k_dbs (demo_state False [] 1 [])" "k_schemas note_state = k_schemas (demo_state False [] 1 [])"
    "k_triggers note_state = k_triggers (demo_state False [] 1 [])" "k_heap note_state = k_heap (demo_state False [] 1 [])"
    by (simp_all add: note_state_def register_fts_table_def)
  have at: "row_at note_state 0 ''t'' = (\<lambda>_. None)"
    using row_at_cong [of note_state "demo_state False [] 1 []" 0 "''t''"] f by (simp add: row_at_demo fun_eq_iff)
  have q: "quiet_table note_state 0 ''t'' (demo_schema ''t'' False []) 0" "rows_issued note_state 0 ''t''"
    using demo_quiet [of "[]" False "[]" 1] quiet_table_cong [OF f(1-3), of 0 "''t''" "demo_schema ''t'' False []" 0]
    by (simp_all add: heap_wf_def f(4) rows_issued_def at)
  have t: "dml_target plain_env add_note = Some ''t''" by (simp add: add_note_def plain_name_t)
  have step: "fts_in_step 0 ''t'' (row_at note_state 0 ''t'') note_state"
    unfolding at
    by (auto simp: fts_in_step_def note_state_def fts_table_new_def fts_docs_none intro!: fts_covers_new)
  have content: "map_option ft_content_column (get_fts_table (snd ?x) 0 ''t'') = Some ''a''" by code_simp
  then obtain ft where ft: "get_fts_table (snd ?x) 0 ''t'' = Some ft" "ft_content_column ft = ''a''" by auto
  have "execute_single_statement plain_env 1 0 add_note [] None note_state = (fst ?x, snd ?x)" by simp
  note found = conjunct2 [OF full_text_search_follows_rows [OF plain_env_ok q t this _ step ft(1)]]
  have toks: "tokenize ''Quick'' = [''quick'']" "tokenize ''quick dog'' = [''quick'', ''dog'']"
    "tokenize ''the quick fox'' = [''quick'', ''fox'']" by code_simp+
  have "fts_search (ft_index ft) ''Quick'' = {1}" "fts_search (ft_index ft) ''quick dog'' = {}"
    using g by (auto simp: found ft(2) toks row_at_def store_get_def split: if_splits)
  then show ?thesis using ft(1) by blast
qed

end
