(* ===== verification/Skvs_Query.thy ===== *)
theory Skvs_Query
  imports Skvs_Keys Skvs_Order
begin

text \<open>
  What a SELECT of one table returns: whatever access path \<^verbatim>\<open>rows_for_simple_where\<close>
  (\<^verbatim>\<open>src/src/sql/select.rs\<close>) takes, the rows that pass the WHERE clause, each once
  (\<open>fetch_matching\<close>), permuted by ORDER BY and projected without the internal row id.
\<close>

section \<open>The rows that match\<close>

definition matches :: "('x) env_scheme \<Rightarrow> kvs \<Rightarrow> u32 \<Rightarrow> skvs_value list \<Rightarrow> expr option \<Rightarrow> row \<Rightarrow> bool" where
  "matches E s db ps selection = (\<lambda>r. where_passes E s db ps selection 0 r = Done True)"

text \<open>The rows of a table that match, each tagged with its id.\<close>

definition matching_set :: "('x) env_scheme \<Rightarrow> kvs \<Rightarrow> u32 \<Rightarrow> string \<Rightarrow> skvs_value list \<Rightarrow> expr option \<Rightarrow> row set" where
  "matching_set E s db t ps selection =
     {tag_rowid (rid, r) | rid r. row_at s db t rid = Some r \<and> matches E s db ps selection (tag_rowid (rid, r))}"

text \<open>Where an index would be used for \<open>e\<close>, the other side is constant, the values compare exactly and every
  row has the column.\<close>

definition index_safe ::
  "('x) env_scheme \<Rightarrow> (index_def \<Rightarrow> skvs_value set) \<Rightarrow> kvs \<Rightarrow> u32 \<Rightarrow> string \<Rightarrow> skvs_value list \<Rightarrow> expr \<Rightarrow> bool" where
  "index_safe E D s db t ps e \<longleftrightarrow>
     (\<forall>col vs idx. (\<exists>v. simple_equality E ps e = Done (Some (col, v)) \<and> vs = {v}) \<or>
         (\<exists>lo hi. simple_range E ps e = Done (Some (col, lo, hi)) \<and> vs = bound_values lo \<union> bound_values hi) \<longrightarrow>
       column_index s db t col = Some idx \<longrightarrow>
       constant_sides e \<and> comparable_set (vs \<union> D idx) \<and> col \<noteq> ''_rowid_'' \<and>
       (\<forall>rid r. row_at s db t rid = Some r \<longrightarrow> map_of r col \<noteq> None))"

lemma index_safe_equality:
  assumes "index_safe E D s db t ps e" "simple_equality E ps e = Done (Some (col, v))" "column_index s db t col = Some idx"
  shows "constant_sides e" "comparable_set (insert v (D idx))" "col \<noteq> ''_rowid_''"
    "row_at s db t rid = Some r \<Longrightarrow> map_of r col \<noteq> None"
  using assms(1) [unfolded index_safe_def, rule_format, of col "{v}" idx] assms(2,3) by auto

lemma index_safe_range:
  assumes "index_safe E D s db t ps e" "simple_range E ps e = Done (Some (col, lo, hi))" "column_index s db t col = Some idx"
  shows "constant_sides e" "comparable_set (bound_values lo \<union> bound_values hi \<union> D idx)" "col \<noteq> ''_rowid_''"
    "row_at s db t rid = Some r \<Longrightarrow> map_of r col \<noteq> None"
  using assms(1) [unfolded index_safe_def, rule_format, of col "bound_values lo \<union> bound_values hi" idx] assms(2,3) by auto

lemma filter_where_matches:
  "filter_where E s db ps selection rows = Done out \<Longrightarrow> out = filter (matches E s db ps selection) rows"
  by (auto simp: filter_where_def matches_def where_passes_def split: option.splits dest!: ofilter_DoneD)

lemma scan_matching:
  assumes "iter_ok E" "get_table_store s db t = Some ref" "wf_alist (k_heap s ref)"
    and "scan_rows E s db t = Done rows"
  shows "distinct (filter (matches E s db ps selection) rows) \<and>
    set (filter (matches E s db ps selection) rows) = matching_set E s db t ps selection"
proof -
  have "rows = map tag_rowid (iter_rows E (k_heap s ref))" using assms(2,4) by (simp add: scan_rows_def)
  with scanned [OF assms(1,3)] assms(2) show ?thesis
    by (auto simp: matching_set_def row_at_def store_get_def simp del: set_map)
qed

lemma ids_matching:
  assumes "get_table_store s db t = Some ref" "rows_from_ids s db t ids = Done rows" "distinct ids"
    and all: "\<And>rid r. row_at s db t rid = Some r \<Longrightarrow> matches E s db ps selection (tag_rowid (rid, r)) \<Longrightarrow> rid \<in> set ids"
  shows "distinct (filter (matches E s db ps selection) rows) \<and>
    set (filter (matches E s db ps selection) rows) = matching_set E s db t ps selection"
proof -
  have "rows = List.map_filter (\<lambda>rid. map_option (\<lambda>r. tag_rowid (rid, r)) (row_at s db t rid)) ids"
    using assms(1,2) by (simp add: rows_from_ids_def row_at_def)
  then show ?thesis
    using fetched_distinct [OF assms(3), of "row_at s db t"] all
    by (auto simp: fetched_set matching_set_def)
qed

lemma index_value_single: "column_index s db t col = Some idx \<Longrightarrow> index_value idx r = map_of r col"
  by (auto simp: column_index_def find_Some_iff index_value_def split: option.splits)

lemma column_index_covers:
  assumes "indexes_cover D db t R s" "column_index s db t col = Some idx"
  shows "index_covers (D idx) idx R (get_index_store s db t (idx_name idx))"
  using assms by (auto simp: indexes_cover_def column_index_def find_Some_iff split: option.splits)

lemma fetch_range_cases:
  assumes "fetch_range E s db t ps e = Done rows"
  obtains (scan) "scan_rows E s db t = Done rows"
    | (rg) col lo hi idx ids where "simple_range E ps e = Done (Some (col, lo, hi))" "column_index s db t col = Some idx"
        "range_lookup s db t (idx_name idx) lo hi = Done ids" "rows_from_ids s db t ids = Done rows"
proof -
  obtain rng where r: "simple_range E ps e = Done rng" using assms by (auto simp: fetch_range_def outcome_simps)
  show thesis
  proof (cases rng)
    case None
    then show ?thesis using assms r scan by (simp add: fetch_range_def)
  next
    case (Some c)
    obtain col lo hi where "c = (col, lo, hi)" by (cases c)
    then show ?thesis using assms r Some scan rg by (auto simp: fetch_range_def outcome_simps split: option.splits)
  qed
qed

lemma rows_for_cases:
  assumes "rows_for_simple_where E s db t selection ps = Done rows"
  obtains (scan) "scan_rows E s db t = Done rows"
    | (eq) e col v idx where "selection = Some e" "simple_equality E ps e = Done (Some (col, v))" "column_index s db t col = Some idx"
        "rows_from_ids s db t (lookup_index s db t (idx_name idx) v) = Done rows"
    | (rg) e col lo hi idx ids where "selection = Some e" "simple_range E ps e = Done (Some (col, lo, hi))" "column_index s db t col = Some idx"
        "range_lookup s db t (idx_name idx) lo hi = Done ids" "rows_from_ids s db t ids = Done rows"
proof (cases selection)
  case None
  then show ?thesis using assms scan by (simp add: rows_for_simple_where_def)
next
  case (Some e)
  obtain q where q: "simple_equality E ps e = Done q" using assms by (auto simp: Some rows_for_simple_where_def outcome_simps)
  have body: "(case q of
      Some (col, v) \<Rightarrow> (case column_index s db t col of
          Some idx \<Rightarrow> rows_from_ids s db t (lookup_index s db t (idx_name idx) v)
        | None \<Rightarrow> fetch_range E s db t ps e)
    | None \<Rightarrow> fetch_range E s db t ps e) = Done rows"
    using assms q by (simp add: Some rows_for_simple_where_def)
  consider "fetch_range E s db t ps e = Done rows"
    | col v idx where "q = Some (col, v)" "column_index s db t col = Some idx"
        "rows_from_ids s db t (lookup_index s db t (idx_name idx) v) = Done rows"
    using body by (auto split: option.splits)
  then show ?thesis
  proof cases
    case 1
    then show ?thesis
    proof (cases rule: fetch_range_cases)
      case scan
      then show ?thesis by (rule that(1))
    next
      case (rg col lo hi idx ids)
      then show ?thesis by (rule that(3) [OF Some])
    qed
  next
    case (2 col v idx)
    then show ?thesis using eq [OF Some] q by simp
  qed
qed

text \<open>Every access path that answers selects exactly the matching rows.\<close>

lemma fetch_matching:
  assumes "iter_ok E" and store: "get_table_store s db t = Some ref" and wf: "wf_alist (k_heap s ref)"
    and cov: "indexes_cover D db t (row_at s db t) s"
    and safe: "\<And>e. selection = Some e \<Longrightarrow> index_safe E D s db t ps e"
    and rows: "rows_for_simple_where E s db t selection ps = Done rows"
  shows "distinct (filter (matches E s db ps selection) rows) \<and>
    set (filter (matches E s db ps selection) rows) = matching_set E s db t ps selection"
proof -
  from rows show ?thesis
  proof (cases rule: rows_for_cases)
    case scan
    then show ?thesis by (rule scan_matching [OF assms(1) store wf])
  next
    case (eq e col v idx)
    note s = index_safe_equality [OF safe [OF eq(1)] eq(2,3)]
    note c = column_index_covers [OF cov eq(3)]
    show ?thesis
    proof (rule ids_matching [OF store eq(4)])
      fix rid r assume r: "row_at s db t rid = Some r" "matches E s db ps selection (tag_rowid (rid, r))"
      obtain w where w: "map_of r col = Some w" using s(4) [OF r(1)] by auto
      have "value_compare w v = Equal"
        using r(2) where_equality [OF eq(2) s(1)] value_eq_compare
        by (simp add: matches_def eq(1) lookup_column_def tag_rowid_other s(3) w)
      then show "rid \<in> set (lookup_index s db t (idx_name idx) v)"
        using r(1) w by (simp add: lookup_index_def covers_lookup(1) [OF c s(2)] index_value_single [OF eq(3)])
    qed (simp add: lookup_index_def covers_lookup(2) [OF c s(2)])
  next
    case (rg e col lo hi idx ids)
    note s = index_safe_range [OF safe [OF rg(1)] rg(2,3)]
    note c = column_index_covers [OF cov rg(3)]
    obtain m where m: "bt_range value_compare lo hi (get_index_store s db t (idx_name idx)) = Done m" "ids = concat (map snd m)"
      using rg(4) by (auto simp: range_lookup_def outcome_simps)
    show ?thesis
    proof (rule ids_matching [OF store rg(5)])
      fix rid r assume r: "row_at s db t rid = Some r" "matches E s db ps selection (tag_rowid (rid, r))"
      obtain w where w: "map_of r col = Some w" using s(4) [OF r(1)] by auto
      have "above value_compare lo w \<and> below value_compare hi w"
        using r(2) where_range [OF rg(2) s(1)]
        by (simp add: matches_def rg(1) lookup_column_def tag_rowid_other s(3) w)
      then show "rid \<in> set ids"
        unfolding m(2) covers_range [OF c s(2) m(1)] using r(1) w by (simp add: index_value_single [OF rg(3)])
    qed (simp add: m(2) covers_range_distinct [OF c m(1)])
  qed
qed

section \<open>ORDER BY keeps the rows\<close>

lemma omap_snd: "omap (\<lambda>r. obind (f r) (\<lambda>(v, _). Done (v, r))) rows = Done keyed \<Longrightarrow> map snd keyed = rows"
  by (induction rows arbitrary: keyed) (auto simp: outcome_simps split: prod.splits)

lemma order_pass_mset: "order_pass E ob rows = Done ys \<Longrightarrow> mset ys = mset rows"
  by (auto simp: order_pass_def outcome_simps split: if_splits dest!: omap_snd)

lemma order_passes_mset: "order_passes E obs rows = Done ys \<Longrightarrow> mset ys = mset rows"
  by (induction obs arbitrary: rows) (auto simp: outcome_simps dest!: order_pass_mset)

text \<open>A SELECT of one table, not grouped, not DISTINCT and without a limit.\<close>

definition plain_body :: "table_factor \<Rightarrow> select_item list \<Rightarrow> expr option \<Rightarrow> select_stmt" where
  "plain_body relation items selection =
     \<lparr>sel_distinct = False, sel_projection = items, sel_from = [\<lparr>tj_relation = relation, tj_joins = []\<rparr>],
      sel_selection = selection, sel_group_by = GroupByExprs []\<rparr>"

definition plain_query :: "table_factor \<Rightarrow> select_item list \<Rightarrow> expr option \<Rightarrow> order_by_expr list \<Rightarrow> query" where
  "plain_query relation items selection order =
     \<lparr>q_body = SelectBody (plain_body relation items selection), q_order_by = order, q_limit = None, q_offset = None\<rparr>"

lemma plain_body_simps [simp]:
  "sel_distinct (plain_body relation items selection) = False"
  "sel_projection (plain_body relation items selection) = items"
  "sel_from (plain_body relation items selection) = [\<lparr>tj_relation = relation, tj_joins = []\<rparr>]"
  "sel_selection (plain_body relation items selection) = selection"
  "sel_group_by (plain_body relation items selection) = GroupByExprs []"
  by (simp_all add: plain_body_def)

lemma execute_plain:
  assumes "resolve_from E s db relation = (t, None)"
  shows "execute_select E (Suc m) s db (plain_query relation items selection order) ps =
     obind (rows_for_simple_where E s db t selection ps) (\<lambda>rows.
       obind (filter_where E s db ps selection rows) (\<lambda>rows.
         obind (if order \<noteq> [] then apply_order_by E rows order else Done rows) (\<lambda>rows.
           obind (apply_projection E rows items ps) (\<lambda>out.
             Done (finish_rows E (plain_body relation items selection) (get_schema s db t) out)))))"
  using assms
  by (simp add: plain_query_def shape_rows_def apply_group_by_def is_grouped_def obind_assoc cong: if_cong)

text \<open>C10. SELECT from one table (not a view; not grouped, not DISTINCT, no LIMIT; any ORDER BY and list),
  if it answers, projects exactly the rows of the table that pass the WHERE clause, each once,
  whichever access path is taken, when the indexes cover the table and, where one is used, the other
  side is constant, compares exactly with the indexed values, and every row has the column. The row
  id stays internal.\<close>

theorem select_returns_matching:
  assumes "iter_ok E" and t: "resolve_from E s db relation = (t, None)"
    and store: "get_table_store s db t = Some ref" and wf: "wf_alist (k_heap s ref)"
    and cov: "indexes_cover D db t (row_at s db t) s"
    and safe: "\<And>e. selection = Some e \<Longrightarrow> index_safe E D s db t ps e"
    and run: "execute_select E n s db (plain_query relation items selection order) ps = Done res"
  shows "\<exists>rows out. distinct rows \<and> set rows = matching_set E s db t ps selection \<and>
    apply_projection E rows items ps = Done out \<and> qr_rows res = map (AList.delete ''_rowid_'') out"
proof -
  obtain m where n: "n = Suc m" using run by (cases n) auto
  note run = run [unfolded n execute_plain [OF t]]
  obtain fetched where f: "rows_for_simple_where E s db t selection ps = Done fetched"
    using run unfolding obind_Done_iff by blast
  note run = run [unfolded f obind.simps]
  obtain ys where ys: "filter_where E s db ps selection fetched = Done ys"
    using run unfolding obind_Done_iff by blast
  note run = run [unfolded ys obind.simps]
  obtain rows out where rows: "(if order \<noteq> [] then apply_order_by E ys order else Done ys) = Done rows"
    and out: "apply_projection E rows items ps = Done out"
    and res: "Done (finish_rows E (plain_body relation items selection) (get_schema s db t) out) = Done res"
    using run unfolding obind_Done_iff by blast
  have m: "mset rows = mset ys" using rows order_passes_mset by (auto simp: apply_order_by_def split: if_splits)
  have "distinct rows = distinct ys" by (rule mset_eq_imp_distinct_iff [OF m])
  moreover have "set rows = set ys" by (rule mset_eq_setD [OF m])
  moreover have "qr_rows res = map (AList.delete ''_rowid_'') out"
    using res by (auto simp: finish_rows_def qr_of_rows_def Let_def)
  ultimately show ?thesis
    using fetch_matching [OF assms(1) store wf cov safe f] filter_where_matches [OF ys] out by metis
qed


section \<open>A concrete query\<close>

text \<open>\<open>SELECT * FROM t WHERE 4 <= a ORDER BY a DESC\<close>, through an index on \<open>a\<close>.\<close>

definition from_four :: expr where
  "from_four = BinaryOp (num ''4'') BLtEq col_a"

definition four_query :: query where
  "four_query = plain_query (TableFactor [nm ''t''] None) [Wildcard] (Some from_four) [\<lparr>ob_expr = col_a, ob_asc = Some False\<rparr>]"

theorem select_returns_matching_witness:
  "case execute_select plain_env 1 (indexed_state 4 three_rows) 0 four_query [] of
     Done res \<Rightarrow> qr_rows res = [[(''a'', VInteger 9)], [(''a'', VInteger 4)]] \<and>
       (\<exists>rows out. distinct rows \<and> set rows = matching_set plain_env (indexed_state 4 three_rows) 0 ''t'' [] (Some from_four) \<and>
         apply_projection plain_env rows [Wildcard] [] = Done out \<and> qr_rows res = map (AList.delete ''_rowid_'') out)
   | _ \<Rightarrow> False"
proof -
  let ?s = "indexed_state 4 three_rows" and ?D = "\<lambda>_ :: index_def. {VInteger 1, VInteger 4, VInteger 9}"
  have "case execute_select plain_env 1 ?s 0 four_query [] of
      Done res \<Rightarrow> qr_rows res = [[(''a'', VInteger 9)], [(''a'', VInteger 4)]] | _ \<Rightarrow> False"
    by code_simp
  then obtain res where res: "execute_select plain_env 1 ?s 0 four_query [] = Done res"
    "qr_rows res = [[(''a'', VInteger 9)], [(''a'', VInteger 4)]]"
    by (cases "execute_select plain_env 1 ?s 0 four_query []") auto
  have at: "row_at ?s 0 ''t'' = map_of three_rows" by (simp add: row_at_def store_get_def fun_eq_iff)
  have eq: "simple_equality plain_env [] from_four = Done None" by code_simp
  have rg: "simple_range plain_env [] from_four = Done (Some (''a'', Included (VInteger 4), Unbounded))" by code_simp
  have "constant_sides from_four" by code_simp
  then have safe: "index_safe plain_env ?D ?s 0 ''t'' [] from_four"
    using three_rows_ok(2) by (auto simp: index_safe_def eq rg at ix_a_found comparable_set_def)
  have "\<exists>rows out. distinct rows \<and> set rows = matching_set plain_env ?s 0 ''t'' [] (Some from_four) \<and>
      apply_projection plain_env rows [Wildcard] [] = Done out \<and> qr_rows res = map (AList.delete ''_rowid_'') out"
  proof (rule select_returns_matching [OF plain_env_ok])
    show "execute_select plain_env 1 ?s 0 (plain_query (TableFactor [nm ''t''] None) [Wildcard] (Some from_four)
        [\<lparr>ob_expr = col_a, ob_asc = Some False\<rparr>]) [] = Done res"
      using res(1) by (simp add: four_query_def)
    show "indexes_cover ?D 0 ''t'' (row_at ?s 0 ''t'') ?s"
      unfolding at using three_rows_covered by (simp add: indexes_cover_def demo_schema_def ix_a_def)
    show "index_safe plain_env ?D ?s 0 ''t'' [] e" if "Some from_four = Some e" for e
      using safe that by simp
  qed (use three_rows_ok in \<open>simp_all add: resolve_from_def table_factor_names_def\<close>)
  then show ?thesis unfolding res(1) using res(2) by simp
qed

end
