(* ===== verification/Skvs_Distinct.thy ===== *)
theory Skvs_Distinct
  imports Skvs_Groups Skvs_Query
begin

text \<open>
  DISTINCT (\<open>distinct_rows\<close>, \<^verbatim>\<open>src/src/sql/select.rs\<close>) compares rows by a concatenation of renderings. No rendering
  of a value but a real is a prefix of another (\<open>value_debug_prefix\<close>), so rows with the same columns are
  told apart. \<open>execute_select_stages\<close> splits a SELECT into its source, its shaping and its finish.
\<close>

section \<open>The key of a row\<close>

text \<open>No rendering is a prefix of another one, so a row is told by the concatenation of its parts.\<close>

lemma value_debug_prefix:
  assumes "exactly_rendered v" "exactly_rendered w" "value_debug v @ x = value_debug w @ y"
  shows "v = w \<and> x = y"
proof (cases v)
  case (VText s)
  then obtain t where t: "w = VText t" using assms by (cases w) auto
  have eq: "concat (map escape_char s) @ CHR 0x22 # CHR '')'' # x = concat (map escape_char t) @ CHR 0x22 # CHR '')'' # y"
    using assms(3) VText t by (simp add: debug_str_def)
  then have "s = t" by (rule escape_chars_inj)
  then show ?thesis using eq VText t by simp
next
  case (VBlob b)
  then obtain c where c: "w = VBlob c" using assms by (cases w) auto
  let ?j = "\<lambda>b. join '', '' (map (\<lambda>w. show_uint (uint w)) (b :: bytes))"
  have free: "CHR '']'' \<notin> set (?j b)" for b
  proof (rule join_no)
    have "\<not> is_digit (CHR '']'')" by (simp add: is_digit_def char_val_def)
    then show "\<forall>x\<in>set (map (\<lambda>w. show_uint (uint w)) b). CHR '']'' \<notin> set x" using blob_digits by blast
  qed simp
  have "?j b @ CHR '']'' # CHR '')'' # x = ?j c @ CHR '']'' # CHR '')'' # y" using assms(3) VBlob c by simp
  then have "?j b = ?j c \<and> CHR '')'' # x = CHR '')'' # y" by (rule append_Cons_eq_split [OF _ free free])
  then show ?thesis using VBlob c blob_inj by auto
next
  case (VInteger i)
  then obtain j where j: "w = VInteger j" using assms by (cases w) auto
  have free: "CHR '')'' \<notin> set (show_int k)" for k
    using digits_no [of k "CHR '')''"] digits_no [of "- k" "CHR '')''"] by (auto simp: show_int_def is_digit_def char_val_def)
  have "show_int (sint i) @ CHR '')'' # x = show_int (sint j) @ CHR '')'' # y" using assms(3) VInteger j by simp
  then have "show_int (sint i) = show_int (sint j) \<and> x = y" by (rule append_Cons_eq_split [OF _ free free])
  then show ?thesis using VInteger j show_int_inj by simp
qed (use assms in \<open>cases w; simp\<close>)+

definition exact_row :: "row \<Rightarrow> bool" where
  "exact_row r \<longleftrightarrow> (\<forall>v\<in>snd ` set r. exactly_rendered v)"

lemma row_key_inj:
  "map fst r = map fst r' \<Longrightarrow> exact_row r \<Longrightarrow> exact_row r' \<Longrightarrow> row_key r = row_key r' \<Longrightarrow> r = r'"
proof (induction r arbitrary: r')
  case (Cons kv r)
  obtain k v where kv: "kv = (k, v)" by force
  obtain w s where r': "r' = (k, w) # s" using Cons.prems(1) by (cases r') (auto simp: kv)
  have "value_debug v @ row_key r = value_debug w @ row_key s"
    using Cons.prems(4) by (simp add: row_key_def kv r')
  then have "v = w \<and> row_key r = row_key s"
    using Cons.prems(2,3) by (intro value_debug_prefix) (simp_all add: exact_row_def kv r')
  then show ?case using Cons.IH [of s] Cons.prems(1-3) by (simp add: exact_row_def kv r')
qed simp

section \<open>Keeping the first of each\<close>

lemma retain_first_snoc:
  "retain_first key seen (xs @ [x]) =
     retain_first key seen xs @ (if key x \<in> set seen \<union> key ` set xs then [] else [x])"
  by (induction key seen xs rule: retain_first.induct) auto

lemma retain_first_firsts: "inj_on key (set xs) \<Longrightarrow> retain_first key [] xs = firsts xs"
  by (induction xs rule: rev_induct) (auto simp: retain_first_snoc inj_on_def)

section \<open>The columns of a SELECT list\<close>

text \<open>A SELECT list of named expressions, none of them named like the internal row id.\<close>

definition item_name :: "('x) env_scheme \<Rightarrow> select_item \<Rightarrow> string option" where
  "item_name E item =
     (case item of
        UnnamedExpr e \<Rightarrow> Some (column_name E e)
      | ExprWithAlias e alias \<Rightarrow> Some (ident_to_string E alias)
      | _ \<Rightarrow> None)"

definition named_items :: "('x) env_scheme \<Rightarrow> select_item list \<Rightarrow> bool" where
  "named_items E items \<longleftrightarrow>
     items \<noteq> [] \<and> (\<forall>item\<in>set items. item_name E item \<noteq> None \<and> item_name E item \<noteq> Some ''_rowid_'')"

definition add_name :: "string \<Rightarrow> string list \<Rightarrow> string list" where
  "add_name k ks = (if k \<in> set ks then ks else ks @ [k])"

lemma map_fst_update: "map fst (AList.update k v al) = add_name k (map fst al)"
  by (induction al) (auto simp: add_name_def)

lemma project_row_keys:
  assumes "project_row E ps r items out = Done row" "\<forall>item\<in>set items. item_name E item \<noteq> None"
  shows "map fst row = fold add_name (map (\<lambda>i. the (item_name E i)) items) (map fst out)"
  using assms
proof (induction items arbitrary: out)
  case (Cons item items)
  obtain out' where o: "project_item E ps r item out = Done out'" "project_row E ps r items out' = Done row"
    using Cons.prems(1) by (auto simp: outcome_simps)
  have "map fst out' = add_name (the (item_name E item)) (map fst out)"
    using o(1) Cons.prems(2)
    by (auto simp: project_item_def item_name_def map_fst_update outcome_simps split: select_item.splits)
  then show ?case using Cons.IH [OF o(2)] Cons.prems(2) by simp
qed simp

lemma add_names_set: "set (fold add_name ks ls) = set ks \<union> set ls"
  by (induction ks arbitrary: ls) (auto simp: add_name_def)


lemma omap_set: "omap f xs = Done ys \<Longrightarrow> y \<in> set ys \<Longrightarrow> \<exists>x\<in>set xs. f x = Done y"
  by (induction xs arbitrary: ys) (auto simp: outcome_simps)

lemma projected_keys:
  assumes "apply_projection E rows items ps = Done out" "named_items E items" "r \<in> set out"
  shows "map fst r = fold add_name (map (\<lambda>i. the (item_name E i)) items) [] \<and> ''_rowid_'' \<notin> fst ` set r"
proof -
  have "\<not> list_all (\<lambda>item. item = Wildcard) items"
    using assms(2) by (cases items) (auto simp: named_items_def item_name_def)
  then have "omap (\<lambda>r. project_row E ps r items []) rows = Done out" using assms(1) by (simp add: apply_projection_def)
  then obtain src where "project_row E ps src items [] = Done r" using omap_set [OF _ assms(3)] by blast
  then have keys: "map fst r = fold add_name (map (\<lambda>i. the (item_name E i)) items) []"
    using project_row_keys [of E ps src items "[]" r] assms(2) by (simp add: named_items_def)
  have "''_rowid_'' \<notin> (\<lambda>i. the (item_name E i)) ` set items"
  proof
    assume "''_rowid_'' \<in> (\<lambda>i. the (item_name E i)) ` set items"
    then obtain i where i: "''_rowid_'' = the (item_name E i)" "i \<in> set items" by (rule imageE)
    then have "item_name E i = Some ''_rowid_''" using assms(2) by (cases "item_name E i") (auto simp: named_items_def)
    then show False using assms(2) i(2) by (simp add: named_items_def)
  qed
  moreover have "fst ` set r = (\<lambda>i. the (item_name E i)) ` set items"
    using arg_cong [OF keys, of set] by (simp add: add_names_set)
  ultimately show ?thesis using keys by simp
qed

lemma delete_absent: "k \<notin> fst ` set r \<Longrightarrow> AList.delete k r = r"
  by (induction r) auto

section \<open>The stages of a SELECT\<close>

text \<open>Where the rows come from, with the schema the wildcard columns fall back to.\<close>

definition source_rows ::
  "('x) env_scheme \<Rightarrow> nat \<Rightarrow> kvs \<Rightarrow> u32 \<Rightarrow> table_with_joins list \<Rightarrow> expr option \<Rightarrow> skvs_value list
     \<Rightarrow> (table_schema option \<times> row list) outcome" where
  "source_rows E n s db from selection ps =
     (if tl from = [] \<and> tj_joins (hd from) = [] then
        (let (table, view_query) = resolve_from E s db (tj_relation (hd from)) in
         case view_query of
           Some view_sql \<Rightarrow>
             obind (parse_view E view_sql) (\<lambda>vq. obind (execute_select E n s db vq ps) (\<lambda>inner.
               obind (filter_where E s db ps selection (qr_rows inner)) (\<lambda>rows. Done (None, rows))))
         | None \<Rightarrow>
             obind (rows_for_simple_where E s db table selection ps) (\<lambda>rows.
               obind (filter_where E s db ps selection rows) (\<lambda>rows. Done (get_schema s db table, rows))))
      else obind (execute_joins E s db from ps) (\<lambda>rows.
             obind (filter_where E s db ps selection rows) (\<lambda>rows. Done (None, rows))))"

lemma execute_select_stages:
  "q_body q = SelectBody sel \<Longrightarrow>
   execute_select E (Suc n) s db q ps =
     (if sel_from sel = [] then Done (finish_rows E sel None [])
      else obind (source_rows E n s db (sel_from sel) (sel_selection sel) ps) (\<lambda>(schema, rows).
             obind (shape_rows E ps q sel rows) (\<lambda>rows. Done (finish_rows E sel schema rows))))"
  by (auto simp: source_rows_def obind_assoc Let_def split: list.split option.split prod.split)

definition with_distinct :: "query \<Rightarrow> select_stmt \<Rightarrow> query" where
  "with_distinct q sel = q\<lparr>q_body := SelectBody (sel\<lparr>sel_distinct := True\<rparr>)\<rparr>"

lemma shape_with_distinct:
  "shape_rows E ps (with_distinct q sel) (sel\<lparr>sel_distinct := d\<rparr>) rows = shape_rows E ps q sel rows"
  by (simp add: shape_rows_def with_distinct_def cong: if_cong option.case_cong)


lemma finish_distinct:
  assumes "\<not> sel_distinct sel" "named_items E (sel_projection sel)"
    and keys: "\<And>r. r \<in> set rows \<Longrightarrow> map fst r = ks \<and> ''_rowid_'' \<notin> fst ` set r"
    and exact: "list_all exact_row (qr_rows (finish_rows E sel schema rows))"
  shows "finish_rows E (sel\<lparr>sel_distinct := True\<rparr>) schema rows =
    (finish_rows E sel schema rows)\<lparr>qr_rows := firsts (qr_rows (finish_rows E sel schema rows))\<rparr>"
proof -
  have id: "map (AList.delete ''_rowid_'') rs = rs" if "set rs \<subseteq> set rows" for rs
  proof (rule map_idI)
    fix r assume "r \<in> set rs"
    then have "r \<in> set rows" using that by auto
    then show "AList.delete ''_rowid_'' r = r" using keys by (intro delete_absent) simp
  qed
  have wild: "\<not> has_wildcard (sel_projection sel)"
    using assms(2) by (auto simp: named_items_def has_wildcard_def item_name_def list_ex_iff)
  have rows: "qr_rows (finish_rows E sel schema rows) = rows"
    by (simp add: finish_rows_def qr_of_rows_def assms(1) id Let_def)
  have "inj_on row_key (set rows)"
  proof (rule inj_onI)
    fix r r' assume r: "r \<in> set rows" "r' \<in> set rows" "row_key r = row_key r'"
    have "exact_row r" "exact_row r'" using exact r(1,2) by (simp_all add: rows list_all_iff)
    then show "r = r'" using keys [OF r(1)] keys [OF r(2)] r(3) by (intro row_key_inj) simp_all
  qed
  then have "distinct_rows rows = firsts rows" by (simp add: distinct_rows_def retain_first_firsts)
  then show ?thesis
    by (simp add: rows) (simp add: finish_rows_def qr_of_rows_def assms(1) id wild Let_def)
qed

text \<open>C27. SELECT DISTINCT of a list of named expressions, not grouped, returns the rows of the same query
  without DISTINCT, the first of each kept in its place, with the same column names, when that query
  answers and no value in its rows is a real.\<close>

theorem select_distinct_removes_duplicates:
  assumes q: "q_body q = SelectBody sel" "\<not> sel_distinct sel" "\<not> is_grouped (sel_group_by sel)"
    and items: "named_items E (sel_projection sel)"
    and run: "execute_select E n s db q ps = Done res"
    and exact: "list_all exact_row (qr_rows res)"
  shows "execute_select E n s db (with_distinct q sel) ps = Done (res\<lparr>qr_rows := firsts (qr_rows res)\<rparr>)"
proof -
  obtain m where n: "n = Suc m" using run by (cases n) auto
  let ?sel = "sel\<lparr>sel_distinct := True\<rparr>"
  have body: "q_body (with_distinct q sel) = SelectBody ?sel" by (simp add: with_distinct_def)
  note stages = execute_select_stages [OF q(1), of E m s db ps] execute_select_stages [OF body, of E m s db ps]
  note finish = finish_distinct [OF q(2) items]
  show ?thesis
  proof (cases "sel_from sel = []")
    case True
    then have "res = finish_rows E sel None []" using run by (simp add: n stages(1) del: execute_select.simps)
    then have "finish_rows E ?sel None [] = res\<lparr>qr_rows := firsts (qr_rows res)\<rparr>"
      using finish [of "[]" "[]" None] exact by simp
    then show ?thesis using True by (simp add: n stages(2) del: execute_select.simps)
  next
    case False
    obtain schema rows0 where src: "source_rows E m s db (sel_from sel) (sel_selection sel) ps = Done (schema, rows0)"
      and rest: "obind (shape_rows E ps q sel rows0) (\<lambda>rows. Done (finish_rows E sel schema rows)) = Done res"
      using run False unfolding n stages(1) by (auto simp: obind_Done_iff)
    obtain rows where rows: "shape_rows E ps q sel rows0 = Done rows" and res: "finish_rows E sel schema rows = res"
      using rest by (auto simp: obind_Done_iff)
    obtain rows1 where proj: "apply_projection E rows1 (sel_projection sel) ps = Done rows"
      using rows q(3) by (auto simp: shape_rows_def obind_Done_iff Let_def)
    have "finish_rows E ?sel schema rows = res\<lparr>qr_rows := firsts (qr_rows res)\<rparr>"
      using finish [OF projected_keys [OF proj items]] exact res by simp
    then show ?thesis using False src rows by (simp add: n stages(2) shape_with_distinct del: execute_select.simps)
  qed
qed

text \<open>\<open>SELECT [DISTINCT] a FROM t\<close> over 1, NULL, 1.\<close>

definition just_a :: "bool \<Rightarrow> select_stmt" where
  "just_a is_distinct =
     \<lparr>sel_distinct = is_distinct, sel_projection = [UnnamedExpr col_a],
      sel_from = [\<lparr>tj_relation = TableFactor [nm ''t''] None, tj_joins = []\<rparr>], sel_selection = None, sel_group_by = GroupByExprs []\<rparr>"

definition select_a :: "bool \<Rightarrow> query" where
  "select_a is_distinct = \<lparr>q_body = SelectBody (just_a is_distinct), q_order_by = [], q_limit = None, q_offset = None\<rparr>"

theorem select_distinct_removes_duplicates_witness:
  "execute_select plain_env 1 (demo_state False [] 4 int_rows) 0 (select_a True) [] =
     Done (qr_of_rows [[(''a'', VInteger 1)], [(''a'', VNull)]] [''a''])"
proof -
  let ?res = "qr_of_rows [[(''a'', VInteger 1)], [(''a'', VNull)], [(''a'', VInteger 1)]] [''a'']"
  have "select_a True = with_distinct (select_a False) (just_a False)"
    by (simp add: select_a_def with_distinct_def just_a_def)
  moreover have "execute_select plain_env 1 (demo_state False [] 4 int_rows) 0 (select_a False) [] = Done ?res"
    by code_simp
  then have "execute_select plain_env 1 (demo_state False [] 4 int_rows) 0 (with_distinct (select_a False) (just_a False)) [] =
      Done (?res\<lparr>qr_rows := firsts (qr_rows ?res)\<rparr>)"
    by (intro select_distinct_removes_duplicates)
      (simp_all add: select_a_def just_a_def is_grouped_def named_items_def item_name_def column_name_def qr_of_rows_def exact_row_def)
  moreover have "?res\<lparr>qr_rows := firsts (qr_rows ?res)\<rparr> = qr_of_rows [[(''a'', VInteger 1)], [(''a'', VNull)]] [''a'']"
    by (simp add: qr_of_rows_def firsts_def)
  ultimately show ?thesis by simp
qed

end
