(* ===== verification/Skvs_Left_Join.thy ===== *)
theory Skvs_Left_Join
  imports Skvs_Query Skvs_Hash_Join
begin

text \<open>
  LEFT JOIN (\<open>execute_joins\<close>, \<^verbatim>\<open>src/src/sql/select.rs\<close>), by its loop or its hash table: what
  a result row shows of the two tables (\<open>shows_row\<close>), and concrete queries where joins do not do what
  SQL says: shared column names, a second FROM item, USING.
\<close>

section \<open>LEFT JOIN\<close>

text \<open>An output row shows a table's row under the qualified names of its columns.\<close>

definition shows_row :: "string \<Rightarrow> row \<Rightarrow> row \<Rightarrow> bool" where
  "shows_row name r out \<longleftrightarrow> (\<forall>k v. map_of r k = Some v \<longrightarrow> map_of out (qualified_name name k) = Some v)"

lemma shows_own: "wf_alist r \<Longrightarrow> shows_row name r (insert_row_qualified c name r)"
  by (simp add: shows_row_def insert_row_qualified_own)

lemma shows_combine:
  "dotless name1 \<Longrightarrow> dotless name2 \<Longrightarrow> name1 \<noteq> name2 \<Longrightarrow> shows_row name1 r row1 \<Longrightarrow> shows_row name1 r (combine name2 row1 r2)"
  by (simp add: shows_row_def combine_def insert_row_qualified_other)

lemma null_pad_lookup:
  "map_of (null_pad_keys t ks) k = (if k \<in> set ks \<union> qualified_name t ` set ks then Some VNull else None)"
proof -
  have "map_of (fold (\<lambda>k c. entry_or_insert k VNull (AList.update (qualified_name t k) VNull c)) ks c) k =
      (if k \<in> set ks \<union> qualified_name t ` set ks then Some VNull else map_of c k)"
    if "\<forall>v\<in>ran (map_of c). v = VNull" for c
    using that
  proof (induction ks arbitrary: c)
    case (Cons k' ks)
    let ?c = "entry_or_insert k' VNull (AList.update (qualified_name t k') VNull c)"
    have m: "map_of ?c k = (if k = k' \<or> k = qualified_name t k' then Some VNull else map_of c k)" for k
      using Cons.prems by (auto simp: map_of_entry_or_insert ran_def split: option.split)
    then have "\<forall>v\<in>ran (map_of ?c). v = VNull" using Cons.prems by (auto simp: ran_def split: if_splits)
    from Cons.IH [OF this] show ?case by (auto simp: m)
  qed simp
  from this [of "[]"] show ?thesis by (simp add: null_pad_keys_def)
qed

lemma pad_left_lookup:
  "map_of (pad_left row1 pad) k = (case map_of (rev pad) k of Some v \<Rightarrow> Some v | None \<Rightarrow> map_of row1 k)"
  by (induction pad arbitrary: row1) (auto simp: pad_left_def map_add_def split: option.splits)

lemma null_pad_wf: "wf_alist (null_pad_keys t ks)"
proof -
  have "wf_alist (fold (\<lambda>k c. entry_or_insert k VNull (AList.update (qualified_name t k) VNull c)) ks c)" if "wf_alist c" for c
    using that by (induction ks arbitrary: c) simp_all
  then show ?thesis by (simp add: null_pad_keys_def)
qed

lemma map_of_rev_wf: "wf_alist xs \<Longrightarrow> map_of (rev xs) k = map_of xs k"
proof (induction xs)
  case (Cons x xs)
  have "map_of xs (fst x) = None" using Cons.prems by (simp add: map_of_eq_None_iff)
  then show ?case using Cons by (cases x) (auto simp: map_add_def split: option.splits)
qed simp

lemma pad_left_null:
  "map_of (pad_left row1 (null_pad_keys t ks)) k =
     (if k \<in> set ks \<union> qualified_name t ` set ks then Some VNull else map_of row1 k)"
proof -
  have "map_of (rev (null_pad_keys t ks)) k = map_of (null_pad_keys t ks) k" by (rule map_of_rev_wf [OF null_pad_wf])
  then show ?thesis by (simp add: pad_left_lookup null_pad_lookup)
qed

text \<open>A run of a loop, block by block.\<close>

lemma concat_outcome_blocks:
  assumes "concat_outcome F xs = Done out"
    and "\<And>x y. x \<in> set xs \<Longrightarrow> F x = Done y \<Longrightarrow> y \<noteq> [] \<and> set y \<subseteq> B x"
  shows "(\<forall>o'\<in>set out. \<exists>x\<in>set xs. o' \<in> B x) \<and> (\<forall>x\<in>set xs. \<exists>o'\<in>set out. o' \<in> B x)"
proof -
  have "set out \<subseteq> \<Union> (B ` set xs) \<and> (\<forall>x\<in>set xs. set out \<inter> B x \<noteq> {})"
    using assms
  proof (induction xs arbitrary: out)
    case (Cons x xs)
    obtain y out' where y: "F x = Done y" "concat_outcome F xs = Done out'" "out = y @ out'"
      using Cons.prems(1) by (auto simp: concat_outcome_def outcome_simps)
    have "y \<noteq> [] \<and> set y \<subseteq> B x" using Cons.prems(2) [of x y] y(1) by simp
    moreover have "set out' \<subseteq> \<Union> (B ` set xs) \<and> (\<forall>x\<in>set xs. set out' \<inter> B x \<noteq> {})"
      by (rule Cons.IH [OF y(2)]) (rule Cons.prems(2); simp)
    ultimately show ?case using y(3) by (cases y) auto
  qed (simp add: concat_outcome_def)
  then show ?thesis by blast
qed

text \<open>The rows a left row can become: combined with a row of the right table, or padded.\<close>

definition left_block :: "string \<Rightarrow> row \<Rightarrow> row list \<Rightarrow> row \<Rightarrow> row set" where
  "left_block name2 pad rows2 row1 = insert (pad_left row1 pad) (combine name2 row1 ` set rows2)"

lemma left_loop_blocks:
  assumes "left_loop cond name2 pad rows1 rows2 = Done out"
  shows "(\<forall>o'\<in>set out. \<exists>row1\<in>set rows1. o' \<in> left_block name2 pad rows2 row1) \<and>
    (\<forall>row1\<in>set rows1. \<exists>o'\<in>set out. o' \<in> left_block name2 pad rows2 row1)"
  using assms unfolding left_loop_def
proof (rule concat_outcome_blocks)
  fix row1 y
  assume "obind (matching cond (map (combine name2 row1) rows2)) (\<lambda>ms. Done (if ms = [] then [pad_left row1 pad] else ms)) = Done y"
  then obtain ms where ms: "ofilter cond (map (combine name2 row1) rows2) = Done ms" "y = (if ms = [] then [pad_left row1 pad] else ms)"
    by (auto simp: matching_def outcome_simps)
  have "set ms \<subseteq> combine name2 row1 ` set rows2" using ofilter_DoneD [OF ms(1)] by auto
  then show "y \<noteq> [] \<and> set y \<subseteq> left_block name2 pad rows2 row1" by (auto simp: ms(2) left_block_def)
qed

lemma bucket_rows: "hash_by_column rows2 col2 k = Some ms \<Longrightarrow> set ms \<subseteq> set rows2"
  by (auto simp: hash_by_column_bucket Let_def split: if_splits)

lemma left_hash_blocks:
  "(\<forall>o'\<in>set (left_hash name2 q1 col2 pad rows1 rows2). \<exists>row1\<in>set rows1. o' \<in> left_block name2 pad rows2 row1) \<and>
   (\<forall>row1\<in>set rows1. \<exists>o'\<in>set (left_hash name2 q1 col2 pad rows1 rows2). o' \<in> left_block name2 pad rows2 row1)"
proof -
  let ?F = "\<lambda>row1. case hash_probe (hash_by_column rows2 col2) q1 row1 of
      Some ms \<Rightarrow> (if ms = [] then [pad_left row1 pad] else map (combine name2 row1) ms) | None \<Rightarrow> [pad_left row1 pad]"
  have "concat_outcome (\<lambda>row1. Done (?F row1)) rows1 = Done (left_hash name2 q1 col2 pad rows1 rows2)"
    unfolding left_hash_def Let_def by (rule concat_outcome_Done) simp
  then show ?thesis
  proof (rule concat_outcome_blocks)
    fix row1 y assume "Done (?F row1) = Done y"
    then have y: "y = ?F row1" by simp
    have "set ms \<subseteq> set rows2" if "hash_probe (hash_by_column rows2 col2) q1 row1 = Some ms" for ms
      using that bucket_rows by (auto simp: hash_probe_def split: option.splits)
    then show "y \<noteq> [] \<and> set y \<subseteq> left_block name2 pad rows2 row1"
      by (auto simp: y left_block_def split: option.splits)
  qed
qed


text \<open>LEFT JOIN of two tables.\<close>

definition left_join :: "table_factor \<Rightarrow> table_factor \<Rightarrow> join_constraint \<Rightarrow> table_with_joins list" where
  "left_join rel1 rel2 c =
     [\<lparr>tj_relation = rel1, tj_joins = [\<lparr>j_relation = rel2, j_operator = LeftOuter c\<rparr>]\<rparr>]"

text \<open>C7. A LEFT JOIN of two tables that answers (different names, none with a dot, nor the right table's
  columns): every row of the left table is shown by a result row under its qualified column names,
  and every result row shows a left row, with a row of the right table or with NULL in all columns of
  the right table.\<close>

theorem left_join_keeps_left_rows:
  assumes "iter_ok E"
    and rel: "table_factor_names E rel1 = (table1, alias1)" "table_factor_names E rel2 = (table2, alias2)"
    and names: "table_ref_name table1 alias1 = name1" "table_ref_name table2 alias2 = name2"
      "dotless name1" "dotless name2" "name1 \<noteq> name2"
    and stores: "get_table_store s db table1 = Some ref1" "get_table_store s db table2 = Some ref2"
    and schema: "get_schema s db table2 = Some schema2" "\<forall>col\<in>fst ` set (ts_columns schema2). dotless col"
    and wf: "\<forall>r\<in>snd ` set (k_heap s ref1) \<union> snd ` set (k_heap s ref2). wf_alist r"
    and run: "execute_joins E s db (left_join rel1 rel2 c) ps = Done out"
  shows "(\<forall>r1\<in>snd ` set (k_heap s ref1). \<exists>o'\<in>set out. shows_row name1 r1 o') \<and>
    (\<forall>o'\<in>set out. \<exists>r1\<in>snd ` set (k_heap s ref1). shows_row name1 r1 o' \<and>
      ((\<exists>r2\<in>snd ` set (k_heap s ref2). shows_row name2 r2 o') \<or>
       (\<forall>col\<in>fst ` set (ts_columns schema2). map_of o' (qualified_name name2 col) = Some VNull)))"
proof -
  let ?cols = "map fst (ts_columns schema2)" and ?rows2 = "map snd (iter_rows E (k_heap s ref2))"
  let ?rows1 = "map (\<lambda>e. insert_row_qualified [] name1 (snd e)) (iter_rows E (k_heap s ref1))"
  let ?pad = "null_pad_keys name2 ?cols"
  have rows2: "set ?rows2 = snd ` set (k_heap s ref2)" using assms(1) by simp
  have rows1: "set ?rows1 = insert_row_qualified [] name1 ` snd ` set (k_heap s ref1)"
    using assms(1) by (simp add: image_comp comp_def)
  have "left_loop (join_condition_matches E s db ps c) name2 ?pad ?rows1 ?rows2 = Done out \<or>
      (\<exists>q1 col2. out = left_hash name2 q1 col2 ?pad ?rows1 ?rows2)"
    using run by (auto simp: execute_joins_def left_join_def rel names stores schema(1) join_step_def null_padded_def
        equi_of_def Let_def outcome_simps split: option.splits)
  then have blocks: "\<And>o'. o' \<in> set out \<Longrightarrow> \<exists>row1\<in>set ?rows1. o' \<in> left_block name2 ?pad ?rows2 row1"
    "\<And>row1. row1 \<in> set ?rows1 \<Longrightarrow> \<exists>o'\<in>set out. o' \<in> left_block name2 ?pad ?rows2 row1"
    using left_loop_blocks [of "join_condition_matches E s db ps c" name2 ?pad ?rows1 ?rows2 out]
      left_hash_blocks [of name2 _ _ ?pad ?rows1 ?rows2] by blast+
  have block: "shows_row name1 r1 o' \<and> ((\<exists>r2\<in>snd ` set (k_heap s ref2). shows_row name2 r2 o') \<or>
        (\<forall>col\<in>fst ` set (ts_columns schema2). map_of o' (qualified_name name2 col) = Some VNull))"
    if r1: "r1 \<in> snd ` set (k_heap s ref1)" and o': "o' \<in> left_block name2 ?pad ?rows2 (insert_row_qualified [] name1 r1)" for r1 o'
  proof -
    let ?row1 = "insert_row_qualified [] name1 r1"
    have own: "shows_row name1 r1 ?row1" using wf r1 by (intro shows_own) simp
    show ?thesis
    proof (cases "o' = pad_left ?row1 ?pad")
      case True
      have "qualified_name name1 k \<notin> set ?cols \<union> qualified_name name2 ` set ?cols" for k
        using schema(2) names(3-5) by (auto simp: qualified_name_inj) (auto simp: dotless_def qualified_name_def)
      then have "shows_row name1 r1 o'" using own by (simp add: shows_row_def True pad_left_null)
      moreover have "\<forall>col\<in>fst ` set (ts_columns schema2). map_of o' (qualified_name name2 col) = Some VNull"
        by (simp add: True pad_left_null)
      ultimately show ?thesis by blast
    next
      case False
      then obtain r2 where r2: "r2 \<in> snd ` set (k_heap s ref2)" "o' = combine name2 ?row1 r2"
        using o' rows2 by (auto simp: left_block_def)
      have "shows_row name2 r2 o'" using wf r2 by (simp add: combine_def shows_own)
      then show ?thesis using r2 shows_combine [OF names(3-5) own] by blast
    qed
  qed
  show ?thesis
  proof (intro conjI ballI)
    fix r1 assume r1: "r1 \<in> snd ` set (k_heap s ref1)"
    then have "insert_row_qualified [] name1 r1 \<in> set ?rows1" unfolding rows1 by simp
    from blocks(2) [OF this] block [OF r1] show "\<exists>o'\<in>set out. shows_row name1 r1 o'" by blast
  next
    fix o' assume "o' \<in> set out"
    then obtain row1 where row1: "row1 \<in> set ?rows1" "o' \<in> left_block name2 ?pad ?rows2 row1" using blocks(1) by blast
    then obtain r1 where "r1 \<in> snd ` set (k_heap s ref1)" "row1 = insert_row_qualified [] name1 r1" unfolding rows1 by blast
    with row1(2) block show "\<exists>r1\<in>snd ` set (k_heap s ref1). shows_row name1 r1 o' \<and>
      ((\<exists>r2\<in>snd ` set (k_heap s ref2). shows_row name2 r2 o') \<or>
       (\<forall>col\<in>fst ` set (ts_columns schema2). map_of o' (qualified_name name2 col) = Some VNull))" by blast
  qed
qed

section \<open>Concrete joins\<close>

definition pair_rows :: rows where
  "pair_rows = [(1, [(''a'', VInteger 1)]), (2, [(''a'', VInteger 9)])]"

abbreviation pair_state :: kvs where
  "pair_state \<equiv> demo_state False [] 3 pair_rows"

abbreviation col_of :: "string \<Rightarrow> expr" where
  "col_of t \<equiv> CompoundIdentifier [nm t, nm ''a'']"

abbreviation t_as :: "string option \<Rightarrow> table_factor" where
  "t_as alias \<equiv> TableFactor [nm ''t''] (map_option nm alias)"

definition above_u :: join_constraint where
  "above_u = On (BinaryOp (col_of ''u'') BGt (col_of ''t''))"

text \<open>\<open>FROM t LEFT JOIN t AS u ON u.a > t.a\<close>: 1 finds 9, and 9 finds nothing.\<close>

theorem left_join_keeps_left_rows_witness:
  "\<exists>out. execute_joins plain_env pair_state 0 (left_join (t_as None) (t_as (Some ''u'')) above_u) [] = Done out \<and>
     (\<exists>o'\<in>set out. shows_row ''t'' [(''a'', VInteger 9)] o')"
proof -
  have "is_done (execute_joins plain_env pair_state 0 (left_join (t_as None) (t_as (Some ''u'')) above_u) [])"
    by code_simp
  then obtain out where out: "execute_joins plain_env pair_state 0 (left_join (t_as None) (t_as (Some ''u'')) above_u) [] = Done out"
    by (auto simp: is_done_iff)
  have "(\<forall>r1\<in>snd ` set (k_heap pair_state 0). \<exists>o'\<in>set out. shows_row ''t'' r1 o') \<and>
    (\<forall>o'\<in>set out. \<exists>r1\<in>snd ` set (k_heap pair_state 0). shows_row ''t'' r1 o' \<and>
      ((\<exists>r2\<in>snd ` set (k_heap pair_state 0). shows_row ''u'' r2 o') \<or>
       (\<forall>col\<in>fst ` set (ts_columns (demo_schema ''t'' False [])). map_of o' (qualified_name ''u'' col) = Some VNull)))"
    by (rule left_join_keeps_left_rows [OF plain_env_ok _ _ _ _ _ _ _ _ _ _ _ _ out,
        where ?alias1.0 = None and ?alias2.0 = "Some ''u''" and ?table1.0 = "''t''" and ?table2.0 = "''t''"])
      (simp_all add: table_factor_names_def table_ref_name_def dotless_def demo_schema_def pair_rows_def)
  then show ?thesis using out by (auto simp: pair_rows_def)
qed

definition select_from :: "table_with_joins list \<Rightarrow> select_item list \<Rightarrow> expr option \<Rightarrow> query" where
  "select_from from items limit =
     \<lparr>q_body = SelectBody \<lparr>sel_distinct = False, sel_projection = items, sel_from = from,
        sel_selection = None, sel_group_by = GroupByExprs []\<rparr>,
      q_order_by = [], q_limit = limit, q_offset = None\<rparr>"

text \<open>The padding of a LEFT JOIN is also written under the bare column names, over the values of the left
  row: in \<open>SELECT t.a AS x, a AS y\<close> over the join above the row 9 shows NULL as its own \<open>a\<close>.\<close>

theorem left_join_erases_shared_column:
  "select_rows pair_state (select_from (left_join (t_as None) (t_as (Some ''u'')) above_u)
      [ExprWithAlias (col_of ''t'') (nm ''x''), ExprWithAlias col_a (nm ''y'')] None) [] =
   Done [[(''x'', VInteger 1), (''y'', VInteger 1)], [(''x'', VInteger 9), (''y'', VNull)]]"
  by code_simp

text \<open>\<open>FROM t, t AS u\<close> reads the first table only: two rows, where the product has four.\<close>

theorem comma_join_reads_one_table:
  "select_rows pair_state (select_from [\<lparr>tj_relation = t_as None, tj_joins = []\<rparr>, \<lparr>tj_relation = t_as (Some ''u''), tj_joins = []\<rparr>]
      [UnnamedExpr (col_of ''t'')] None) [] =
   Done [[(''a'', VInteger 1)], [(''a'', VInteger 9)]]"
  by code_simp

text \<open>\<open>t JOIN t AS u USING (a)\<close> only looks whether the column is there: four rows, where two have equal values.\<close>

theorem using_is_a_product:
  "select_rows pair_state (select_from [\<lparr>tj_relation = t_as None,
        tj_joins = [\<lparr>j_relation = t_as (Some ''u''), j_operator = Inner (Using [nm ''a''])\<rparr>]\<rparr>]
      [ExprWithAlias (col_of ''t'') (nm ''x''), ExprWithAlias (col_of ''u'') (nm ''y'')] None) [] =
   Done [[(''x'', VInteger 1), (''y'', VInteger 1)], [(''x'', VInteger 1), (''y'', VInteger 9)],
         [(''x'', VInteger 9), (''y'', VInteger 1)], [(''x'', VInteger 9), (''y'', VInteger 9)]]"
  by code_simp

text \<open>\<open>LIMIT ?\<close> with the parameter 1 is no limit, and a SELECT without FROM has no rows.\<close>

theorem limit_parameter_ignored:
  "select_rows pair_state (select_from [\<lparr>tj_relation = t_as None, tj_joins = []\<rparr>] [UnnamedExpr col_a] (Some mark)) [VInteger 1] =
     Done [[(''a'', VInteger 1)], [(''a'', VInteger 9)]] \<and>
   select_rows pair_state (select_from [] [UnnamedExpr (num ''1'')] None) [] = Done []"
  by code_simp

end
