(* ===== verification/Skvs_Undo.thy ===== *)
theory Skvs_Undo
  imports Skvs_Keys
begin

text \<open>
  Rollback and the indexes. Undoing a journalled change is the inverse change, written outside any transaction
  (\<open>undo_is_write\<close>), and a handler journals exactly the changes it makes (\<open>row_changes_journal\<close>). So the
  replay of \<^verbatim>\<open>TransactionManager::rollback\<close> (\<^verbatim>\<open>src/src/transaction.rs\<close>) leads the indexes and
  documents back through the states they came by.
\<close>

section \<open>Taking a change back\<close>

fun inverse_change :: "row_change \<Rightarrow> row_change" where
  "inverse_change (Inserted rid r) = Deleted rid r"
| "inverse_change (Updated rid old_row r) = Updated rid r old_row"
| "inverse_change (Deleted rid r) = Inserted rid r"

fun undo_of :: "string \<Rightarrow> row_change \<Rightarrow> undo_op" where
  "undo_of t (Inserted rid r) = UndoInsert t rid"
| "undo_of t (Updated rid old_row r) = UndoUpdate t rid old_row"
| "undo_of t (Deleted rid r) = UndoDelete t rid r"

lemma inverse_true: "change_true R c \<Longrightarrow> change_true (change_rows c R) (inverse_change c)"
  by (cases c) auto

lemma inverse_rows: "change_true R c \<Longrightarrow> change_rows (inverse_change c) (change_rows c R) = R"
  by (cases c) (auto simp: fun_eq_iff)

lemma inverse_row: "change_true R c \<Longrightarrow> change_row (inverse_change c) = R (change_id c)"
  by (cases c) auto

text \<open>Undoing a change is the inverse change, written outside any transaction.\<close>

lemma undo_is_write:
  assumes "quiet_table s db t schema ref" "change_true (row_at s db t) (inverse_change c)"
  shows "undo_one db (undo_of t c) s = write_change db t ref None (inverse_change c) s"
proof -
  have "get_table_store s db t = Some ref" "store_get s ref rid = row_at s db t rid" for rid
    using assms(1) by (simp_all add: quiet_table_def row_at_def)
  then show ?thesis
    using assms(2)
    by (cases c) (auto simp: write_change.simps write_insert_def write_update_def write_delete_def journal_def Let_def)
qed

text \<open>A state in step with the rows \<open>R\<close> of a table.\<close>

definition table_in_step ::
  "(index_def \<Rightarrow> skvs_value set) \<Rightarrow> u32 \<Rightarrow> string \<Rightarrow> table_schema \<Rightarrow> store_ref \<Rightarrow> (rowid \<Rightarrow> row option) \<Rightarrow> kvs \<Rightarrow> bool" where
  "table_in_step D db t schema ref R s \<longleftrightarrow>
     quiet_table s db t schema ref \<and> row_at s db t = R \<and> indexes_cover D db t R s \<and> fts_in_step db t R s"

lemma table_in_step_write:
  assumes st: "table_in_step D db t schema ref R s" and c: "change_true R c"
    and dom: "\<And>r. change_row c = Some r \<Longrightarrow> row_in_domains D (ts_indices schema) r"
  shows "table_in_step D db t schema ref (change_rows c R) (write_change db t ref tx c s)"
proof -
  have s: "quiet_table s db t schema ref" "row_at s db t = R" "indexes_cover D db t R s" "fts_in_step db t R s"
    using st by (simp_all add: table_in_step_def)
  have "row_at (write_change db t ref tx c s) db t = change_rows c R"
    by (simp add: fun_eq_iff row_at_write_change [OF s(1)] s(2))
  with write_change_covers [OF s(3,1) c dom] write_change_in_step [OF s(4) c] quiet_write_change [OF s(1)]
  show ?thesis by (simp add: table_in_step_def)
qed

text \<open>Only the transaction table differs.\<close>

lemma table_in_step_txns [simp]:
  "table_in_step D db t schema ref R (set_txns tm s) = table_in_step D db t schema ref R s"
proof -
  have "quiet_table (set_txns tm s) db t schema ref = quiet_table s db t schema ref"
    by (rule quiet_table_cong) (simp_all add: set_txns_def cong: heap_wf_cong)
  moreover have "row_at (set_txns tm s) db t = row_at s db t"
    by (intro ext row_at_cong) (simp_all add: set_txns_def)
  moreover have "indexes_cover D db t R (set_txns tm s) = indexes_cover D db t R s"
    by (rule indexes_cover_cong) (simp_all add: set_txns_def)
  moreover have "fts_in_step db t R (set_txns tm s) = fts_in_step db t R s"
    by (rule fts_in_step_cong) (simp add: set_txns_def)
  ultimately show ?thesis by (simp add: table_in_step_def)
qed

fun changes_true :: "(rowid \<Rightarrow> row option) \<Rightarrow> row_change list \<Rightarrow> bool" where
  "changes_true R [] \<longleftrightarrow> True"
| "changes_true R (c # cs) \<longleftrightarrow> change_true R c \<and> changes_true (change_rows c R) cs"

lemma changes_true_snoc: "changes_true R (cs @ [c]) \<longleftrightarrow> changes_true R cs \<and> change_true (fold change_rows cs R) c"
  by (induction cs arbitrary: R) auto

lemma undo_all_snoc: "undo_all db (ops @ [op]) s = undo_all db ops (undo_one db op s)"
  by (simp add: undo_all_def)

text \<open>Undoing a run of changes, each of another row, leads back to rows, indexes and documents.\<close>

lemma undo_changes:
  assumes "changes_true R cs" "distinct (map change_id cs)"
    and "\<And>rid r. R rid = Some r \<Longrightarrow> row_in_domains D (ts_indices schema) r"
    and "table_in_step D db t schema ref (fold change_rows cs R) s"
  shows "table_in_step D db t schema ref R (undo_all db (map (undo_of t) cs) s)"
  using assms(1,2,4)
proof (induction cs arbitrary: s rule: rev_induct)
  case (snoc c cs)
  let ?R = "fold change_rows cs R"
  have c: "change_true ?R c" "changes_true R cs" using snoc.prems(1) by (simp_all add: changes_true_snoc)
  have old: "?R (change_id c) = R (change_id c)" using snoc.prems(2) by (intro fold_changes_other) simp
  have s: "table_in_step D db t schema ref (change_rows c ?R) s" using snoc.prems(3) by simp
  have "table_in_step D db t schema ref (change_rows (inverse_change c) (change_rows c ?R))
      (write_change db t ref None (inverse_change c) s)"
    using assms(3) inverse_row [OF c(1)] old by (intro table_in_step_write [OF s inverse_true [OF c(1)]]) simp
  then have "table_in_step D db t schema ref ?R (undo_one db (undo_of t c) s)"
    using undo_is_write [of s db t schema ref c] s inverse_true [OF c(1)]
    by (simp add: inverse_rows [OF c(1)] table_in_step_def)
  from snoc.IH [OF c(2) _ this] snoc.prems(2) show ?case by (simp add: undo_all_snoc)
qed simp

section \<open>What the journal of a run holds\<close>

lemma row_changes_true:
  "row_changes E db t schema ref tx s cs s' \<Longrightarrow> quiet_table s db t schema ref \<Longrightarrow> changes_true (row_at s db t) cs"
proof (induction rule: row_changes.induct)
  case (changes_write cs s1 c)
  have "row_at s1 db t = fold change_rows cs (row_at s db t)"
    using row_changes_rows [OF changes_write.hyps(1) changes_write.prems] by (simp add: fun_eq_iff)
  then show ?case
    using changes_write change_fits_true [OF changes_write.hyps(2)] by (simp add: changes_true_snoc)
qed simp_all

lemma journal_txns:
  "tx_journal (journal (Some i) u s) i = map_option (\<lambda>J. J @ [u]) (tx_journal s i)"
  "tx_db (journal (Some i) u s) i = tx_db s i"
  by (auto simp: tx_journal_def tx_db_def journal_def txn_record_def set_txns_def Let_def split: option.split)

lemma txns_cong: "k_txns s = k_txns s' \<Longrightarrow> tx_journal s i = tx_journal s' i \<and> tx_db s i = tx_db s' i"
  by (simp add: tx_journal_def tx_db_def)

lemma fts_update_txns [simp]: "k_txns (fts_update db t f s) = k_txns s"
  by (simp add: fts_update_def register_fts_table_def split: option.split)

lemma sync_fts_txns [simp]: "k_txns (sync_fts_index db t rid r d s) = k_txns s"
  by (auto simp: sync_fts_index_def split: option.split skvs_value.split)

lemma sync_change_txns [simp]: "k_txns (sync_fts_index_change db t rid r r' s) = k_txns s"
  by (simp add: sync_fts_index_change_def Let_def)

lemma store_txns [simp]: "k_txns (store_insert ref rid r s) = k_txns s" "k_txns (store_remove ref rid s) = k_txns s"
  by (simp_all add: store_insert_def store_remove_def)

lemma write_change_txns:
  "tx_journal (write_change db t ref (Some i) c s) i = map_option (\<lambda>J. J @ [undo_of t c]) (tx_journal s i) \<and>
   tx_db (write_change db t ref (Some i) c s) i = tx_db s i"
proof -
  have via: ?thesis
    if "k_txns s1 = k_txns s" "k_txns (write_change db t ref (Some i) c s) = k_txns (journal (Some i) (undo_of t c) s1)" for s1
    using txns_cong [OF that(1), of i] txns_cong [OF that(2), of i] by (simp add: journal_txns)
  show ?thesis
  proof (cases c)
    case (Inserted rid r)
    then show ?thesis by (intro via [of "store_insert ref rid r s"]) (simp_all add: write_change.simps write_insert_def)
  next
    case (Updated rid old_row r)
    then show ?thesis by (intro via [of "store_insert ref rid r s"]) (simp_all add: write_change.simps write_update_def)
  next
    case (Deleted rid r)
    then show ?thesis by (intro via [of "store_remove ref rid s"]) (simp_all add: write_change.simps write_delete_def)
  qed
qed

lemma row_changes_journal:
  "row_changes E db t schema ref (Some i) s cs s' \<Longrightarrow> tx_journal s i = Some [] \<Longrightarrow>
   tx_journal s' i = Some (map (undo_of t) cs) \<and> tx_db s' i = tx_db s i"
proof (induction rule: row_changes.induct)
  case (changes_issue cs s1)
  have "k_txns (set_rowid_gen db t (Suc (rowid_gen s1 db t)) s1) = k_txns s1" by (simp add: set_rowid_gen_def)
  from txns_cong [OF this, of i] changes_issue show ?case by simp
qed (simp_all add: write_change_txns)

text \<open>Where a statement in autocommit does its work: under a fresh transaction.\<close>

definition work_state :: "('x) env_scheme \<Rightarrow> nat \<Rightarrow> u32 \<Rightarrow> statement \<Rightarrow> skvs_value list \<Rightarrow> kvs \<Rightarrow> kvs" where
  "work_state E n db stmt ps s =
     snd (execute_single_statement E n db stmt ps (Some (tm_next_id (k_txns s))) (snd (txn_begin db s)))"

lemma table_in_step_I:
  "quiet_table s db t schema ref \<Longrightarrow> indexes_cover D db t (row_at s db t) s \<Longrightarrow> fts_in_step db t (row_at s db t) s \<Longrightarrow>
   table_in_step D db t schema ref (row_at s db t) s"
  by (simp add: table_in_step_def)

lemma run_keeps_step:
  assumes run: "row_changes E db t schema ref tx s cs s'" "distinct (map change_id cs)"
    and st: "table_in_step D db t schema ref R s"
    and dom: "\<And>rid r. row_at s' db t rid = Some r \<Longrightarrow> row_in_domains D (ts_indices schema) r"
  shows "table_in_step D db t schema ref (fold change_rows cs R) s'" "changes_true R cs"
proof -
  have s: "quiet_table s db t schema ref" "row_at s db t = R" "indexes_cover D db t (row_at s db t) s" "fts_in_step db t (row_at s db t) s"
    using st by (auto simp: table_in_step_def)
  have rows: "row_at s' db t = fold change_rows cs R"
    using row_changes_rows [OF run(1) s(1), of db t] by (simp add: fun_eq_iff s(2))
  show "table_in_step D db t schema ref (fold change_rows cs R) s'"
    using table_in_step_I [OF row_changes_quiet [OF run(1) s(1)] dml_covers [OF run s(1,3) dom] row_changes_in_step [OF run(1) s(1,4)]]
    by (simp add: rows)
  show "changes_true R cs" using row_changes_true [OF run(1) s(1)] by (simp add: s(2))
qed

text \<open>The rows an index covers have values in its domain.\<close>

lemma covered_in_domains:
  "quiet_table s db t schema ref \<Longrightarrow> indexes_cover D db t R s \<Longrightarrow> R rid = Some r \<Longrightarrow> row_in_domains D (ts_indices schema) r"
  by (fastforce simp: quiet_table_def indexes_cover_def index_covers_def row_in_domains_def)

lemma rollback_run:
  assumes "row_changes E db t schema ref (Some i) s cs s'" "distinct (map change_id cs)"
    and st: "table_in_step D db t schema ref R s"
    and dom: "\<And>rid r. row_at s' db t rid = Some r \<Longrightarrow> row_in_domains D (ts_indices schema) r"
    and tx: "tx_journal s i = Some []" "tx_db s i = Some db"
  shows "table_in_step D db t schema ref R (snd (txn_rollback i s'))"
proof -
  obtain entry where e: "tm_active (k_txns s') i = Some entry" "te_journal entry = map (undo_of t) cs" "te_db_id entry = db"
    using row_changes_journal [OF assms(1) tx(1)] tx(2) by (auto simp: tx_journal_def tx_db_def)
  note w = run_keeps_step [OF assms(1,2) st dom]
  have "row_in_domains D (ts_indices schema) r" if "R rid = Some r" for rid r
    using covered_in_domains [of s db t schema ref D R rid r] that st by (simp add: table_in_step_def)
  with undo_changes [OF w(2) assms(2)] w(1) have "table_in_step D db t schema ref R (undo_all db (map (undo_of t) cs) (txn_remove i s'))"
    by (simp add: txn_remove_def)
  then show ?thesis by (simp add: txn_rollback_def e)
qed

text \<open>C14. A row statement in autocommit, on a table without triggers, leaves the secondary indexes of the
  table covering exactly its rows and its full-text index in step with them, whatever its outcome, if
  both were so before and all values in indexed columns compare exactly with each other (no NaN, no
  integer beyond 53 bits beside a real), those included that a failing statement has written in
  between; when it fails the rows are those before it, so the rollback has taken every index entry
  and document out again.\<close>

theorem autocommit_keeps_indexes:
  assumes ok: "iter_ok E" and q: "quiet_table s db t schema ref" "rows_issued s db t"
    and t: "dml_target E stmt = Some t"
    and run: "execute_statement E n db stmt ps None s = (res, s')"
    and b: "rowid_gen s' db t \<le> 2 ^ 64"
    and cov: "indexes_cover D db t (row_at s db t) s" and fts: "fts_in_step db t (row_at s db t) s"
    and dom: "\<And>rid r. row_at (work_state E n db stmt ps s) db t rid = Some r \<Longrightarrow> row_in_domains D (ts_indices schema) r"
  shows "indexes_cover D db t (row_at s' db t) s' \<and> fts_in_step db t (row_at s' db t) s' \<and>
    (\<forall>e. res = Fail e \<longrightarrow> row_at s' db t = row_at s db t)"
proof -
  let ?i = "tm_next_id (k_txns s)" and ?R = "row_at s db t"
  obtain tm where s1: "txn_begin db s = (Done ?i, set_txns tm s)"
    by (simp add: txn_begin_def Let_def)
  note tx = txn_begin_state [OF s1]
  have j: "tx_journal (set_txns tm s) ?i = Some []" "tx_db (set_txns tm s) ?i = Some db"
    by (rule tx; simp)+
  have st: "table_in_step D db t schema ref ?R (set_txns tm s)"
    using table_in_step_I [OF q(1) cov fts] by simp
  then have q1: "quiet_table (set_txns tm s) db t schema ref" by (simp add: table_in_step_def)
  have g1: "rows_issued (set_txns tm s) db t"
    using q(2) row_at_cong [of "set_txns tm s" s] by (simp add: rows_issued_def rowid_gen_def set_txns_def)
  obtain r s2 where r: "execute_single_statement E n db stmt ps (Some ?i) (set_txns tm s) = (r, s2)" by force
  have "is_dml stmt" using t by (cases stmt) auto
  then have "run_atomic db (\<lambda>shadow. execute_single_statement E n db stmt ps (Some shadow)) s = (res, s')"
    using run by (cases stmt) (simp_all add: execute_statement_def)
  then have res: "s' = snd (txn_rollback ?i s2) \<or> (\<forall>e. res \<noteq> Fail e) \<and> (s' = txn_remove ?i s2 \<or> s' = s2)"
    using r by (auto simp: run_atomic_def ebind_def s1 txn_commit_def split: outcome.splits option.splits)
  have w: "work_state E n db stmt ps s = s2" by (simp add: work_state_def s1 r)
  have "k_rowid_gens s' = k_rowid_gens s2"
    using res gens_rollback [of ?i s2] by (auto simp: txn_remove_def set_txns_def)
  then have "rowid_gen s2 db t \<le> 2 ^ 64" using b by (simp add: rowid_gen_def)
  from dml_changes [OF ok q1 g1 t r this]
  obtain cs where cs: "row_changes E db t schema ref (Some ?i) (set_txns tm s) cs s2" "distinct (map change_id cs)" by blast
  note dom2 = dom [unfolded w]
  show ?thesis
  proof (cases "s' = snd (txn_rollback ?i s2)")
    case True
    then have "table_in_step D db t schema ref ?R s'" using rollback_run [OF cs st dom2 j] by simp
    then show ?thesis by (simp add: table_in_step_def)
  next
    case False
    have "table_in_step D db t schema ref (fold change_rows cs ?R) s2" by (rule run_keeps_step [OF cs st dom2])
    then have "table_in_step D db t schema ref (fold change_rows cs ?R) s'"
      using res False by (auto simp: txn_remove_def)
    then show ?thesis using res False by (auto simp: table_in_step_def)
  qed
qed

section \<open>A statement that fails on its second row\<close>

text \<open>The table of \<open>unique_state\<close> with an index on \<open>a\<close>; \<open>two_rows\<close> writes 2 and fails on 1.\<close>

definition unique_indexed :: kvs where
  "unique_indexed = rebuild_index plain_env 0 ''t'' ix_a (demo_state True [ix_a] 2 [(1, [(''a'', VInteger 1)])])"

lemma unique_indexed_simps [simp]:
  "get_table_store unique_indexed db t = (if db = 0 \<and> t = ''t'' then Some 0 else None)"
  "get_schema unique_indexed db t = (if db = 0 \<and> t = ''t'' then Some (demo_schema ''t'' True [ix_a]) else None)"
  "k_heap unique_indexed ref = (if ref = 0 then [(1, [(''a'', VInteger 1)])] else [])"
  "get_triggers unique_indexed db t = []"
  "rowid_gen unique_indexed 0 ''t'' = 2"
  "get_fts_table unique_indexed db t = None"
  "get_index_store unique_indexed 0 ''t'' ''ix'' = [(VInteger 1, [1])]"
  by (code_simp | simp add: unique_indexed_def rebuild_index_def set_index_store_def get_schema_def get_table_store_def
      get_triggers_def get_fts_table_def demo_state_def kvs_empty_def)+

lemma two_rows_indexed:
  "case fst (execute_statement plain_env 1 0 two_rows [] None unique_indexed) of Fail _ \<Rightarrow> True | _ \<Rightarrow> False"
  "k_heap (work_state plain_env 1 0 two_rows [] unique_indexed) 0 = [(1, [(''a'', VInteger 1)]), (2, [(''a'', VInteger 2)])]"
  "get_table_store (work_state plain_env 1 0 two_rows [] unique_indexed) 0 ''t'' = Some 0"
  "get_index_store (work_state plain_env 1 0 two_rows [] unique_indexed) 0 ''t'' ''ix'' = [(VInteger 1, [1]), (VInteger 2, [2])]"
  "rowid_gen (snd (execute_statement plain_env 1 0 two_rows [] None unique_indexed)) 0 ''t'' = 4"
  "get_schema (snd (execute_statement plain_env 1 0 two_rows [] None unique_indexed)) 0 ''t'' = Some (demo_schema ''t'' True [ix_a])"
  by code_simp+

theorem autocommit_keeps_indexes_witness:
  "fts_in_step 0 ''t'' (row_at unique_indexed 0 ''t'') (snd (execute_statement plain_env 1 0 two_rows [] None unique_indexed)) \<and>
   ids_at (get_index_store (snd (execute_statement plain_env 1 0 two_rows [] None unique_indexed)) 0 ''t'' ''ix'')
     (value_key (VInteger 2)) = {}"
proof -
  let ?D = "\<lambda>_ :: index_def. {VInteger 1, VInteger 2}" and ?schema = "demo_schema ''t'' True [ix_a]"
  let ?x = "execute_statement plain_env 1 0 two_rows [] None unique_indexed"
  obtain e where e: "fst ?x = Fail e" using two_rows_indexed(1) by (cases "fst ?x") auto
  have q: "quiet_table unique_indexed 0 ''t'' ?schema 0" "rows_issued unique_indexed 0 ''t''"
    by (auto simp: quiet_table_def stores_distinct_def heap_wf_def rows_issued_def row_at_def store_get_def)
  have at: "row_at unique_indexed 0 ''t'' = [1 \<mapsto> [(''a'', VInteger 1)]]" by (simp add: row_at_def store_get_def fun_eq_iff)
  have "index_covers {VInteger 1, VInteger 2} ix_a (map_of [(1, [(''a'', VInteger 1)])])
      (fold (rebuild_push ix_a) (iter_rows plain_env [(1, [(''a'', VInteger 1)])]) [])"
    by (rule rebuild_covers [OF plain_env_ok]) (auto simp: comparable_set_def index_value_def ix_a_def split: if_splits)
  moreover have "fold (rebuild_push ix_a) (iter_rows plain_env [(1, [(''a'', VInteger 1)])]) [] = [(VInteger 1, [1])]"
    by code_simp
  ultimately have cov: "index_covers {VInteger 1, VInteger 2} ix_a [1 \<mapsto> [(''a'', VInteger 1)]] [(VInteger 1, [1])]" by simp
  have *: "indexes_cover ?D 0 ''t'' (row_at (snd ?x) 0 ''t'') (snd ?x) \<and> fts_in_step 0 ''t'' (row_at (snd ?x) 0 ''t'') (snd ?x) \<and>
      (\<forall>e. fst ?x = Fail e \<longrightarrow> row_at (snd ?x) 0 ''t'' = row_at unique_indexed 0 ''t'')"
  proof (intro autocommit_keeps_indexes [OF plain_env_ok q])
    show "indexes_cover ?D 0 ''t'' (row_at unique_indexed 0 ''t'') unique_indexed"
      unfolding at using cov by (simp add: indexes_cover_def demo_schema_def ix_a_def)
    show "row_in_domains ?D (ts_indices ?schema) r"
      if "row_at (work_state plain_env 1 0 two_rows [] unique_indexed) 0 ''t'' rid = Some r" for rid r
      using that by (auto simp: row_at_def store_get_def two_rows_indexed(2,3) row_in_domains_def
          demo_schema_def index_value_def ix_a_def simp del: One_nat_def split: if_splits)
    show "dml_target plain_env two_rows = Some ''t''" by (simp add: two_rows_def plain_name_t)
  qed (simp_all add: two_rows_indexed(5) fts_in_step_def del: One_nat_def)
  then have "index_covers (?D ix_a) ix_a [1 \<mapsto> [(''a'', VInteger 1)]] (get_index_store (snd ?x) 0 ''t'' ''ix'')"
    using two_rows_indexed(6) e at by (auto simp: indexes_cover_def demo_schema_def ix_a_def)
  then have "ids_at (get_index_store (snd ?x) 0 ''t'' ''ix'') (value_key (VInteger 2)) = {}"
    by (auto simp: index_covers_def index_value_def ix_a_def)
  moreover have "row_at (snd ?x) 0 ''t'' = row_at unique_indexed 0 ''t''" using * e by blast
  ultimately show ?thesis using * by metis
qed

end
