(* ===== verification/Skvs_Alter.thy ===== *)
theory Skvs_Alter
  imports Skvs_Keys
begin

text \<open>
  Schema changes. The rows of a table have a value for each of its columns (\<open>table_complete\<close>): INSERT
  fills in what is missing, ALTER TABLE adds, drops and renames a column in the schema and in every
  row. CREATE INDEX builds an index that covers the rows that are already there. RENAME TO is where
  this fails: the schema keeps the old name, under which the constraints then look for the rows.
\<close>

section \<open>Rows have the columns of their table\<close>

definition row_complete :: "table_schema \<Rightarrow> row \<Rightarrow> bool" where
  "row_complete schema r \<longleftrightarrow> (\<forall>c\<in>fst ` set (ts_columns schema). map_of r c \<noteq> None)"

definition table_complete :: "u32 \<Rightarrow> string \<Rightarrow> kvs \<Rightarrow> bool" where
  "table_complete db t s \<longleftrightarrow>
     (\<forall>schema rid r. get_schema s db t = Some schema \<longrightarrow> row_at s db t rid = Some r \<longrightarrow> row_complete schema r)"

lemma table_completeD:
  "table_complete db t s \<Longrightarrow> get_schema s db t = Some schema \<Longrightarrow> row_at s db t rid = Some r \<Longrightarrow> row_complete schema r"
  by (simp add: table_complete_def)

lemma table_complete_cong:
  "get_schema s' db t = get_schema s db t \<Longrightarrow> row_at s' db t = row_at s db t \<Longrightarrow> table_complete db t s' = table_complete db t s"
  by (simp add: table_complete_def)

text \<open>What the statements write.\<close>

lemma map_of_fold_defaults:
  "map_of (fold (\<lambda>(c, cd) r. entry_or_insert c (f cd) r) cols r) x =
     (case map_of r x of Some v \<Rightarrow> Some v | None \<Rightarrow> map_option f (map_of cols x))"
  by (induction cols arbitrary: r) (auto simp: entry_or_insert_def split: option.splits)

lemma apply_defaults_complete: "row_complete schema (apply_defaults schema rid r)"
  unfolding row_complete_def apply_defaults_def
proof
  fix c assume "c \<in> fst ` set (ts_columns schema)"
  then have "map_of (ts_columns schema) c \<noteq> None" by (simp add: map_of_eq_None_iff)
  then show "map_of (fold (\<lambda>(c, cd) r. entry_or_insert c (default_value cd rid) r) (ts_columns schema) r) c \<noteq> None"
    by (auto simp: map_of_fold_defaults split: option.split)
qed

lemma update_complete: "row_complete schema r \<Longrightarrow> row_complete schema (AList.update c v r)"
  by (simp add: row_complete_def update_conv')

lemma eval_assignments_complete:
  "eval_assignments E old_row ps as i r = Done r' \<Longrightarrow> row_complete schema r \<Longrightarrow> row_complete schema r'"
  by (induction as arbitrary: i r) (auto simp: outcome_simps update_complete split: prod.splits)

lemma inserted_complete: "c \<in> set (inserted schema g rows) \<Longrightarrow> pred_option (row_complete schema) (change_row c)"
  by (induction rows arbitrary: g) (auto simp: apply_defaults_complete)

lemma updated_complete:
  "row_complete schema (snd e) \<Longrightarrow> pred_option (row_complete schema) (change_row (updated E ps assigns e))"
  by (auto simp: updated_def intro: eval_assignments_complete split: outcome.split)

lemma fold_changes_complete:
  "\<forall>c\<in>set cs. pred_option (row_complete schema) (change_row c) \<Longrightarrow>
   \<forall>rid r. R rid = Some r \<longrightarrow> row_complete schema r \<Longrightarrow> fold change_rows cs R rid = Some r \<Longrightarrow> row_complete schema r"
proof (induction cs arbitrary: R)
  case (Cons c cs)
  have "\<forall>rid r. change_rows c R rid = Some r \<longrightarrow> row_complete schema r"
    using Cons.prems(1,2) by (auto simp: change_rows_id)
  then show ?case using Cons.IH [of "change_rows c R"] Cons.prems(1,3) by simp
qed simp

lemma dml_complete:
  assumes ok: "iter_ok E" and q: "quiet_table s db t schema ref" "rows_issued s db t"
    and t: "dml_target E stmt = Some t"
    and run: "execute_single_statement E n db stmt ps tx s = (res, s')"
    and b: "rowid_gen s' db t \<le> 2 ^ 64" and comp: "table_complete db t s"
  shows "table_complete db t s'"
proof (cases n)
  case 0
  then show ?thesis using run comp by simp
next
  case (Suc m)
  have S: "get_schema s db t = Some schema" using q(1) by (simp add: quiet_table_def)
  have old: "\<forall>rid r. row_at s db t rid = Some r \<longrightarrow> row_complete schema r"
    using comp S by (simp add: table_complete_def)
  have kept: "table_complete db t s'"
    if r: "row_changes E db t schema ref tx s cs s'" and c: "\<forall>c\<in>set cs. pred_option (row_complete schema) (change_row c)" for cs
  proof -
    have "get_schema s' db t = Some schema"
      using row_changes_quiet [OF r q(1)] by (simp add: quiet_table_def)
    then show ?thesis
      using fold_changes_complete [OF c old] row_changes_rows [OF r q(1), of db t]
      by (auto simp: table_complete_def)
  qed
  show ?thesis
  proof (cases stmt)
    case (SInsert name cols source)
    then have i: "execute_insert E n (\<lambda>st. execute_single_statement E m db st [] tx) db name cols source ps tx s = (res, s')"
      "object_name_to_string E name = t"
      using run t Suc by (simp_all add: Let_def)
    show ?thesis
      by (rule insert_changes [OF q i(2,1) b]) (use comp inserted_complete kept in blast)+
  next
    case (SUpdate relation assigns selection)
    then have u: "execute_update E (\<lambda>st. execute_single_statement E m db st [] tx) db relation assigns selection ps tx s = (res, s')"
      "factor_name E relation = t"
      using run t Suc by (simp_all add: Let_def)
    show ?thesis
    proof (rule update_changes [OF ok q(1) u(2,1)])
      fix entries k assume m: "matching_rows E s db ref ps selection (set_param_count assigns) = Done entries"
        and r: "row_changes E db t schema ref tx s (map (updated E ps assigns) (take k entries)) s'"
      have "row_complete schema (snd e)" if "e \<in> set (take k entries)" for e
      proof (cases e)
        case (Pair rid r)
        then show ?thesis
          using in_set_takeD [OF that] matching_rows_distinct(2) [OF ok q(1) m, of rid r] old by auto
      qed
      then show ?thesis by (intro kept [OF r]) (simp add: updated_complete)
    qed (use comp in simp)
  next
    case (SDelete tables froms selection)
    then have d: "execute_delete E (\<lambda>st. execute_single_statement E m db st [] tx) db tables froms selection ps tx s = (res, s')"
      "delete_target E tables froms = Some t"
      using run t Suc by (simp_all add: Let_def)
    show ?thesis
    proof (rule delete_changes [OF ok q(1) d(2,1)])
      fix entries assume "row_changes E db t schema ref tx s (map (\<lambda>(rid, r). Deleted rid r) entries) s'"
      then show ?thesis by (rule kept) auto
    qed (use comp in simp)
  qed (use t in auto)
qed

section \<open>ALTER TABLE on columns\<close>

lemma row_at_map_rows:
  "row_at (map_rows db t f s) db t rid = map_option f (row_at s db t rid)"
  by (auto simp: map_rows_def row_at_def get_table_store_def store_get_def map_of_map split: option.split)

lemma get_schema_map_rows [simp]: "get_schema (map_rows db t f s) db' t' = get_schema s db' t'"
  by (simp add: map_rows_def get_schema_def split: option.split)

lemma row_at_set_schema [simp]: "row_at (set_schema db' n schema s) db t rid = row_at s db t rid"
  by (rule row_at_cong) (simp_all add: set_schema_def)

lemma get_schema_set_schema [simp]:
  "get_schema (set_schema db n schema s) db t = (if t = n then Some schema else get_schema s db t)"
  by (simp add: set_schema_def get_schema_def outer_def update_conv' split: option.split)

lemma table_complete_reshape:
  assumes "\<And>rid r. row_at s db t rid = Some r \<Longrightarrow> row_complete schema (f r)"
  shows "table_complete db t (set_schema db t schema (map_rows db t f s))"
  using assms by (auto simp: table_complete_def row_at_map_rows)

lemma columns_update: "fst ` set (AList.update k v m) = insert k (fst ` set m)"
  by (simp add: dom_update)

lemma shift_insert_set: "shift_insert i k v m = Done m' \<Longrightarrow> set m' \<subseteq> insert (k, v) (set m)"
  by (auto simp: shift_insert_def Let_def AList.delete_eq split: if_splits dest!: in_set_takeD in_set_dropD)

lemma shift_insert_keys: "shift_insert i k v m = Done m' \<Longrightarrow> fst ` set m' \<subseteq> insert k (fst ` set m)"
  using image_mono [OF shift_insert_set, of i k v m m' fst] by simp

lemma map_of_rename:
  "map_of (rename_row_column old new r) c =
     (if map_of r old = None then map_of r c else if c = new then map_of r old else if c = old then None else map_of r c)"
  by (auto simp: rename_row_column_def update_conv' delete_conv' split: option.split)

lemma row_complete_columns:
  "row_complete schema r \<Longrightarrow> c \<in> fst ` set (ts_columns schema) \<Longrightarrow> map_of r c \<noteq> None"
  unfolding row_complete_def by blast

lemma row_complete_rowid [simp]: "row_complete (schema\<lparr>ts_rowid_column := x\<rparr>) r = row_complete schema r"
  by (simp add: row_complete_def)

lemma add_shape:
  "row_complete schema r \<Longrightarrow> ts_columns schema' = AList.update c cd (ts_columns schema) \<Longrightarrow>
   row_complete schema' (AList.update c v r)"
  by (auto simp: row_complete_def columns_update update_conv')

lemma drop_shape:
  assumes "row_complete schema r" "ts_columns schema' = AList.delete c (ts_columns schema)"
  shows "row_complete schema' (AList.delete c r)"
  unfolding row_complete_def assms(2) keys_delete
  using row_complete_columns [OF assms(1)] by (simp add: delete_conv')

lemma rename_shape:
  assumes "row_complete schema r" "old \<in> fst ` set (ts_columns schema)"
    and "shift_insert i new cd (AList.delete old (ts_columns schema)) = Done (ts_columns schema')"
  shows "row_complete schema' (rename_row_column old new r)"
  unfolding row_complete_def
proof
  fix c assume "c \<in> fst ` set (ts_columns schema')"
  then have "c = new \<or> c \<in> fst ` set (ts_columns schema) \<and> c \<noteq> old"
    using shift_insert_keys [OF assms(3)] unfolding keys_delete by blast
  then show "map_of (rename_row_column old new r) c \<noteq> None"
    using row_complete_columns [OF assms(1), of c] row_complete_columns [OF assms(1,2)] by (auto simp: map_of_rename)
qed

lemma alter_step_complete:
  assumes "table_complete db t s" "\<And>n. op \<noteq> RenameTable n" "alter_step E db op t s = (res, s')"
  shows "table_complete db t s' \<and> (\<forall>t'. res = Done t' \<longrightarrow> t' = t)"
proof (cases op)
  case (AddColumn col)
  then show ?thesis
    using assms(1,3) table_completeD [OF assms(1)]
    by (auto simp: alter_step_def add_column_def Let_def
        intro!: table_complete_reshape add_shape split: outcome.splits option.splits if_splits)
next
  case (DropColumn col ie)
  have "row_complete (schema\<lparr>ts_columns := AList.delete c (ts_columns schema)\<rparr>) (AList.delete c r)"
    if "row_complete schema r" for schema r c
    by (rule drop_shape [OF that]) simp
  then show ?thesis
    using assms(1,3) table_completeD [OF assms(1)] DropColumn
    by (auto simp: alter_step_def drop_column_def Let_def
        intro!: table_complete_reshape split: option.splits if_splits)
next
  case (RenameColumn old new)
  show ?thesis
  proof (cases "s' = s \<and> (\<forall>t'. res \<noteq> Done t')")
    case False
    then obtain schema cd i cols x where r: "get_schema s db t = Some schema" "map_of (ts_columns schema) (id_value old) = Some cd"
      "shift_insert i (id_value new) (cd\<lparr>cd_name := id_value new\<rparr>) (AList.delete (id_value old) (ts_columns schema)) = Done cols"
      "res = Done t" "s' = set_schema db t (schema\<lparr>ts_columns := cols, ts_rowid_column := x\<rparr>)
         (map_rows db t (rename_row_column (id_value old) (id_value new)) s)"
      using assms(3) RenameColumn that
      by (simp add: alter_step_def rename_column_def Let_def split: option.splits outcome.splits; elim conjE; hypsubst; blast)
    have "id_value old \<in> fst ` set (ts_columns schema)" using map_of_SomeD [OF r(2)] by force
    then have "row_complete (schema\<lparr>ts_columns := cols, ts_rowid_column := x\<rparr>) (rename_row_column (id_value old) (id_value new) rw)"
      if "row_complete schema rw" for rw
      using rename_shape [OF that, of "id_value old" i "id_value new" "cd\<lparr>cd_name := id_value new\<rparr>" "schema\<lparr>ts_columns := cols\<rparr>"] r(3) by simp
    then have "table_complete db t s'"
      unfolding r(5) using table_completeD [OF assms(1) r(1)] by (intro table_complete_reshape) blast
    then show ?thesis using r(4) by simp
  qed (use assms(1) in auto)
qed (use assms in \<open>auto simp: alter_step_def efail_def\<close>)

lemma alter_steps_complete:
  "table_complete db t s \<Longrightarrow> \<forall>op\<in>set ops. \<forall>n. op \<noteq> RenameTable n \<Longrightarrow> alter_steps E db ops t s = (res, s') \<Longrightarrow>
   table_complete db t s'"
proof (induction ops arbitrary: s)
  case (Cons op ops)
  obtain o1 s1 where 1: "alter_step E db op t s = (o1, s1)" by force
  have "table_complete db t s1 \<and> (\<forall>t'. o1 = Done t' \<longrightarrow> t' = t)"
    by (rule alter_step_complete [OF Cons.prems(1) _ 1]) (use Cons.prems(2) in simp)
  then show ?case
    using Cons.IH [of s1] Cons.prems(2,3) 1 by (cases o1) (auto simp: ebind_def)
qed (simp add: eret_def)

text \<open>C19. Every row has a value for every column of its table: row statements on a table without triggers and
  ALTER TABLE (ADD, DROP and RENAME COLUMN) keep it so, whatever their outcome.\<close>

theorem rows_have_all_columns:
  assumes comp: "table_complete db t s"
    and run: "execute_single_statement E n db stmt ps tx s = (res, s')"
    and stmt: "iter_ok E \<and> quiet_table s db t schema ref \<and> rows_issued s db t \<and> dml_target E stmt = Some t \<and> rowid_gen s' db t \<le> 2 ^ 64 \<or>
      (\<exists>name ie ops. stmt = SAlterTable name ie ops \<and> object_name_to_string E name = t \<and> (\<forall>op\<in>set ops. \<forall>m. op \<noteq> RenameTable m))"
  shows "table_complete db t s'"
  using stmt
proof (elim disjE exE conjE)
  fix name ie ops
  assume a: "stmt = SAlterTable name ie ops" "object_name_to_string E name = t" "\<forall>op\<in>set ops. \<forall>m. op \<noteq> RenameTable m"
  show ?thesis
  proof (cases n)
    case (Suc m)
    then have "alter_table E db name ie ops s = (res, s')" using run a(1) by simp
    moreover obtain o1 s1 where 1: "alter_steps E db ops t s = (o1, s1)" by force
    ultimately have "s' = s \<or> s' = s1"
      using a(2) by (cases o1) (auto simp: alter_table_def Let_def ebind_def eret_def split: if_splits)
    then show ?thesis using alter_steps_complete [OF comp a(3) 1] comp by auto
  qed (use run comp in simp)
qed (use dml_complete [OF _ _ _ _ run _ comp] in blast)

section \<open>CREATE INDEX\<close>

lemma row_at_rebuild [simp]: "row_at (rebuild_index E db n idx s) db' t rid = row_at s db' t rid"
  by (rule row_at_cong) (auto simp: rebuild_index_def set_index_store_def split: option.split)

lemma get_schema_rebuild [simp]: "get_schema (rebuild_index E db n idx s) db' t = get_schema s db' t"
  by (auto simp: rebuild_index_def set_index_store_def get_schema_def split: option.split)

text \<open>C15. CREATE INDEX on a table without triggers whose indexes cover its rows leaves every index of the
  table, the new one included, covering exactly its rows, and changes no row of the table, whatever
  its outcome (it may fail, or find the index there), if the values of the rows in every indexed
  column, the new index's included, compare exactly with each other (no NaN, no integer beyond 53
  bits beside a real).\<close>

theorem create_index_covers:
  assumes ok: "iter_ok E" and q: "quiet_table s db t schema ref" and t: "object_name_to_string E table = t"
    and run: "execute_single_statement E n db (SCreateIndex name table columns uniq ine) ps tx s = (res, s')"
    and cov: "indexes_cover D db t (row_at s db t) s"
    and dom: "\<And>schema' idx. get_schema s' db t = Some schema' \<Longrightarrow> idx \<in> set (ts_indices schema') \<Longrightarrow> comparable_set (D idx)"
      "\<And>schema' rid r. get_schema s' db t = Some schema' \<Longrightarrow> row_at s db t rid = Some r \<Longrightarrow> row_in_domains D (ts_indices schema') r"
  shows "row_at s' db t = row_at s db t \<and> indexes_cover D db t (row_at s' db t) s'"
proof (cases "s' = s")
  case False
  have S: "get_schema s db t = Some schema" "get_table_store s db t = Some ref" "wf_alist (k_heap s ref)"
    using q by (simp_all add: quiet_table_def heap_wf_def)
  then have "k_schemas s db \<noteq> None" by (auto simp: get_schema_def outer_def split: option.splits)
  moreover obtain m where "n = Suc m" using run False by (cases n) auto
  ultimately have run': "create_index E db name table columns uniq ine s = (res, s')" "k_schemas s db \<noteq> None"
    using run by simp_all
  define i where "i = \<lparr>idx_name = (case name of Some n \<Rightarrow> object_name_to_string E n
        | None \<Rightarrow> ''idx_'' @ t @ ''_'' @ show_int (int (length columns))),
      idx_columns = map (expr_to_string E) columns, idx_unique = uniq, idx_partial_where = None, idx_is_expression = False\<rparr>"
  have i: "idx_name i \<notin> idx_name ` set (ts_indices schema)"
    "s' = rebuild_index E db t i (set_schema db t (schema\<lparr>ts_indices := ts_indices schema @ [i]\<rparr>) s)"
    using run' t False S(1)
    by (auto simp: create_index_def Let_def list_ex_iff i_def image_iff eq_commute [of _ "idx_name _"] split: if_splits)
  define s1 where "s1 = set_schema db t (schema\<lparr>ts_indices := ts_indices schema @ [i]\<rparr>) s"
  have s1: "get_table_store s1 db t = Some ref" "k_heap s1 = k_heap s" "k_indexes s1 = k_indexes s"
    using S(2) get_table_store_cong [of s1 s db t] by (simp_all add: s1_def set_schema_def)
  have rows: "row_at s' db t = row_at s db t" using i(2) by (simp add: fun_eq_iff)
  have heap: "row_at s db t = map_of (k_heap s ref)" using S(2) by (simp add: row_at_def store_get_def fun_eq_iff)
  have sch: "get_schema s' db t = Some (schema\<lparr>ts_indices := ts_indices schema @ [i]\<rparr>)" using i(2) by simp
  have store: "get_index_store s' db t k =
      (if k = idx_name i then fold (rebuild_push i) (iter_rows E (k_heap s ref)) [] else get_index_store s db t k)" for k
    using s1 i(2) by (simp add: rebuild_index_def get_set_index_store flip: s1_def) (simp add: get_index_store_def)
  have "index_covers (D i) i (map_of (k_heap s ref)) (fold (rebuild_push i) (iter_rows E (k_heap s ref)) [])"
    using dom [OF sch] heap by (intro rebuild_covers [OF ok S(3)]) (auto simp: row_in_domains_def)
  moreover have "idx_name idx \<noteq> idx_name i" if "idx \<in> set (ts_indices schema)" for idx
    using i(1) that by (metis imageI)
  ultimately show ?thesis
    using cov i(1) by (auto simp: indexes_cover_def sch S(1) store rows heap)
qed (use cov in simp)

section \<open>Concrete statements\<close>

text \<open>\<open>ALTER TABLE t RENAME COLUMN a TO b\<close>\<close>

definition rename_a :: statement where
  "rename_a = SAlterTable [nm ''t''] False [RenameColumn (nm ''a'') (nm ''b'')]"

theorem rows_have_all_columns_witness:
  "table_complete 0 ''t'' (snd (execute_single_statement plain_env 1 0 rename_a [] None unique_state)) \<and>
   row_at (snd (execute_single_statement plain_env 1 0 rename_a [] None unique_state)) 0 ''t'' 1 = Some [(''b'', VInteger 1)]"
proof
  have "table_complete 0 ''t'' unique_state"
    by (auto simp: table_complete_def unique_state_def row_at_demo row_complete_def demo_schema_def split: if_splits)
  then show "table_complete 0 ''t'' (snd (execute_single_statement plain_env 1 0 rename_a [] None unique_state))"
    by (rule rows_have_all_columns [OF _ surjective_pairing]) (simp add: rename_a_def, blast)
  show "row_at (snd (execute_single_statement plain_env 1 0 rename_a [] None unique_state)) 0 ''t'' 1 = Some [(''b'', VInteger 1)]"
    by code_simp
qed

definition create_ix :: statement where
  "create_ix = SCreateIndex (Some [nm ''ix'']) [nm ''t''] [Identifier (nm ''a'')] False False"

definition two_state :: kvs where
  "two_state = demo_state False [] 3 [(1, [(''a'', VInteger 9)]), (2, [(''a'', VInteger 4)])]"

theorem create_index_covers_witness:
  "indexes_cover (\<lambda>_. {VInteger 4, VInteger 9}) 0 ''t'' (row_at two_state 0 ''t'')
     (snd (execute_single_statement plain_env 1 0 create_ix [] None two_state)) \<and>
   lookup_index (snd (execute_single_statement plain_env 1 0 create_ix [] None two_state)) 0 ''t'' ''ix'' (VInteger 4) = [2]"
proof
  let ?x = "execute_single_statement plain_env 1 0 create_ix [] None two_state"
  have q: "quiet_table two_state 0 ''t'' (demo_schema ''t'' False []) 0" unfolding two_state_def by (rule demo_quiet) simp
  obtain res s' where run: "?x = (res, s')" by force
  have rows: "map_of r ''a'' = Some (VInteger 4) \<or> map_of r ''a'' = Some (VInteger 9)" if "row_at two_state 0 ''t'' rid = Some r" for rid r
    using that by (auto simp: two_state_def row_at_demo split: if_splits)
  have sch: "get_schema s' 0 ''t'' = Some (demo_schema ''t'' False
      [\<lparr>idx_name = ''ix'', idx_columns = [''a''], idx_unique = False, idx_partial_where = None, idx_is_expression = False\<rparr>])"
  proof -
    have "get_schema (snd ?x) 0 ''t'' = Some (demo_schema ''t'' False
      [\<lparr>idx_name = ''ix'', idx_columns = [''a''], idx_unique = False, idx_partial_where = None, idx_is_expression = False\<rparr>])"
      by code_simp
    then show ?thesis by (simp only: run snd_conv)
  qed
  have "row_at s' 0 ''t'' = row_at two_state 0 ''t'' \<and>
      indexes_cover (\<lambda>_. {VInteger 4, VInteger 9}) 0 ''t'' (row_at s' 0 ''t'') s'"
  proof (rule create_index_covers [OF plain_env_ok q plain_name_t run [unfolded create_ix_def]])
    show "indexes_cover (\<lambda>_. {VInteger 4, VInteger 9}) 0 ''t'' (row_at two_state 0 ''t'') two_state"
      unfolding two_state_def by (rule demo_no_indexes)
    show "row_in_domains (\<lambda>_. {VInteger 4, VInteger 9}) (ts_indices schema') r"
      if "get_schema s' 0 ''t'' = Some schema'" "row_at two_state 0 ''t'' rid = Some r" for schema' rid r
      using rows [OF that(2)] that(1) by (auto simp: sch demo_schema_def row_in_domains_def index_value_def)
  qed (simp add: comparable_set_def)
  then show "indexes_cover (\<lambda>_. {VInteger 4, VInteger 9}) 0 ''t'' (row_at two_state 0 ''t'') (snd ?x)"
    unfolding run snd_conv by metis
  show "lookup_index (snd ?x) 0 ''t'' ''ix'' (VInteger 4) = [2]" by code_simp
qed

section \<open>RENAME TO\<close>

text \<open>\<open>ALTER TABLE t RENAME TO u\<close> moves the rows and the schema, but the schema keeps the old name, under which
  the constraints look for the rows: UNIQUE is no longer enforced. The indexes stay under the old name too.\<close>

definition rename_t :: statement where
  "rename_t = SAlterTable [nm ''t''] False [RenameTable [nm ''u'']]"

definition insert_u :: "string \<Rightarrow> statement" where
  "insert_u n = SInsert [nm ''u''] [nm ''a'']
     (Some \<lparr>q_body = ValuesBody [[ValueE (Number n)]], q_order_by = [], q_limit = None, q_offset = None\<rparr>)"

text \<open>\<open>ALTER TABLE t RENAME TO u\<close> leaves the name \<open>t\<close> in the schema, so the constraints of \<open>u\<close> look for rows
  in \<open>t\<close>: a duplicate of a UNIQUE column, refused before, is then accepted.\<close>

theorem rename_table_drops_uniqueness:
  "fst (execute_statement plain_env 2 0 (one_row ''1'') [] None unique_state) \<noteq> Done (qr_affected_rows 1) \<and>
   fst (execute_statement plain_env 2 0 (insert_u ''1'') [] None
     (snd (execute_statement plain_env 2 0 rename_t [] None unique_state))) = Done (qr_affected_rows 1) \<and>
   k_heap (snd (execute_statement plain_env 2 0 (insert_u ''1'') [] None
     (snd (execute_statement plain_env 2 0 rename_t [] None unique_state)))) 0 =
     [(1, [(''a'', VInteger 1)]), (2, [(''a'', VInteger 1)])]"
  by (intro conjI; code_simp)

end
