(* ===== verification/Skvs_Checks.thy ===== *)
theory Skvs_Checks
  imports Skvs_Rows
begin

text \<open>
  The constraints a row satisfies by itself, that is NOT NULL, CHECK and the child's side of FOREIGN
  KEY, read declaratively (\<open>row_conforms\<close>): what \<open>validate_constraints\<close> accepts conforms, and a row
  statement keeps every row of its table conforming. The parent's side is not checked by the code.
\<close>

section \<open>The constraints a row satisfies by itself\<close>

definition refers :: "kvs \<Rightarrow> u32 \<Rightarrow> foreign_key_def \<Rightarrow> skvs_value \<Rightarrow> bool" where
  "refers s db fk v \<longleftrightarrow>
     (\<exists>rid r w. row_at s db (fk_ref_table fk) rid = Some r \<and> map_of r (fk_ref_column fk) = Some w \<and> value_eq w v)"

definition row_conforms :: "('x) env_scheme \<Rightarrow> kvs \<Rightarrow> u32 \<Rightarrow> table_schema \<Rightarrow> row \<Rightarrow> bool" where
  "row_conforms E s db schema r \<longleftrightarrow>
     (\<forall>(c, d)\<in>set (ts_columns schema).
        (cd_not_null d \<longrightarrow> map_of r c \<noteq> None \<and> map_of r c \<noteq> Some VNull) \<and>
        (\<forall>sql. cd_check_expr d = Some sql \<longrightarrow> eval_check E r sql = Done True)) \<and>
     (\<forall>sql\<in>set (ts_table_checks schema). eval_check E r sql = Done True) \<and>
     (\<forall>fk\<in>set (ts_foreign_keys schema). \<forall>v.
        fk_column fk \<noteq> [] \<longrightarrow> map_of r (fk_column fk) = Some v \<longrightarrow> v \<noteq> VNull \<longrightarrow>
        get_table_store s db (fk_ref_table fk) \<noteq> None \<longrightarrow> refers s db fk v)"

lemma violation_not_Done [simp]: "violation m \<noteq> Done ()"
  by (simp add: violation_def)

lemma check_not_nullD:
  "check_not_null r (c, d) = Done () \<Longrightarrow> cd_not_null d \<Longrightarrow> map_of r c \<noteq> None \<and> map_of r c \<noteq> Some VNull"
  by (auto simp: check_not_null_def split: if_splits)

lemma check_column_checkD:
  "check_column_check E schema r (c, d) = Done () \<Longrightarrow> cd_check_expr d = Some sql \<Longrightarrow> eval_check E r sql = Done True"
  by (auto simp: check_column_check_def outcome_simps split: if_splits)

lemma check_table_checkD: "check_table_check E schema r sql = Done () \<Longrightarrow> eval_check E r sql = Done True"
  by (auto simp: check_table_check_def outcome_simps split: if_splits)

lemma check_foreign_keyD:
  assumes "check_foreign_key s db schema r fk = Done ()" "heap_wf s"
    and "fk_column fk \<noteq> []" "map_of r (fk_column fk) = Some v" "v \<noteq> VNull" "get_table_store s db (fk_ref_table fk) \<noteq> None"
  shows "refers s db fk v"
proof -
  obtain ref where ref: "get_table_store s db (fk_ref_table fk) = Some ref" using assms(6) by auto
  have "\<not> is_null v" using assms(5) by (cases v) (simp_all add: is_null_def)
  then obtain rid r2 w where "(rid, r2) \<in> set (k_heap s ref)" "map_of r2 (fk_ref_column fk) = Some w" "value_eq w v"
    using assms(1,3,4) ref
    by (auto simp: check_foreign_key_def list_ex_iff split: if_splits option.splits)
  moreover from this have "row_at s db (fk_ref_table fk) rid = Some r2"
    using assms(2) ref by (simp add: row_at_def store_get_def heap_wf_def)
  ultimately show ?thesis unfolding refers_def by blast
qed

lemma validated_conforms:
  assumes "validate_constraints E s db schema r rid = Done ()" "heap_wf s"
  shows "row_conforms E s db schema r"
proof -
  have v: "\<forall>c\<in>set (ts_columns schema). check_not_null r c = Done ()" "\<forall>c\<in>set (ts_columns schema). check_column_check E schema r c = Done ()"
    "\<forall>fk\<in>set (ts_foreign_keys schema). check_foreign_key s db schema r fk = Done ()"
    "\<forall>sql\<in>set (ts_table_checks schema). check_table_check E schema r sql = Done ()"
    using assms(1) by (auto simp: validate_constraints_def outcome_simps)
  have "(cd_not_null d \<longrightarrow> map_of r c \<noteq> None \<and> map_of r c \<noteq> Some VNull) \<and>
      (\<forall>sql. cd_check_expr d = Some sql \<longrightarrow> eval_check E r sql = Done True)" if "(c, d) \<in> set (ts_columns schema)" for c d
    using v(1,2) that check_not_nullD [of r c d] check_column_checkD [of E schema r c d] by blast
  moreover have "\<forall>sql\<in>set (ts_table_checks schema). eval_check E r sql = Done True"
    using v(4) check_table_checkD by blast
  moreover have "fk_column fk \<noteq> [] \<longrightarrow> map_of r (fk_column fk) = Some w \<longrightarrow> w \<noteq> VNull \<longrightarrow>
      get_table_store s db (fk_ref_table fk) \<noteq> None \<longrightarrow> refers s db fk w" if "fk \<in> set (ts_foreign_keys schema)" for fk w
    using v(3) that check_foreign_keyD [OF _ assms(2), of db schema r fk w] by blast
  ultimately show ?thesis unfolding row_conforms_def by blast
qed

lemma row_conforms_cong:
  assumes "k_dbs s' = k_dbs s" "\<And>fk. fk \<in> set (ts_foreign_keys schema) \<Longrightarrow> row_at s' db (fk_ref_table fk) = row_at s db (fk_ref_table fk)"
  shows "row_conforms E s' db schema r = row_conforms E s db schema r"
proof -
  have "get_table_store s' db t = get_table_store s db t" for t by (rule get_table_store_cong) (rule assms(1))
  then show ?thesis unfolding row_conforms_def refers_def using assms(2) by auto
qed

lemma row_changes_conform:
  assumes "row_changes E db t schema ref tx s cs s'" "quiet_table s db t schema ref"
    and fk: "\<forall>fk\<in>set (ts_foreign_keys schema). fk_ref_table fk \<noteq> t"
    and "\<forall>rid r. row_at s db t rid = Some r \<longrightarrow> row_conforms E s db schema r"
  shows "\<forall>rid r. row_at s' db t rid = Some r \<longrightarrow> row_conforms E s' db schema r"
  using assms(1,2,4)
proof (induction rule: row_changes.induct)
  case (changes_issue cs s1)
  have "row_conforms E (set_rowid_gen db t (Suc (rowid_gen s1 db t)) s1) db schema r = row_conforms E s1 db schema r" for r
    by (rule row_conforms_cong) (simp_all add: fun_eq_iff)
  then show ?case using changes_issue by simp
next
  case (changes_write cs s1 c)
  have q: "quiet_table s1 db t schema ref" by (rule row_changes_quiet [OF changes_write.hyps(1) changes_write.prems(1)])
  then have wf: "heap_wf s1" by (simp add: quiet_table_def)
  have same: "row_conforms E (write_change db t ref tx c s1) db schema r = row_conforms E s1 db schema r" for r
    using fk by (intro row_conforms_cong) (auto simp: row_at_write_change [OF q] fun_eq_iff)
  have "row_conforms E s1 db schema r" if "change_rows c (row_at s1 db t) rid = Some r" for rid r
    using that changes_write.IH [OF changes_write.prems] changes_write.hyps(2) validated_conforms [OF _ wf]
    by (cases c) (auto split: if_splits)
  then show ?case by (simp add: same row_at_write_change [OF q])
qed simp

text \<open>C12. Whatever its outcome, a row statement on a table without triggers, whose foreign keys all refer
  to other tables, keeps the rows of the table conforming to its declared NOT NULL and CHECK
  constraints and to these foreign keys.\<close>

theorem declared_constraints_kept:
  assumes ok: "iter_ok E" and q: "quiet_table s db t schema ref" "rows_issued s db t"
    and t: "dml_target E stmt = Some t"
    and run: "execute_single_statement E n db stmt ps tx s = (res, s')"
    and b: "rowid_gen s' db t \<le> 2 ^ 64"
    and fk: "\<forall>fk\<in>set (ts_foreign_keys schema). fk_ref_table fk \<noteq> t"
    and conf: "\<forall>rid r. row_at s db t rid = Some r \<longrightarrow> row_conforms E s db schema r"
  shows "\<forall>rid r. row_at s' db t rid = Some r \<longrightarrow> row_conforms E s' db schema r"
proof -
  obtain cs where "row_changes E db t schema ref tx s cs s'"
    using dml_changes [OF ok q t run b] by blast
  then show ?thesis by (rule row_changes_conform [OF _ q(1) fk conf])
qed

section \<open>A table with a parent\<close>

text \<open>\<open>CREATE TABLE t (a INTEGER NOT NULL CHECK (a > 0) REFERENCES p(a) ON DELETE RESTRICT)\<close>\<close>

definition kid_schema :: table_schema where
  "kid_schema = (demo_schema ''t'' False [])
     \<lparr>ts_columns := [(''a'', (int_column ''a'' False)\<lparr>cd_not_null := True, cd_check_expr := Some ''a > 0''\<rparr>)],
      ts_foreign_keys := [\<lparr>fk_column = ''a'', fk_ref_table = ''p'', fk_ref_column = ''a'', fk_on_delete = FkRestrict, fk_on_update = FkNoAction\<rparr>]\<rparr>"

definition kid_state :: "rows \<Rightarrow> kvs" where
  "kid_state kids = (demo_state False [] 2 [])
     \<lparr>k_dbs := (\<lambda>db. if db = 0 then Some [(''t'', 0), (''p'', 1)] else None),
      k_heap := (\<lambda>ref. if ref = 0 then kids else if ref = 1 then [(1, [(''a'', VInteger 7)])] else []),
      k_next_ref := 2,
      k_schemas := (\<lambda>db. if db = 0 then Some [(''t'', kid_schema), (''p'', demo_schema ''p'' False [])] else None)\<rparr>"

definition check_env :: env where
  "check_env = plain_env\<lparr>parse_sql := \<lambda>sql. if sql = ''SELECT a > 0''
     then Inr [SQuery \<lparr>q_body = SelectBody \<lparr>sel_distinct = False,
         sel_projection = [UnnamedExpr (BinaryOp (Identifier (nm ''a'')) BGt (ValueE (Number ''0'')))], sel_from = [],
         sel_selection = None, sel_group_by = GroupByExprs []\<rparr>, q_order_by = [], q_limit = None, q_offset = None\<rparr>]
     else Inl ''no parser''\<rparr>"

lemma check_env_ok: "iter_ok check_env"
  using plain_env_ok by (simp add: iter_ok_def check_env_def)

lemma kid_fields:
  "get_schema (kid_state kids) 0 ''t'' = Some kid_schema" "get_table_store (kid_state kids) 0 ''t'' = Some 0"
  "get_triggers (kid_state kids) 0 ''t'' = []"
  by (simp_all add: kid_state_def get_schema_def get_table_store_def outer_def get_triggers_def demo_state_def kvs_empty_def)

lemma kid_quiet: "wf_alist kids \<Longrightarrow> quiet_table (kid_state kids) 0 ''t'' kid_schema 0"
  unfolding quiet_table_def kid_fields
  by (auto simp: stores_distinct_def heap_wf_def kid_state_def get_table_store_def outer_def split: if_splits)

lemma kid_rows: "row_at (kid_state kids) 0 ''t'' rid = map_of kids rid"
  by (simp add: row_at_def kid_fields store_get_def) (simp add: kid_state_def)

theorem declared_constraints_kept_witness:
  "row_at (snd (execute_single_statement check_env 1 0 (one_row ''7'') [] None (kid_state []))) 0 ''t'' 2 = Some [(''a'', VInteger 7)] \<and>
   row_conforms check_env (snd (execute_single_statement check_env 1 0 (one_row ''7'') [] None (kid_state []))) 0 kid_schema
     [(''a'', VInteger 7)]"
proof -
  let ?x = "execute_single_statement check_env 1 0 (one_row ''7'') [] None (kid_state [])"
  have at: "row_at (snd ?x) 0 ''t'' 2 = Some [(''a'', VInteger 7)]" and g: "rowid_gen (snd ?x) 0 ''t'' = 3"
    by code_simp+
  have t: "dml_target check_env (one_row ''7'') = Some ''t''" by code_simp
  have i: "rows_issued (kid_state []) 0 ''t''" by (simp add: rows_issued_def kid_rows)
  have q: "quiet_table (kid_state []) 0 ''t'' kid_schema 0" by (rule kid_quiet) simp
  have run: "execute_single_statement check_env 1 0 (one_row ''7'') [] None (kid_state []) = (fst ?x, snd ?x)" by simp
  have "\<forall>rid r. row_at (snd ?x) 0 ''t'' rid = Some r \<longrightarrow> row_conforms check_env (snd ?x) 0 kid_schema r"
    by (rule declared_constraints_kept [OF check_env_ok q i t run]) (unfold g kid_rows, simp_all add: kid_schema_def)
  with at show ?thesis by blast
qed

text \<open>The parent's side is not checked: the row a child refers to can be deleted, whatever ON DELETE says.\<close>

theorem delete_orphans_children:
  "fst (execute_statement check_env 2 0
       (SDelete [] [\<lparr>tj_relation = TableFactor [nm ''p''] None, tj_joins = []\<rparr>] None) [] None (kid_state [(1, [(''a'', VInteger 7)])])) =
     Done (qr_affected_rows 1) \<and>
   row_at (snd (execute_statement check_env 2 0
       (SDelete [] [\<lparr>tj_relation = TableFactor [nm ''p''] None, tj_joins = []\<rparr>] None) [] None (kid_state [(1, [(''a'', VInteger 7)])]))) 0 ''t'' 1 =
     Some [(''a'', VInteger 7)] \<and>
   k_heap (snd (execute_statement check_env 2 0
       (SDelete [] [\<lparr>tj_relation = TableFactor [nm ''p''] None, tj_joins = []\<rparr>] None) [] None (kid_state [(1, [(''a'', VInteger 7)])]))) 1 = []"
  by (intro conjI; code_simp)

end
