(* ===== verification/Skvs_Returns.thy ===== *)
theory Skvs_Returns
  imports Skvs_Rows
begin

text \<open>
  When a statement returns. Expressions, conditions, paths, constraints, index and full-text upkeep
  always answer (the collection \<open>settles\<close>); the two places that recurse on stored text are a view
  that reads a view and a trigger whose body writes a table with triggers. With acyclic views and
  triggers (\<open>views_ranked\<close>, \<open>triggers_ranked\<close>: a rank that falls along each of them) a row statement
  returns, and the bound the model needs is read off the ranks; a larger bound never changes the
  answer (\<open>execute_select_mono\<close>). The code accepts cyclic definitions, and then does not return.
\<close>

section \<open>Computations that settle\<close>

text \<open>An answer other than "the recursion bound was reached".\<close>

definition settled :: "'a outcome \<Rightarrow> bool" where
  "settled m \<longleftrightarrow> m \<noteq> NoFuel"

named_theorems settles \<open>what always answers\<close>

lemma settled_simps [simp]:
  "settled (Done x)" "settled (Fail e)" "settled Panic" "\<not> settled NoFuel"
  by (simp_all add: settled_def)

lemma settled_obind [intro, settles]:
  "settled m \<Longrightarrow> (\<And>x. m = Done x \<Longrightarrow> settled (f x)) \<Longrightarrow> settled (obind m f)"
  by (cases m) auto

lemma settled_omap [settles]: "(\<And>x. x \<in> set xs \<Longrightarrow> settled (f x)) \<Longrightarrow> settled (omap f xs)"
  by (induction xs) (auto intro!: settled_obind)

lemma settled_ofilter [settles]: "(\<And>x. x \<in> set xs \<Longrightarrow> settled (p x)) \<Longrightarrow> settled (ofilter p xs)"
  by (induction xs) (auto intro!: settled_obind)

lemma settled_ocheck [settles]: "(\<And>x. x \<in> set xs \<Longrightarrow> settled (f x)) \<Longrightarrow> settled (ocheck f xs)"
  by (induction xs) (auto intro!: settled_obind)

section \<open>Reading\<close>

lemma arithmetic_settles: "settled (arithmetic l op r)"
  by (auto simp: arithmetic_def i64_rem_def split: option.splits binary_operator.splits skvs_value.splits)

lemma binary_value_settles [settles]: "settled (binary_value op l r)"
  using arithmetic_settles by (auto simp: binary_value_def split: binary_operator.splits)

lemma eval_settles_all:
  "settled (eval E ctx ps e i)" "settled (eval_args E ctx ps args i)"
  "settled (eval_any E ctx ps v es i)" "settled (eval_case E ctx ps opr cs rs els i)"
  by (induction E ctx ps e i and E ctx ps args i and E ctx ps v es i
      and E ctx ps opr cs rs els i rule: eval_eval_args_eval_any_eval_case.induct)
    (auto intro!: settled_obind binary_value_settles split: prod.splits option.splits)

lemmas eval_settles [settles] = eval_settles_all(1)

lemma evaluate_where_settles [settles]: "settled (evaluate_where E s db r ps e i)"
  by (induction E s db r ps e i rule: evaluate_where.induct)
    (auto intro!: settled_obind eval_settles split: prod.splits simp del: eval.simps)

lemma where_passes_settles [settles]: "settled (where_passes E s db ps selection i r)"
  by (auto simp: where_passes_def intro!: settles split: option.split prod.split)

lemma const_value_settles [settles]: "settled (const_value E ps e)"
  by (auto simp: const_value_def intro!: settles split: prod.split)

lemma simple_equality_settles [settles]: "settled (simple_equality E ps e)"
  by (cases "(E, ps, e)" rule: simple_equality.cases)
    (auto intro!: settles split: option.split prod.split)

lemma simple_range_settles [settles]: "settled (simple_range E ps e)"
  by (cases "(E, ps, e)" rule: simple_range.cases)
    (auto intro!: settles split: option.split prod.split)

lemma bt_range_settles [settles]: "settled (bt_range cmp lo hi m)"
  by (auto simp: bt_range_def)

lemma range_lookup_settles [settles]: "settled (range_lookup s db t n lo hi)"
  by (auto simp: range_lookup_def intro!: settles)

lemma rows_from_ids_settles [settles]: "settled (rows_from_ids s db t ids)"
  by (auto simp: rows_from_ids_def split: option.split)

lemma scan_rows_settles [settles]: "settled (scan_rows E s db t)"
  by (auto simp: scan_rows_def split: option.split)

lemma rows_for_simple_where_settles [settles]: "settled (rows_for_simple_where E s db t selection ps)"
  by (auto simp: rows_for_simple_where_def fetch_range_def intro!: settles split: option.split prod.split)

lemma filter_where_settles [settles]: "settled (filter_where E s db ps selection rows)"
  by (auto simp: filter_where_def intro!: settles split: option.split)

lemma join_condition_settles [settles]: "settled (join_condition_matches E s db ps c r)"
  by (auto simp: join_condition_matches_def intro!: settles split: join_constraint.split prod.split)

lemma concat_outcome_settles [settles]: "(\<And>x. x \<in> set xs \<Longrightarrow> settled (f x)) \<Longrightarrow> settled (concat_outcome f xs)"
  by (auto simp: concat_outcome_def intro!: settles)

lemma join_step_settles [settles]: "settled (join_step E s db ps name1 first_hop result j)"
  by (auto simp: join_step_def Let_def inner_loop_def left_loop_def right_loop_def full_loop_def matching_def
      matched_right_def intro!: settles split: option.split prod.split join_operator.split)

lemma join_steps_settles [settles]: "settled (join_steps E s db ps name1 first_hop result js)"
  by (induction js arbitrary: first_hop result) (auto intro!: settles)

lemma execute_joins_settles [settles]: "settled (execute_joins E s db from ps)"
  by (auto simp: execute_joins_def Let_def intro!: settles split: list.split option.split prod.split)

lemma apply_group_by_settles [settles]: "settled (apply_group_by E rows g items)"
  by (auto simp: apply_group_by_def group_key_def intro!: settles split: group_by_expr.split prod.split)

lemma order_passes_settles [settles]: "settled (order_passes E obs rows)"
  by (induction obs arbitrary: rows) (auto simp: order_pass_def intro!: settles split: prod.split)

lemma apply_order_by_settles [settles]: "settled (apply_order_by E rows obs)"
  by (simp add: apply_order_by_def order_passes_settles)

lemma project_row_settles [settles]: "settled (project_row E ps r items out)"
  by (induction items arbitrary: out)
    (auto simp: project_item_def intro!: settles split: select_item.split prod.split)

lemma apply_projection_settles [settles]: "settled (apply_projection E rows items ps)"
  by (auto simp: apply_projection_def intro!: settles)

lemma shape_rows_settles [settles]: "settled (shape_rows E ps q sel rows)"
  by (auto simp: shape_rows_def Let_def intro!: settles split: option.split)

lemma parse_view_settles [settles]: "settled (parse_view E sql)"
  by (auto simp: parse_view_def split: sum.split list.split statement.split)

section \<open>Views\<close>

text \<open>The view a query reads, if its only FROM item is one.\<close>

definition query_view :: "('x) env_scheme \<Rightarrow> kvs \<Rightarrow> u32 \<Rightarrow> query \<Rightarrow> string option" where
  "query_view E s db q =
     (case q_body q of
        SelectBody sel \<Rightarrow>
          (case sel_from sel of
             [tj] \<Rightarrow>
               (let (table, view_query) = resolve_from E s db (tj_relation tj)
                in if tj_joins tj = [] \<and> view_query \<noteq> None then Some table else None)
           | _ \<Rightarrow> None)
      | _ \<Rightarrow> None)"

text \<open>Every view reads only views of a smaller rank; a query needs a turn for itself and one for each view below.\<close>

definition views_ranked :: "('x) env_scheme \<Rightarrow> kvs \<Rightarrow> u32 \<Rightarrow> (string \<Rightarrow> nat) \<Rightarrow> bool" where
  "views_ranked E s db rank \<longleftrightarrow>
     (\<forall>v sql q w. get_view_definition s db v = Some sql \<longrightarrow> parse_view E sql = Done q \<longrightarrow>
        query_view E s db q = Some w \<longrightarrow> rank w < rank v)"

definition view_depth :: "('x) env_scheme \<Rightarrow> kvs \<Rightarrow> u32 \<Rightarrow> (string \<Rightarrow> nat) \<Rightarrow> query \<Rightarrow> nat" where
  "view_depth E s db rank q = (case query_view E s db q of Some v \<Rightarrow> Suc (rank v) | None \<Rightarrow> 0)"

lemma execute_select_view:
  assumes "query_view E s db q = Some v"
  obtains sel tj sql where "q_body q = SelectBody sel" "sel_from sel = [tj]" "tj_joins tj = []"
    "resolve_from E s db (tj_relation tj) = (v, Some sql)" "get_view_definition s db v = Some sql"
  using assms by (auto simp: query_view_def resolve_from_def Let_def split: set_expr.splits list.splits if_splits)

lemma execute_select_settles:
  assumes "views_ranked E s db rank" "view_depth E s db rank q < n"
  shows "settled (execute_select E n s db q ps)"
  using assms(2)
proof (induction n arbitrary: q)
  case (Suc n)
  show ?case
  proof (cases "query_view E s db q")
    case None
    then show ?thesis
      by (auto simp: query_view_def Let_def intro!: settles
          split: set_expr.splits list.splits if_splits option.splits prod.splits)
  next
    case (Some v)
    obtain sel tj sql where q: "q_body q = SelectBody sel" "sel_from sel = [tj]" "tj_joins tj = []"
      "resolve_from E s db (tj_relation tj) = (v, Some sql)" "get_view_definition s db v = Some sql"
      by (rule execute_select_view [OF Some])
    have "settled (execute_select E n s db vq ps)" if "parse_view E sql = Done vq" for vq
    proof (rule Suc.IH)
      show "view_depth E s db rank vq < n"
        using assms(1) q(5) that Suc.prems Some
        by (auto simp: views_ranked_def view_depth_def split: option.splits) force
    qed
    then show ?thesis by (simp add: q, intro settles; simp)
  qed
qed simp

text \<open>More turns change no answer.\<close>

lemma execute_select_flat:
  assumes "query_view E s db q = None"
  shows "execute_select E (Suc n) s db q ps = execute_select E (Suc m) s db q ps"
proof (cases "q_body q")
  case (SelectBody sel)
  show ?thesis
  proof (cases "\<exists>tj. sel_from sel = [tj] \<and> tj_joins tj = []")
    case True
    then obtain tj where tj: "sel_from sel = [tj]" "tj_joins tj = []" by blast
    obtain t where "resolve_from E s db (tj_relation tj) = (t, None)"
      using assms tj by (cases "resolve_from E s db (tj_relation tj)") (auto simp: query_view_def SelectBody split: if_splits)
    then show ?thesis by (simp add: SelectBody tj)
  next
    case False
    then show ?thesis by (cases "sel_from sel") (auto simp: SelectBody)
  qed
qed simp_all

lemma execute_select_mono:
  assumes "settled (execute_select E n s db q ps)" "n \<le> m"
  shows "execute_select E m s db q ps = execute_select E n s db q ps"
  using assms
proof (induction n arbitrary: m q)
  case (Suc n)
  then obtain m' where m: "m = Suc m'" "n \<le> m'" by (cases m) auto
  show ?case
  proof (cases "query_view E s db q")
    case None
    then show ?thesis unfolding m(1) by (rule execute_select_flat)
  next
    case (Some v)
    obtain sel tj sql where q: "q_body q = SelectBody sel" "sel_from sel = [tj]" "tj_joins tj = []"
      "resolve_from E s db (tj_relation tj) = (v, Some sql)" "get_view_definition s db v = Some sql"
      by (rule execute_select_view [OF Some])
    show ?thesis
    proof (cases "parse_view E sql")
      case (Done vq)
      have "settled (execute_select E n s db vq ps)"
        using Suc.prems(1) by (cases "execute_select E n s db vq ps") (simp_all add: q Done)
      then have "execute_select E m' s db vq ps = execute_select E n s db vq ps"
        by (rule Suc.IH [OF _ m(2)])
      then show ?thesis by (simp add: m q Done)
    qed (simp_all add: m q)
  qed
qed simp

section \<open>Statements and the triggers they fire\<close>

text \<open>From a state in \<open>P\<close> the computation answers and ends in \<open>P\<close>.\<close>

definition returns :: "(kvs \<Rightarrow> bool) \<Rightarrow> (kvs, 'a) exec \<Rightarrow> bool" where
  "returns P m \<longleftrightarrow> (\<forall>s. P s \<longrightarrow> settled (fst (m s)) \<and> P (snd (m s)))"

lemma returnsD: "returns P m \<Longrightarrow> P s \<Longrightarrow> settled (fst (m s)) \<and> P (snd (m s))"
  by (simp add: returns_def)

lemma returns_basic [simp, intro]:
  "returns P (eret x)" "returns P (efail e)" "returns P (eget g)"
  by (simp_all add: returns_def exec_defs)

lemma returns_elift: "(\<And>s. P s \<Longrightarrow> settled (f s)) \<Longrightarrow> returns P (elift f)"
  by (simp add: returns_def elift_def)

lemma returns_emodify: "(\<And>s. P s \<Longrightarrow> P (f s)) \<Longrightarrow> returns P (emodify f)"
  by (simp add: returns_def emodify_def)

lemma returns_bind: "returns P m \<Longrightarrow> (\<And>x. returns P (f x)) \<Longrightarrow> returns P (ebind m f)"
  unfolding returns_def ebind_def
  by (intro allI impI, drule_tac x = s in spec) (auto split: prod.split outcome.split)

lemma returns_iter: "(\<And>x. x \<in> set xs \<Longrightarrow> returns P (f x)) \<Longrightarrow> returns P (eiter f xs)"
  by (induction xs) (auto intro!: returns_bind)

text \<open>Every trigger's body changes only tables of a smaller rank than the trigger's own.\<close>

definition statement_rank :: "('x) env_scheme \<Rightarrow> (string \<Rightarrow> nat) \<Rightarrow> statement \<Rightarrow> nat" where
  "statement_rank E rank st = (case dml_target E st of Some t \<Rightarrow> Suc (rank t) | None \<Rightarrow> 0)"

definition triggers_ranked :: "('x) env_scheme \<Rightarrow> kvs \<Rightarrow> u32 \<Rightarrow> (string \<Rightarrow> nat) \<Rightarrow> bool" where
  "triggers_ranked E s db rank \<longleftrightarrow>
     (\<forall>t trg old_row new_row stmts st.
        trg \<in> set (get_triggers s db t) \<longrightarrow>
        parse_sql E (substitute_trigger_variables (tr_body trg) old_row new_row) = Inr stmts \<longrightarrow>
        st \<in> set stmts \<longrightarrow> row_statement st \<and> statement_rank E rank st \<le> rank t)"

text \<open>What the answers of row statements rest on: ranked triggers, ranked views, view ranks below \<open>K\<close>.\<close>

definition code_ranked ::
  "('x) env_scheme \<Rightarrow> u32 \<Rightarrow> (string \<Rightarrow> nat) \<Rightarrow> (string \<Rightarrow> nat) \<Rightarrow> nat \<Rightarrow> kvs \<Rightarrow> bool" where
  "code_ranked E db rank vrank K s \<longleftrightarrow>
     triggers_ranked E s db rank \<and> views_ranked E s db vrank \<and> (\<forall>v. vrank v < K)"

lemma code_ranked_cong:
  "k_triggers s = k_triggers s' \<Longrightarrow> k_views s = k_views s' \<Longrightarrow>
   code_ranked E db rank vrank K s = code_ranked E db rank vrank K s'"
proof -
  assume k: "k_triggers s = k_triggers s'" "k_views s = k_views s'"
  have "get_triggers s db t = get_triggers s' db t" "get_view_definition s db t = get_view_definition s' db t" for t
    by (simp_all add: get_triggers_def get_view_definition_def k)
  moreover from this have "resolve_from E s db = resolve_from E s' db"
    by (simp add: resolve_from_def fun_eq_iff)
  then have "query_view E s db q = query_view E s' db q" for q by (simp only: query_view_def)
  ultimately show ?thesis by (simp add: code_ranked_def triggers_ranked_def views_ranked_def)
qed

lemma code_ranked_writes:
  "code_ranked E db rank vrank K (write_insert db' t ref tx rid r s) = code_ranked E db rank vrank K s"
  "code_ranked E db rank vrank K (write_update db' t ref tx rid old_row r s) = code_ranked E db rank vrank K s"
  "code_ranked E db rank vrank K (write_delete db' t ref tx rid r s) = code_ranked E db rank vrank K s"
  "code_ranked E db rank vrank K (set_rowid_gen db' t g s) = code_ranked E db rank vrank K s"
  by (rule code_ranked_cong; simp add: write_insert_def write_update_def write_delete_def)+

lemma select_returns:
  "code_ranked E db rank vrank K s \<Longrightarrow> K < n \<Longrightarrow> settled (execute_select E n s db q ps)"
  by (rule execute_select_settles [where rank = vrank])
    (auto simp: code_ranked_def view_depth_def split: option.split intro: le_less_trans [OF Suc_leI])

lemma validate_settles [settles]: "settled (validate_constraints E s db schema r rid)"
  by (auto simp: validate_constraints_def check_not_null_def check_column_unique_def check_group_def
      check_foreign_key_def check_column_check_def check_table_check_def eval_check_def violation_def Let_def
      intro!: settles split: option.split sum.split list.split statement.split set_expr.split select_item.split prod.split)

lemma trigger_condition_settles [settles]: "settled (trigger_condition E db old_row new_row trg s)"
  by (auto simp: trigger_condition_def intro!: settles split: option.split sum.split prod.split)

lemma eval_tuple_settles [settles]: "settled (eval_tuple E ps ces i r)"
  by (induction ces arbitrary: i r) (auto intro!: settles split: prod.split)

lemma eval_assignments_settles [settles]: "settled (eval_assignments E old_row ps as i r)"
  by (induction as arbitrary: i r) (auto intro!: settles split: prod.split)

lemma matching_rows_settles [settles]: "settled (matching_rows E s db ref ps selection i)"
  by (auto simp: matching_rows_def intro!: settles split: prod.split)

text \<open>The handlers answer when the bodies of the triggers do.\<close>

locale body_runner =
  fixes E :: "('x) env_scheme" and db :: u32 and rank :: "string \<Rightarrow> nat" and vrank :: "string \<Rightarrow> nat"
    and K :: nat and k :: nat and run :: "statement \<Rightarrow> (kvs, query_result) exec"
  assumes run_returns:
    "row_statement st \<Longrightarrow> statement_rank E rank st \<le> k \<Longrightarrow> returns (code_ranked E db rank vrank K) (run st)"
begin

lemma run_body_returns:
  assumes "\<And>stmts st. parse_sql E body = Inr stmts \<Longrightarrow> st \<in> set stmts \<Longrightarrow>
      row_statement st \<and> statement_rank E rank st \<le> k"
  shows "returns (code_ranked E db rank vrank K) (run_body E run body)"
proof (cases "parse_sql E body")
  case (Inr stmts)
  have "returns (code_ranked E db rank vrank K) (ebind (run st) (\<lambda>_. eret ()))" if "st \<in> set stmts" for st
    using run_returns [of st] assms [OF Inr that] by (intro returns_bind returns_basic) auto
  then show ?thesis by (simp add: run_body_def Inr returns_iter)
qed (simp add: run_body_def)

lemma fire_triggers_returns:
  assumes "rank t \<le> k"
  shows "returns (code_ranked E db rank vrank K) (fire_triggers E run db t ev tm old_row new_row)"
  unfolding returns_def
proof (intro allI impI)
  fix s assume s: "code_ranked E db rank vrank K s"
  have body: "returns (code_ranked E db rank vrank K)
      (run_body E run (substitute_trigger_variables (tr_body trg) old_row new_row))"
    if "trg \<in> set (get_triggers s db t)" for trg
    by (rule run_body_returns) (use s that assms in \<open>force simp: code_ranked_def triggers_ranked_def\<close>)
  have "returns (code_ranked E db rank vrank K) (fire_trigger E run db ev tm old_row new_row trg)"
    if "trg \<in> set (get_triggers s db t)" for trg
    using body [OF that] by (auto simp: fire_trigger_def intro!: returns_bind returns_elift settles)
  then have "returns (code_ranked E db rank vrank K)
      (eiter (fire_trigger E run db ev tm old_row new_row) (get_triggers s db t))"
    by (rule returns_iter)
  from returnsD [OF this s]
  show "settled (fst (fire_triggers E run db t ev tm old_row new_row s)) \<and>
      code_ranked E db rank vrank K (snd (fire_triggers E run db t ev tm old_row new_row s))"
    by (simp add: fire_triggers_def ebind_def eget_def)
qed

lemma insert_row_returns:
  assumes "rank t \<le> k"
  shows "returns (code_ranked E db rank vrank K) (insert_row E run db t schema ref tx r0)"
proof -
  have "returns (code_ranked E db rank vrank K) (get_next_rowid db t)"
    by (simp add: returns_def get_next_rowid_def code_ranked_writes)
  then show ?thesis
    unfolding insert_row_def Let_def
    by (intro returns_bind returns_elift returns_emodify fire_triggers_returns [OF assms] settles)
      (simp_all add: code_ranked_writes)
qed

lemma update_row_returns:
  assumes "rank t \<le> k"
  shows "returns (code_ranked E db rank vrank K) (update_row E run db t schema ref tx assigns ps entry)"
  unfolding update_row_def Let_def
  by (cases entry, simp only: prod.case,
      intro returns_bind returns_elift returns_emodify fire_triggers_returns [OF assms] settles)
    (simp add: code_ranked_writes)

lemma delete_row_returns:
  assumes "rank t \<le> k"
  shows "returns (code_ranked E db rank vrank K) (delete_row E run db t ref tx entry)"
  unfolding delete_row_def Let_def
  by (cases entry, simp only: prod.case,
      intro returns_bind returns_elift returns_emodify fire_triggers_returns [OF assms] settles)
    (simp add: code_ranked_writes)

lemma candidate_rows_settles:
  "code_ranked E db rank vrank K s \<Longrightarrow> K < n \<Longrightarrow> settled (candidate_rows E n s db cols source ps)"
  by (auto simp: candidate_rows_def intro!: settles select_returns split: option.split set_expr.split)

lemma execute_insert_returns:
  assumes "rank (object_name_to_string E name) \<le> k" "K < n"
  shows "returns (code_ranked E db rank vrank K) (execute_insert E n run db name cols source ps tx)"
proof -
  have loop: "returns (code_ranked E db rank vrank K)
      (ebind (elift (\<lambda>s. candidate_rows E n s db (insert_columns schema cols) source ps)) (\<lambda>rows.
         ebind (eiter (insert_row E run db (object_name_to_string E name) schema ref tx) rows)
           (\<lambda>_. eret (qr_affected_rows (word_of_nat (length rows))))))" for schema ref
    by (intro returns_bind returns_elift returns_basic returns_iter insert_row_returns [OF assms(1)]
        candidate_rows_settles [OF _ assms(2)])
  show ?thesis
    unfolding returns_def execute_insert_def Let_def
    using returnsD [OF loop] by (auto split: option.split)
qed

lemma execute_update_returns:
  assumes "rank (factor_name E relation) \<le> k"
  shows "returns (code_ranked E db rank vrank K) (execute_update E run db relation assigns selection ps tx)"
proof -
  have loop: "returns (code_ranked E db rank vrank K)
      (ebind (elift (\<lambda>s. matching_rows E s db ref ps selection (set_param_count assigns))) (\<lambda>entries.
         ebind (eiter (update_row E run db (factor_name E relation) schema ref tx assigns ps) entries)
           (\<lambda>_. eret (qr_affected_rows (word_of_nat (length entries))))))" for schema ref
    by (intro returns_bind returns_elift returns_basic returns_iter update_row_returns [OF assms] settles)
  show ?thesis
    unfolding returns_def execute_update_def Let_def
    using returnsD [OF loop] by (auto split: option.split)
qed

lemma execute_delete_returns:
  assumes "\<And>t. delete_target E tables from = Some t \<Longrightarrow> rank t \<le> k"
  shows "returns (code_ranked E db rank vrank K) (execute_delete E run db tables from selection ps tx)"
proof -
  have loop: "returns (code_ranked E db rank vrank K)
      (ebind (elift (\<lambda>s. matching_rows E s db ref ps selection 0)) (\<lambda>entries.
         ebind (eiter (delete_row E run db t ref tx) entries)
           (\<lambda>_. eret (qr_affected_rows (word_of_nat (length entries))))))"
    if "delete_target E tables from = Some t" for t ref
    by (intro returns_bind returns_elift returns_basic returns_iter delete_row_returns [OF assms [OF that]] settles)
  show ?thesis
    unfolding returns_def execute_delete_def
    using returnsD [OF loop] by (auto split: option.split)
qed

end

lemma single_statement_returns:
  "row_statement st \<Longrightarrow> K + statement_rank E rank st < n \<Longrightarrow>
   returns (code_ranked E db rank vrank K) (execute_single_statement E n db st ps tx)"
proof (induction n arbitrary: st ps)
  case (Suc n)
  let ?run = "\<lambda>st. execute_single_statement E n db st [] tx"
  have r: "body_runner E db rank vrank K k ?run" if "K + k < n" for k
    by unfold_locales (use Suc.IH that in simp)
  show ?case
  proof (cases st)
    case (SQuery q)
    then show ?thesis
      using Suc.prems(2) by (auto simp: Let_def intro!: returns_elift select_returns simp del: execute_select.simps)
  next
    case (SInsert name cols source)
    let ?k = "rank (object_name_to_string E name)"
    have "K + ?k < n" using Suc.prems(2) by (simp add: SInsert statement_rank_def)
    from body_runner.execute_insert_returns [OF r [OF this], of name "Suc n" cols source ps tx] this show ?thesis
      by (simp add: SInsert Let_def)
  next
    case (SUpdate relation assigns selection)
    let ?k = "rank (factor_name E relation)"
    have "K + ?k < n" using Suc.prems(2) by (simp add: SUpdate statement_rank_def)
    from body_runner.execute_update_returns [OF r [OF this], of relation assigns selection ps tx] show ?thesis
      by (simp add: SUpdate Let_def)
  next
    case (SDelete tables froms selection)
    show ?thesis
    proof (cases "delete_target E tables froms")
      case None
      then show ?thesis by (simp add: SDelete Let_def returns_def execute_delete_def)
    next
      case (Some t)
      have "K + rank t < n" using Suc.prems(2) Some by (simp add: SDelete statement_rank_def)
      from body_runner.execute_delete_returns [OF r [OF this], of tables froms selection ps tx] Some show ?thesis
        by (simp add: SDelete Let_def)
    qed
  qed (use Suc.prems(1) in \<open>auto simp: row_statement_def\<close>)
qed simp

interpretation engine_bodies:
  body_runner E db rank vrank K k "\<lambda>st. execute_single_statement E (Suc (K + k + d)) db st [] tx"
  for E db rank vrank K k d tx
  by unfold_locales (rule single_statement_returns; simp)

text \<open>C21. A SELECT, INSERT, UPDATE or DELETE returns, whatever its outcome, when
  views and triggers are acyclic: each trigger body parses to row statements on tables of lower rank,
  each view reads a view of lower rank at most. The bound is the rank of the statement's table plus that of the views.\<close>

theorem row_statements_return:
  assumes trg: "triggers_ranked E s db rank" and views: "views_ranked E s db vrank" "\<And>v. vrank v < K"
    and st: "row_statement stmt" "K + statement_rank E rank stmt < n"
  shows "fst (execute_statement E n db stmt ps tx s) \<noteq> NoFuel"
proof -
  have s: "code_ranked E db rank vrank K s" using trg views by (simp add: code_ranked_def)
  have run: "settled (fst (execute_single_statement E n db stmt ps i s1))"
    if "code_ranked E db rank vrank K s1" for i s1
    using returnsD [OF single_statement_returns [OF st] that] by blast
  have begun: "code_ranked E db rank vrank K (snd (txn_begin db s))"
    using s code_ranked_cong [of "snd (txn_begin db s)" s E db rank vrank K]
    by (simp add: txn_begin_def set_txns_def Let_def)
  obtain i s1 where b: "txn_begin db s = (Done i, s1)" by (simp add: txn_begin_def Let_def)
  have "settled (fst (run_atomic db (\<lambda>shadow. execute_single_statement E n db stmt ps (Some shadow)) s))"
    using run [of s1 "Some i"] begun
    by (auto simp: run_atomic_def ebind_def b split: prod.split outcome.split)
  moreover have "settled (fst (execute_single_statement E n db stmt ps tx s))" by (rule run [OF s])
  moreover have "stmt \<noteq> SStartTransaction \<and> stmt \<noteq> SCommit \<and> stmt \<noteq> SRollback"
    using st(1) by (auto simp: row_statement_def)
  ultimately show ?thesis
    by (cases stmt) (auto simp: execute_statement_def settled_def)
qed

section \<open>Concrete code\<close>

text \<open>A trigger on \<open>t\<close> that writes \<open>u\<close>: \<open>CREATE TRIGGER log AFTER INSERT ON t BEGIN ... END\<close>.\<close>

definition insert_into :: "string \<Rightarrow> string \<Rightarrow> statement" where
  "insert_into t n = SInsert [nm t] [nm ''a'']
     (Some \<lparr>q_body = ValuesBody [[ValueE (Number n)]], q_order_by = [], q_limit = None, q_offset = None\<rparr>)"

definition log_env :: env where
  "log_env = plain_env\<lparr>parse_sql := \<lambda>_. Inr [insert_into ''u'' ''0'']\<rparr>"

definition log_trigger :: trigger_def where
  "log_trigger = \<lparr>tr_name = ''log'', tr_timing = TAfter, tr_event = TInsert, tr_table = ''t'', tr_for_each_row = True,
     tr_condition = None, tr_body = ''INSERT INTO u (a) VALUES (0)''\<rparr>"

definition log_state :: kvs where
  "log_state = add_trigger 0 ''t'' log_trigger (demo_state False [] 1 [])"

definition table_rank :: "string \<Rightarrow> nat" where
  "table_rank t = (if t = ''t'' then 1 else 0)"

theorem row_statements_return_witness:
  "fst (execute_statement log_env 4 0 (insert_into ''t'' ''5'') [] None log_state) \<noteq> NoFuel"
proof (rule row_statements_return [where rank = table_rank and vrank = "\<lambda>_. 0" and K = 1])
  have "get_triggers log_state 0 t = (if t = ''t'' then [log_trigger] else [])" for t
    by (simp add: log_state_def add_trigger_def get_triggers_def demo_state_def kvs_empty_def outer_def)
  then show "triggers_ranked log_env log_state 0 table_rank"
    by (auto simp: triggers_ranked_def log_env_def insert_into_def row_statement_def statement_rank_def table_rank_def)
  show "views_ranked log_env log_state 0 (\<lambda>_. 0)"
    by (simp add: views_ranked_def log_state_def add_trigger_def get_view_definition_def demo_state_def kvs_empty_def Let_def)
qed (simp_all add: insert_into_def row_statement_def statement_rank_def table_rank_def log_env_def)

section \<open>A view on itself\<close>

lemma execute_select_cycle:
  assumes "parse_view E sql = Done q" "query_view E s db q = Some v" "get_view_definition s db v = Some sql"
  shows "execute_select E n s db q ps = NoFuel"
proof (induction n)
  case (Suc n)
  obtain sel tj sql' where q: "q_body q = SelectBody sel" "sel_from sel = [tj]" "tj_joins tj = []"
    "resolve_from E s db (tj_relation tj) = (v, Some sql')" "get_view_definition s db v = Some sql'"
    by (rule execute_select_view [OF assms(2)])
  have "sql' = sql" using q(5) assms(3) by simp
  then show ?case using Suc.IH assms(1) by (simp add: q(1-4))
qed simp

definition from_v :: query where
  "from_v = \<lparr>q_body = SelectBody \<lparr>sel_distinct = False, sel_projection = [Wildcard],
       sel_from = [\<lparr>tj_relation = TableFactor [nm ''v''] None, tj_joins = []\<rparr>],
       sel_selection = None, sel_group_by = GroupByExprs []\<rparr>,
     q_order_by = [], q_limit = None, q_offset = None\<rparr>"

definition loop_env :: env where
  "loop_env = plain_env\<lparr>query_to_string := \<lambda>_. ''SELECT * FROM v'',
     parse_sql := \<lambda>sql. if sql = ''SELECT * FROM v'' then Inr [SQuery from_v] else Inl ''no parser''\<rparr>"

text \<open>C39. \<open>CREATE VIEW v AS SELECT * FROM v\<close> is accepted, and from then on
  \<open>SELECT * FROM v\<close> never answers: no recursion bound is enough (in the code, the stack overflows).\<close>

theorem self_view_never_answers:
  "fst (execute_statement loop_env 1 0 (SCreateView [nm ''v''] from_v) [] None (demo_state False [] 1 [])) = Done qr_empty \<and>
   (\<forall>n. fst (execute_statement loop_env n 0 (SQuery from_v) [] None
      (snd (execute_statement loop_env 1 0 (SCreateView [nm ''v''] from_v) [] None (demo_state False [] 1 [])))) = NoFuel)"
proof -
  let ?x = "execute_statement loop_env 1 0 (SCreateView [nm ''v''] from_v) [] None (demo_state False [] 1 [])"
  have v: "fst ?x = Done qr_empty" "get_view_definition (snd ?x) 0 ''v'' = Some ''SELECT * FROM v''"
    "parse_view loop_env ''SELECT * FROM v'' = Done from_v" "query_view loop_env (snd ?x) 0 from_v = Some ''v''"
    by code_simp+
  have "fst (execute_statement loop_env n 0 (SQuery from_v) [] None (snd ?x)) = NoFuel" for n
    using execute_select_cycle [OF v(3,4,2)] by (cases n) (simp_all add: execute_statement_def elift_def Let_def del: execute_select.simps)
  with v(1) show ?thesis by simp
qed

section \<open>Trigger bodies as text\<close>

text \<open>OLD and NEW references are replaced as text, column by column: with the columns \<open>a\<close> and \<open>ab\<close>, the
  reference \<open>NEW.ab\<close> becomes the value of \<open>a\<close> followed by a b.\<close>

theorem trigger_reference_prefix:
  "substitute_trigger_variables ''SET x = NEW.ab'' None (Some [(''a'', VInteger 1), (''ab'', VInteger 2)]) = ''SET x = 1b''"
  by code_simp

end
