(* ===== verification/Skvs_Scalar.thy ===== *)
theory Skvs_Scalar
  imports Skvs_Expr_Facts Skvs_Json Skvs_Demo
begin

text \<open>
  The values an expression yields: \<open>LIKE\<close> is pattern matching on the two texts, integer arithmetic is
  exact up to 53 bits (the code computes it on floats) and rounds beyond, and what \<open>json_set\<close> writes at
  a path \<open>json_extract\<close> reads back.
\<close>

section \<open>LIKE\<close>

text \<open>C33. \<open>LIKE\<close> and \<open>ILIKE\<close> on texts are pattern matching with \<open>%\<close> for any
  run of characters and \<open>_\<close> for one, negated by \<open>NOT\<close>; \<open>ILIKE\<close> ignores case.\<close>

theorem like_is_pattern:
  assumes "eval E ctx ps e i = Done (VText str, j)" "eval E ctx ps p j = Done (VText pat, k)"
  shows "eval E ctx ps (Like negated e p) i = Done (bool_val (like_spec str pat \<noteq> negated), k) \<and>
    eval E ctx ps (ILike negated e p) i =
      Done (bool_val (like_spec (to_lowercase str) (to_lowercase pat) \<noteq> negated), k)"
  using assms by (simp add: sql_like_match_def like_match_spec)

theorem like_is_pattern_witness:
  "eval plain_env None [] (Like False (ValueE (SingleQuotedString ''skvs'')) (ValueE (SingleQuotedString ''s%_''))) 0 =
     Done (VInteger 1, 0)"
proof -
  have "like_spec ''skvs'' ''s%_''" unfolding like_match_spec [symmetric] by code_simp
  then show ?thesis
    using like_is_pattern [of plain_env None "[]" "ValueE (SingleQuotedString ''skvs'')" 0 "''skvs''" 0
        "ValueE (SingleQuotedString ''s%_'')" "''s%_''" 0 False]
    by (simp add: bool_val_def)
qed

section \<open>Integer arithmetic\<close>

text \<open>The operators whose result stays an integer, and what they mean.\<close>

fun int_result :: "binary_operator \<Rightarrow> int \<Rightarrow> int \<Rightarrow> int option" where
  "int_result BPlus a b = Some (a + b)"
| "int_result BMinus a b = Some (a - b)"
| "int_result BMultiply a b = Some (a * b)"
| "int_result _ a b = None"

lemma int_result_small:
  assumes "small_int a" "small_int b" "int_result op (sint a) (sint b) = Some z" "\<bar>z\<bar> \<le> 2 ^ 53"
  shows "arithmetic (VInteger a) op (VInteger b) = Done (VInteger (word_of_int z))"
proof (cases op)
  case BPlus
  then have "word_of_int z = a + b" using assms(3) by (auto simp: wi_hom_syms)
  then show ?thesis using arithmetic_exact(1) [OF assms(1,2)] assms(3,4) BPlus by auto
next
  case BMinus
  then have "word_of_int z = a - b" using assms(3) by (auto simp: wi_hom_syms)
  then show ?thesis using arithmetic_exact(2) [OF assms(1,2)] assms(3,4) BMinus by auto
next
  case BMultiply
  then have "word_of_int z = a * b" using assms(3) by (auto simp: wi_hom_syms)
  then show ?thesis using arithmetic_exact(3) [OF assms(1,2)] assms(3,4) BMultiply by auto
qed (use assms(3) in auto)

text \<open>C34. Although \<open>+\<close>, \<open>-\<close> and \<open>*\<close> are computed on floats, on integers they
  are exact when the operands and the result are within 53 bits.\<close>

theorem integer_arithmetic_exact:
  assumes "eval E ctx ps l i = Done (VInteger a, j)" "eval E ctx ps r j = Done (VInteger b, k)"
    and "\<bar>sint a\<bar> \<le> 2 ^ 53" "\<bar>sint b\<bar> \<le> 2 ^ 53"
    and z: "int_result op (sint a) (sint b) = Some z" "\<bar>z\<bar> \<le> 2 ^ 53"
  shows "\<exists>c. eval E ctx ps (BinaryOp l op r) i = Done (VInteger c, k) \<and> sint c = z"
proof -
  have "arithmetic (VInteger a) op (VInteger b) = Done (VInteger (word_of_int z))"
    by (rule int_result_small [OF _ _ z]) (use assms(3,4) in \<open>simp_all add: small_int_def\<close>)
  moreover have "op = BPlus \<or> op = BMinus \<or> op = BMultiply" using z(1) by (cases op) auto
  moreover have "sint (word_of_int z :: i64) = z"
    using z(2) by (auto simp: signed_of_int signed_take_bit_int_eq_self_iff abs_le_iff)
  ultimately show ?thesis
    using assms(1,2) by (intro exI [of _ "word_of_int z"]) (auto simp: binary_value_def)
qed

theorem integer_arithmetic_exact_witness:
  "\<exists>c. eval plain_env None [] (BinaryOp (ValueE (Number ''9007199254740000'')) BPlus (ValueE (Number ''992''))) 0 =
      Done (VInteger c, 0) \<and> sint c = 9007199254740992"
proof (rule integer_arithmetic_exact)
  show "eval plain_env None [] (ValueE (Number ''9007199254740000'')) 0 = Done (VInteger 9007199254740000, 0)"
    "eval plain_env None [] (ValueE (Number ''992'')) 0 = Done (VInteger 992, 0)"
    by code_simp+
qed simp_all

text \<open>Beyond 53 bits the sum of two integers is that of the nearest floats: \<open>2^53 + 1 + 0\<close> is \<open>2^53\<close>.\<close>

theorem large_integers_round:
  "eval plain_env None [] (BinaryOp (ValueE (Number ''9007199254740993'')) BPlus (ValueE (Number ''0''))) 0 =
     Done (VInteger 9007199254740992, 0)"
proof -
  have "eval plain_env None [] (ValueE (Number ''9007199254740993'')) 0 = Done (VInteger 9007199254740993, 0)"
    "eval plain_env None [] (ValueE (Number ''0'')) 0 = Done (VInteger 0, 0)"
    by code_simp+
  then show ?thesis using arithmetic_rounds by (simp add: binary_value_def)
qed

section \<open>JSON paths\<close>

lemma number_as_of_i64: "number_as_i64 (number_of_i64 i) = Some i"
proof (cases "0 \<le> sint i")
  case True
  then have "uint i = sint i" using uint_sint [of i] sint_lt [of i] by (simp add: take_bit_int_eq_self)
  then show ?thesis using True sint_lt [of i] by (simp add: number_of_i64_def)
qed (simp add: number_of_i64_def)

lemma json_scalar_back:
  "v = VNull \<or> v = VInteger i \<or> v = VText t \<Longrightarrow> json_value_to_skvs c (skvs_value_to_json c v) = v"
  by (auto simp: number_as_of_i64)

lemma json_set_found:
  assumes "json_set c doc path v = Done out" "\<And>j. json_to_string c j = out \<Longrightarrow> json_from_str c out = Inr j"
  obtains j where "json_from_str c out = Inr j" "json_at j (split_char (CHR ''.'') path) = Some (skvs_value_to_json c v)"
  using assms json_set_at_get split_char_nonempty
  by (auto simp: json_set_def outcome_simps split: sum.splits)

text \<open>C35. What \<open>json_set\<close> writes at a dotted path, \<open>json_extract\<close> reads back from
  the document it returned, converted to JSON and back; for nulls, integers and texts that is the value itself.\<close>

theorem json_set_then_extract:
  assumes "json_set c doc path v = Done out" "path \<noteq> []"
    and "\<And>j. json_to_string c j = out \<Longrightarrow> json_from_str c out = Inr j"
  shows "json_extract c out (''$.'' @ path) = Done (json_value_to_skvs c (skvs_value_to_json c v)) \<and>
    (case v of VReal f \<Rightarrow> True | VBlob b \<Rightarrow> True | _ \<Rightarrow> json_extract c out (''$.'' @ path) = Done v)"
proof -
  obtain j where j: "json_from_str c out = Inr j" "json_at j (split_char (CHR ''.'') path) = Some (skvs_value_to_json c v)"
    by (rule json_set_found [OF assms(1,3)]) auto
  have "json_extract c out (''$.'' @ path) = Done (json_value_to_skvs c (skvs_value_to_json c v))"
    using assms(2) json_walk_at [OF j(2), of c] by (simp add: json_extract_def j(1) strip_char_def)
  then show ?thesis using json_scalar_back [of v _ _ c] by (auto split: skvs_value.split)
qed

text \<open>A serialiser that knows two documents.\<close>

definition tiny_doc :: json where
  "tiny_doc = JObject [(''a'', JObject [(''b'', JString ''x'')])]"

definition tiny_env :: env where
  "tiny_env = plain_env\<lparr>json_to_string := \<lambda>j. if j = tiny_doc then ''doc'' else ''{}'',
     json_from_str := \<lambda>s. Inr (if s = ''doc'' then tiny_doc else JObject [])\<rparr>"

theorem json_set_then_extract_witness:
  "json_set tiny_env ''{}'' ''a.b'' (VText ''x'') = Done ''doc'' \<and>
   json_extract tiny_env ''doc'' ''$.a.b'' = Done (VText ''x'')"
proof -
  have set: "json_set tiny_env ''{}'' ''a.b'' (VText ''x'') = Done ''doc''" by code_simp
  have "json_from_str tiny_env ''doc'' = Inr j" if "json_to_string tiny_env j = ''doc''" for j
    using that by (simp add: tiny_env_def split: if_splits)
  from json_set_then_extract [OF set _ this] set show ?thesis by simp
qed

text \<open>\<open>json_set\<close> does not strip \<open>$.\<close>: it creates a key \<open>$\<close> that no path of \<open>json_extract\<close> of that form reads.\<close>

theorem json_set_dollar_path_misses:
  "json_set_at (JObject []) (split_char (CHR ''.'') ''$.a'') (JString ''x'') =
     Done (JObject [(''$'', JObject [(''a'', JString ''x'')])]) \<and>
   json_walk plain_env (JObject [(''$'', JObject [(''a'', JString ''x'')])])
     (split_char (CHR ''.'') (strip_char (CHR ''.'') (strip_char (CHR ''$'') ''$.a''))) = Done VNull"
  by code_simp

end
