(* ===== verification/Skvs_Fts_Rank.thy ===== *)
theory Skvs_Fts_Rank
  imports Skvs_Fts Skvs_Order
begin

text \<open>
  The ranked search of \<^verbatim>\<open>src/src/fts.rs\<close> (\<open>FtsIndex::search_with_rank\<close>, which no statement
  calls): what it finds and in which order. The natural logarithm is a parameter, since the standard
  library leaves its last bit to the platform.
\<close>

section \<open>The score\<close>

text \<open>
  The logarithm is a parameter \<open>nlog\<close>; \<open>ids\<close> lists the row ids in the order the hash maps iterate.
\<close>

definition average_length :: "rowid list \<Rightarrow> fts_index \<Rightarrow> f64" where
  "average_length ids ix =
     f64_div (f64_of_int (int (\<Sum>r\<leftarrow>ids. case fi_doc_lengths ix r of Some n \<Rightarrow> n | None \<Rightarrow> 0)))
       (f64_of_int (uint (fi_total_docs ix)))"

definition inverse_frequency :: "(f64 \<Rightarrow> f64) \<Rightarrow> fts_index \<Rightarrow> rowid set \<Rightarrow> f64" where
  "inverse_frequency nlog ix docs =
     (let doc_freq = f64_of_int (int (card docs)) in
      nlog (f64_add (f64_div (f64_add (f64_sub (f64_of_int (uint (fi_total_docs ix))) doc_freq) (FFin (1 / 2)))
                           (f64_add doc_freq (FFin (1 / 2)))) (FFin 1)))"

definition token_score :: "f64 \<Rightarrow> f64 \<Rightarrow> fts_index \<Rightarrow> rowid \<Rightarrow> f64" where
  "token_score idf avg ix doc =
     (let q = f64_div (f64_of_int (case fi_doc_lengths ix doc of Some n \<Rightarrow> int n | None \<Rightarrow> 0)) avg in
      f64_mul idf (f64_div (f64_add q (FFin (1 / 2))) (f64_add q (FFin 1))))"

text \<open>\<open>*scores.entry(doc_id).or_insert(0.0) += score\<close>.\<close>

definition add_score :: "f64 \<Rightarrow> f64 option \<Rightarrow> f64" where
  "add_score sc old = f64_add (case old of Some x \<Rightarrow> x | None \<Rightarrow> FFin 0) sc"

fun rank_tokens ::
  "(f64 \<Rightarrow> f64) \<Rightarrow> f64 \<Rightarrow> fts_index \<Rightarrow> string list \<Rightarrow> (rowid \<Rightarrow> f64 option) \<Rightarrow> (rowid \<Rightarrow> f64 option)" where
  "rank_tokens nlog avg ix [] scores = scores"
| "rank_tokens nlog avg ix (tok # toks) scores =
     rank_tokens nlog avg ix toks
       (case fi_inverted ix tok of
          Some docs \<Rightarrow>
            (let idf = inverse_frequency nlog ix docs in
             (\<lambda>d. if d \<in> docs then Some (add_score (token_score idf avg ix d) (scores d)) else scores d))
        | None \<Rightarrow> scores)"

definition rank_compare :: "rowid \<times> f64 \<Rightarrow> rowid \<times> f64 \<Rightarrow> ordering" where
  "rank_compare a b = unwrap_equal (f64_partial_cmp (snd b) (snd a))"

definition search_with_rank ::
  "(f64 \<Rightarrow> f64) \<Rightarrow> rowid list \<Rightarrow> fts_index \<Rightarrow> string \<Rightarrow> (rowid \<times> f64) list" where
  "search_with_rank nlog ids ix query =
     (let tokens = tokenize query in
      if tokens = [] then []
      else (let scores = rank_tokens nlog (average_length ids ix) ix tokens (\<lambda>_. None)
            in sort_by rank_compare
                 (List.map_filter (\<lambda>d. map_option (Pair d) (scores d)) ids)))"

section \<open>What it finds, and in which order\<close>

lemma dom_rank_tokens:
  "dom (rank_tokens nlog avg ix toks scores) = dom scores \<union> (\<Union>tok\<in>set toks. postings (fi_inverted ix) tok)"
  by (induction toks arbitrary: scores)
    (auto simp: postings_def Let_def split: option.split option.split_asm if_splits)

lemma map_filter_keys:
  "map fst (List.map_filter (\<lambda>d. map_option (Pair d) (m d)) ids) = filter (\<lambda>d. m d \<noteq> None) ids"
  by (induction ids) (auto simp: List.map_filter_def)

lemma fst_map_filter:
  "fst ` set (List.map_filter (\<lambda>d. map_option (Pair d) (m d)) ids) = {d \<in> set ids. m d \<noteq> None}"
proof -
  have "set (map fst (List.map_filter (\<lambda>d. map_option (Pair d) (m d)) ids)) = {d \<in> set ids. m d \<noteq> None}"
    unfolding map_filter_keys by simp
  then show ?thesis by simp
qed

lemma distinct_fst_sort_by: "distinct (map fst (sort_by cmp xs)) \<longleftrightarrow> distinct (map fst xs)"
proof -
  have "mset (map fst (sort_by cmp xs)) = mset (map fst xs)" by simp
  then show ?thesis by (rule mset_eq_imp_distinct_iff)
qed

lemma rank_compare_preorders:
  assumes "\<And>x. x \<in> S \<Longrightarrow> \<not> f64_is_nan (snd x)"
  shows "preorders S rank_compare"
proof -
  have "rank_compare a b = cmp_of (value_key (VReal (snd b))) (value_key (VReal (snd a)))" if "a \<in> S" "b \<in> S" for a b
    using value_compare_key [of "VReal (snd b)" "VReal (snd a)"] assms that by (simp add: rank_compare_def)
  then show ?thesis
    unfolding preorders_def by (auto simp: cmp_of_def split: if_splits)
qed

lemma search_with_rank_rows:
  assumes "fts_covers ix docs" "dom docs \<subseteq> set ids"
  shows "fst ` set (search_with_rank nlog ids ix query) =
    {r. \<exists>c. docs r = Some c \<and> set (tokenize query) \<inter> set (tokenize c) \<noteq> {}}"
proof -
  let ?scores = "rank_tokens nlog (average_length ids ix) ix (tokenize query) (\<lambda>_. None)"
  have "dom ?scores = {r. \<exists>c. docs r = Some c \<and> set (tokenize query) \<inter> set (tokenize c) \<noteq> {}}"
    using assms(1) by (auto simp: dom_rank_tokens fts_covers_def)
  moreover have "dom ?scores \<subseteq> set ids" using calculation assms(2) by auto
  ultimately have "{d \<in> set ids. ?scores d \<noteq> None} = {r. \<exists>c. docs r = Some c \<and> set (tokenize query) \<inter> set (tokenize c) \<noteq> {}}"
    by blast
  then show ?thesis
    by (cases "tokenize query = []") (simp_all add: search_with_rank_def Let_def fst_map_filter)
qed

text \<open>C36. On an index that covers a set of documents the ranked search returns each
  document that has a word of the query, once, in order of descending score when no score is NaN;
  what the plain search finds (all words) is among them.\<close>

theorem ranked_search_is_disjunctive:
  assumes "fts_covers ix docs" "distinct ids" "dom docs \<subseteq> set ids"
    and "search_with_rank nlog ids ix query = ranked" "\<forall>(r, sc)\<in>set ranked. \<not> f64_is_nan sc"
  shows "fst ` set ranked = {r. \<exists>c. docs r = Some c \<and> set (tokenize query) \<inter> set (tokenize c) \<noteq> {}} \<and>
    fts_search ix query \<subseteq> fst ` set ranked \<and> distinct (map fst ranked) \<and>
    sorted_wrt (\<lambda>a b. f64_partial_cmp (snd b) (snd a) \<noteq> Some Greater) ranked"
proof (intro conjI)
  show rows: "fst ` set ranked = {r. \<exists>c. docs r = Some c \<and> set (tokenize query) \<inter> set (tokenize c) \<noteq> {}}"
    using search_with_rank_rows [OF assms(1,3)] assms(4) by blast
  show "fts_search ix query \<subseteq> fst ` set ranked"
    unfolding rows fts_search_spec [OF assms(1)] by (auto dest: hd_in_set)
  show "distinct (map fst ranked)"
    using assms(2,4) by (auto simp: search_with_rank_def Let_def distinct_fst_sort_by map_filter_keys)
  obtain xs where xs: "ranked = sort_by rank_compare xs"
    using assms(4) that [of "[]"] by (auto simp: search_with_rank_def Let_def sort_by_def split: if_splits)
  have "preorders (set xs) rank_compare"
    using assms(5) xs by (intro rank_compare_preorders) auto
  moreover have "sorted_wrt (\<lambda>_ _. True) xs" by (simp add: sorted_wrt_iff_nth_less)
  ultimately have "sorted_wrt (refines rank_compare (\<lambda>_ _. True)) ranked"
    unfolding xs by (rule sort_by_refines)
  then show "sorted_wrt (\<lambda>a b. f64_partial_cmp (snd b) (snd a) \<noteq> Some Greater) ranked"
    by (rule sorted_wrt_mono_rel [rotated]) (auto simp: refines_def rank_compare_def unwrap_equal_def)
qed

section \<open>One document\<close>

lemma round64_not_nan [simp]: "\<not> f64_is_nan (round64 neg r)"
  by (simp add: round64_def Let_def)

lemma f64_div_not_nan: "\<not> f64_is_nan a \<Longrightarrow> r \<noteq> 0 \<Longrightarrow> \<not> f64_is_nan (f64_div a (FFin r))"
  by (cases a) (auto simp: f64_div_def Let_def)

lemma f64_add_not_nan:
  "\<not> f64_is_nan a \<Longrightarrow> \<not> f64_is_nan (f64_add a (FFin r)) \<and> \<not> f64_is_nan (f64_add (FFin r) a)"
  by (cases a) (auto simp: f64_add_def Let_def)

lemma f64_mul_one_not_nan: "\<not> f64_is_nan a \<Longrightarrow> \<not> f64_is_nan (f64_mul (FFin 1) a)"
  by (cases a) (auto simp: f64_mul_def Let_def)

definition one_note :: fts_index where
  "one_note = add_document fts_new 1 ''quick''"

lemma round64_int: "\<bar>i\<bar> \<le> 2 ^ 53 \<Longrightarrow> 0 \<le> i \<Longrightarrow> round64 False (of_int i) = FFin (of_int i)"
  using f64_of_int_exact [of i] by (simp add: f64_of_int_def)

lemma one_note_score: "\<not> f64_is_nan (add_score (token_score (FFin 1) (average_length [1] one_note) one_note 1) None)"
proof -
  have toks: "tokenize ''quick'' = [''quick'']" by code_simp
  have one: "round64 False 1 = FFin 1" "round64 False 2 = FFin 2" "f64_of_int 1 = FFin 1"
    using round64_int [of 1] round64_int [of 2] f64_of_int_exact [of 1] by simp_all
  have avg: "average_length [1] one_note = FFin 1"
    by (simp add: average_length_def one_note_def add_document_def fts_new_def toks f64_div_def one)
  have q: "f64_add (FFin 1) (FFin 1) = FFin 2" "f64_div (FFin 1) (FFin 1) = FFin 1"
    using one by (simp_all add: f64_add_def f64_div_def)
  have "\<not> f64_is_nan (token_score (FFin 1) (FFin 1) one_note 1)"
    unfolding token_score_def Let_def
    by (intro f64_mul_one_not_nan)
      (simp add: one_note_def add_document_def fts_new_def toks one q f64_div_not_nan f64_add_not_nan)
  then show ?thesis by (simp add: avg add_score_def f64_add_not_nan)
qed

theorem ranked_search_is_disjunctive_witness:
  "fst ` set (search_with_rank (\<lambda>_. FFin 1) [1] one_note ''the quick dog'') = {1} \<and>
   fts_search one_note ''the quick dog'' = {}"
proof -
  have toks: "tokenize ''quick'' = [''quick'']" "tokenize ''the quick dog'' = [''quick'', ''dog'']" by code_simp+
  have covers: "fts_covers one_note [1 \<mapsto> ''quick'']"
    unfolding one_note_def by (rule add_document_covers [OF fts_covers_new]) simp
  have "search_with_rank (\<lambda>_. FFin 1) [1] one_note ''the quick dog'' =
      [(1, add_score (token_score (FFin 1) (average_length [1] one_note) one_note 1) None)]"
    by (simp add: search_with_rank_def toks List.map_filter_def sort_by_def)
      (simp add: one_note_def add_document_def fts_new_def toks inverse_frequency_def)
  then have "fst ` set (search_with_rank (\<lambda>_. FFin 1) [1] one_note ''the quick dog'') =
      {r. \<exists>c. [1 \<mapsto> ''quick''] r = Some c \<and> set (tokenize ''the quick dog'') \<inter> set (tokenize c) \<noteq> {}}"
    using one_note_score by (intro conjunct1 [OF ranked_search_is_disjunctive [OF covers]]) simp_all
  also have "\<dots> = {1}" by (auto simp: toks split: if_splits)
  finally show ?thesis by (auto simp: fts_search_spec [OF covers] toks split: if_splits)
qed

end
