(* ===== verification/Skvs_Config.thy ===== *)
theory Skvs_Config
  imports Skvs_State
begin

text \<open>
  The configuration of \<^verbatim>\<open>src/src/config.rs\<close>: its records, the defaults, loading from a
  file (reading TOML is a parameter) and its JSON form, which \<open>get_config\<close> of
  \<^verbatim>\<open>src/src/lib.rs\<close> returns.
\<close>

section \<open>Configuration\<close>

record server_config =
  sc_id :: u32
  sc_replication_port :: "16 word"

record peer_config =
  pc_address :: string

record storage_config =
  st_base_dir :: string

record wal_config =
  wc_flush_interval_secs :: u64
  wc_batch_size :: u64

record http_config =
  hc_port :: "16 word"
  hc_trusted_ips :: "string list"
  hc_secret_key :: string

record memory_config =
  mc_max_entries_per_table :: u64

text \<open>\<open>usize\<close> is 64 bits. The database entries are those the state is built from.\<close>

record config =
  cf_server :: server_config
  cf_peer :: "peer_config option"
  cf_storage :: storage_config
  cf_wal :: wal_config
  cf_http :: http_config
  cf_databases :: "database_config list"
  cf_memory :: memory_config

abbreviation cf_base_dir :: "config \<Rightarrow> string" where
  "cf_base_dir cfg \<equiv> st_base_dir (cf_storage cfg)"

abbreviation cf_batch_size :: "config \<Rightarrow> nat" where
  "cf_batch_size cfg \<equiv> unat (wc_batch_size (cf_wal cfg))"

definition memory_default :: memory_config where
  "memory_default = \<lparr>mc_max_entries_per_table = 0\<rparr>"

definition config_default :: config where
  "config_default =
     \<lparr>cf_server = \<lparr>sc_id = 1, sc_replication_port = 9999\<rparr>, cf_peer = None,
      cf_storage = \<lparr>st_base_dir = ''/var/lib/skvs''\<rparr>,
      cf_wal = \<lparr>wc_flush_interval_secs = 1, wc_batch_size = 1000\<rparr>,
      cf_http = \<lparr>hc_port = 3000, hc_trusted_ips = [''127.0.0.1''], hc_secret_key = ''change-me''\<rparr>,
      cf_databases = [\<lparr>dc_id = 0, dc_name = ''default''\<rparr>], cf_memory = memory_default\<rparr>"

text \<open>An \<open>anyhow\<close> error prints its outermost context.\<close>

definition load_config ::
  "(string \<Rightarrow> string + config) \<Rightarrow> (string \<Rightarrow> bytes option) \<Rightarrow> string \<Rightarrow> string + config" where
  "load_config toml files path =
     (case files path of
        None \<Rightarrow> Inl (''Failed to read config file: '' @ path)
      | Some b \<Rightarrow> (case toml (bytes_str b) of
                    Inl _ \<Rightarrow> Inl ''Invalid TOML format''
                  | Inr c \<Rightarrow> Inr c))"

definition load_config_from_default ::
  "(string \<Rightarrow> string + config) \<Rightarrow> (string \<Rightarrow> bytes option) \<Rightarrow> string option \<Rightarrow> string + config" where
  "load_config_from_default toml files env_var =
     load_config toml files (case env_var of Some p \<Rightarrow> p | None \<Rightarrow> ''/etc/skvs/config.toml'')"

section \<open>The configuration as JSON\<close>

text \<open>The derived \<open>Serialize\<close>: a field per key, \<open>None\<close> as null.\<close>

definition json_uint :: "nat \<Rightarrow> json" where
  "json_uint n = JNumber (JPosInt (word_of_nat n))"

definition database_json :: "database_config \<Rightarrow> json" where
  "database_json d = JObject [(''id'', json_uint (unat (dc_id d))), (''name'', JString (dc_name d))]"

definition config_json :: "config \<Rightarrow> json" where
  "config_json c =
     JObject [
       (''server'', JObject [(''id'', json_uint (unat (sc_id (cf_server c)))),
          (''replication_port'', json_uint (unat (sc_replication_port (cf_server c))))]),
       (''peer'', (case cf_peer c of None \<Rightarrow> JNull | Some p \<Rightarrow> JObject [(''address'', JString (pc_address p))])),
       (''storage'', JObject [(''base_dir'', JString (st_base_dir (cf_storage c)))]),
       (''wal'', JObject [(''flush_interval_secs'', json_uint (unat (wc_flush_interval_secs (cf_wal c)))),
          (''batch_size'', json_uint (unat (wc_batch_size (cf_wal c))))]),
       (''http'', JObject [(''port'', json_uint (unat (hc_port (cf_http c)))),
          (''trusted_ips'', JArray (map JString (hc_trusted_ips (cf_http c)))),
          (''secret_key'', JString (hc_secret_key (cf_http c)))]),
       (''databases'', JArray (map database_json (cf_databases c))),
       (''memory'', JObject [(''max_entries_per_table'',
          json_uint (unat (mc_max_entries_per_table (cf_memory c))))])]"

end
