(* ===== verification/Skvs_Raw.thy ===== *)
theory Skvs_Raw
  imports Skvs_Hash_Join
begin

text \<open>
  The raw key-value tables of \<^verbatim>\<open>src/src/state.rs\<close> (\<open>put_raw\<close>, \<open>get_raw\<close>, \<open>remove_raw\<close>, with
  eviction to files) refine a map. The locale \<open>slot_store\<close> is the contract of such a store: what
  a lookup reads after an insert and after a clear; from it, replaying a list of operations is
  the replay on the map (\<open>slot_replay_refines\<close>) and two stores that read alike still do after
  it (\<open>slot_replay_same\<close>), which is what replication relies on. It is interpreted on the
  model's operations (\<open>raw_slots\<close>), for table names that are one path component and a file system
  whose removals do not fail.
\<close>

section \<open>The files of an evicted key\<close>

text \<open>A table name that is one ordinary path component. Paths are compared as text.\<close>

definition plain_table :: "string \<Rightarrow> bool" where
  "plain_table t \<longleftrightarrow> t \<notin> {[], ''.'', ''..''} \<and> CHR ''/'' \<notin> set t"

lemma hex_digit_plain: "d < 16 \<Longrightarrow> hex_digit d \<noteq> CHR ''/''"
proof -
  assume "d < 16"
  then have "(of_char (hex_digit d) :: nat) \<ge> 48" by (simp add: hex_digit_def)
  then show ?thesis by auto
qed

lemma hex_encode_plain: "CHR ''/'' \<notin> set (hex_encode b)"
proof -
  have "unat w < 256" for w :: "8 word" using unsigned_less [where w = w and 'a = nat] by simp
  then have "unat w div 16 < 16 \<and> unat w mod 16 < 16" for w :: "8 word"
    by (simp add: less_mult_imp_div_less)
  then have "hex_digit (unat w div 16) \<noteq> CHR ''/''" "hex_digit (unat w mod 16) \<noteq> CHR ''/''" for w :: "8 word"
    using hex_digit_plain by blast+
  note ne = this [THEN not_sym]
  show ?thesis by (induction b) (simp_all add: hex_encode_def ne)
qed

lemma show_id_plain: "CHR ''/'' \<notin> set (show_int (uint (db :: u32)))"
proof -
  have "list_all is_digit (show_uint (uint db))" using show_uint_digits [of "uint db"] by simp
  moreover have "\<not> is_digit CHR ''/''" by code_simp
  ultimately show ?thesis by (auto simp: show_int_def list_all_iff)
qed

lemma path_join_plain: "CHR ''/'' \<notin> set b \<Longrightarrow> path_join a b = a @ ''/'' @ b"
  by (cases b) (auto simp: path_join_def starts_with_def)

lemma overflow_path_plain:
  "plain_table t \<Longrightarrow> overflow_path s db t k =
     k_overflow_dir s @ ''/'' @ show_int (uint db) @ ''/'' @ t @ ''/'' @ hex_encode k"
  by (simp add: overflow_path_def path_join_plain hex_encode_plain show_id_plain plain_table_def)

lemma show_uint_inj: "0 \<le> m \<Longrightarrow> 0 \<le> n \<Longrightarrow> show_uint m = show_uint n \<longleftrightarrow> m = n"
  by (metis show_uint_digits)

lemma show_id_inj: "show_int (uint a) = show_int (uint b) \<longleftrightarrow> a = (b :: u32)"
  using show_uint_inj [of "uint a" "uint b"] by (simp add: show_int_def word_uint_eq_iff)

lemma overflow_path_inj:
  assumes "plain_table t" "plain_table t'"
  shows "overflow_path s db t k = overflow_path s db' t' k' \<longleftrightarrow> db = db' \<and> t = t' \<and> k = k'"
proof
  assume "overflow_path s db t k = overflow_path s db' t' k'"
  then have e: "show_int (uint db) @ CHR ''/'' # t @ CHR ''/'' # hex_encode k =
      show_int (uint db') @ CHR ''/'' # t' @ CHR ''/'' # hex_encode k'"
    using assms by (simp add: overflow_path_plain)
  then have 1: "show_int (uint db) = show_int (uint db')" "t @ CHR ''/'' # hex_encode k = t' @ CHR ''/'' # hex_encode k'"
    using append_sep_inj [OF show_id_plain show_id_plain e] by simp_all
  moreover have "t = t'" "hex_encode k = hex_encode k'"
    using append_sep_inj [OF _ _ 1(2)] assms by (simp_all add: plain_table_def)
  ultimately show "db = db' \<and> t = t' \<and> k = k'" by (simp add: show_id_inj hex_encode_inj)
qed simp

section \<open>A raw table as a map\<close>

text \<open>What a handler of raw keys sees: memory first, then the file. \<open>raw_slot\<close> is the pair.\<close>

definition raw_mem :: "kvs \<Rightarrow> u32 \<Rightarrow> string \<Rightarrow> bytes \<Rightarrow> bytes option" where
  "raw_mem s db t k = map_of (raw_table s db t) k"

lemma get_raw_mem:
  "get_raw s db t k = (case raw_mem s db t k of Some v \<Rightarrow> Some v | None \<Rightarrow> k_files s (overflow_path s db t k))"
  by (simp add: get_raw_def raw_mem_def)

lemma raw_table_set [simp]:
  "raw_table (set_raw_table db t tb s) db' t' = (if db' = db \<and> t' = t then tb else raw_table s db' t')"
  by (auto simp: raw_table_def set_raw_table_def outer_def split: option.split)

lemma raw_fields [simp]:
  "k_files (set_raw_table db t tb s) = k_files s"
  "k_overflow_dir (set_raw_table db t tb s) = k_overflow_dir s"
  "k_max_entries (set_raw_table db t tb s) = k_max_entries s"
  "raw_table (remove_overflow_file w db t k s) = raw_table s"
  "k_overflow_dir (remove_overflow_file w db t k s) = k_overflow_dir s"
  "k_max_entries (remove_overflow_file w db t k s) = k_max_entries s"
  "k_files (remove_overflow_file w db t k s) =
     (if fs_unlink w (overflow_path s db t k) then (k_files s)(overflow_path s db t k := None) else k_files s)"
  by (simp_all add: set_raw_table_def remove_overflow_file_def raw_table_def fun_eq_iff Let_def)

lemma overflow_path_cong: "k_overflow_dir s = k_overflow_dir s' \<Longrightarrow> overflow_path s db t k = overflow_path s' db t k"
  by (simp add: overflow_path_def)

lemma overflow_path_simps [simp]:
  "overflow_path (set_raw_table db' t' tb s) db t k = overflow_path s db t k"
  "overflow_path (remove_overflow_file w db' t' k' s) db t k = overflow_path s db t k"
  by (rule overflow_path_cong; simp)+

lemma write_overflow_simps:
  assumes "write_overflow_file w db t k v s = (ok, s')"
  shows "raw_table s' = raw_table s" "k_overflow_dir s' = k_overflow_dir s" "k_max_entries s' = k_max_entries s"
    "ok \<Longrightarrow> k_files s' (overflow_path s db t k) = Some v"
    "p \<noteq> overflow_path s db t k \<Longrightarrow> k_files s' p = k_files s p"
    "fs_write w (overflow_path s db t k) v (k_files s (overflow_path s db t k)) = Written \<Longrightarrow> ok"
  using assms by (auto simp: write_overflow_file_def Let_def raw_table_def fun_eq_iff split: io_write.splits)

text \<open>One eviction changes no reading of a plain table.\<close>

definition evict_one :: "spill_fs \<Rightarrow> u32 \<Rightarrow> string \<Rightarrow> bytes \<Rightarrow> bytes \<Rightarrow> kvs \<Rightarrow> kvs" where
  "evict_one w db t k v s =
     (let s1 = set_raw_table db t (AList.delete k (raw_table s db t)) s;
          (ok, s2) = write_overflow_file w db t k v s1
      in if ok then s2 else set_raw_table db t (AList.update k v (raw_table s2 db t)) s2)"

lemma evict_keys_Cons:
  "evict_keys w db t (k # ks) s =
     evict_keys w db t ks (case map_of (raw_table s db t) k of Some v \<Rightarrow> evict_one w db t k v s | None \<Rightarrow> s)"
  by (simp add: evict_one_def Let_def split: option.split prod.split)

lemma evict_one_view:
  assumes "map_of (raw_table s db t) k = Some v" "plain_table t" "plain_table t'"
  shows "get_raw (evict_one w db t k v s) db' t' k' = get_raw s db' t' k'"
    and "k_overflow_dir (evict_one w db t k v s) = k_overflow_dir s"
    and "k_max_entries (evict_one w db t k v s) = k_max_entries s"
proof -
  let ?s1 = "set_raw_table db t (AList.delete k (raw_table s db t)) s"
  obtain ok s2 where w: "write_overflow_file w db t k v ?s1 = (ok, s2)" by force
  note f = write_overflow_simps [OF w]
  have p: "overflow_path ?s1 db t k = overflow_path s db t k" by (rule overflow_path_cong) simp
  have e: "evict_one w db t k v s = (if ok then s2 else set_raw_table db t (AList.update k v (raw_table s2 db t)) s2)"
    by (simp add: evict_one_def Let_def w)
  have q: "overflow_path s2 d u y = overflow_path s d u y" for d u y
    by (rule overflow_path_cong) (simp add: f)
  have dir: "k_overflow_dir (evict_one w db t k v s) = k_overflow_dir s" by (simp add: e f)
  then show "k_overflow_dir (evict_one w db t k v s) = k_overflow_dir s" .
  show "k_max_entries (evict_one w db t k v s) = k_max_entries s" by (simp add: e f)
  show "get_raw (evict_one w db t k v s) db' t' k' = get_raw s db' t' k'"
  proof (cases "db' = db \<and> t' = t \<and> k' = k")
    case True
    then show ?thesis
      using assms(1) f(4) by (auto simp: get_raw_def e f(1-3) p q)
  next
    case False
    then have "overflow_path s db' t' k' \<noteq> overflow_path s db t k"
      using overflow_path_inj [OF assms(3,2)] by metis
    then show ?thesis
      using False f(5) [of "overflow_path s db' t' k'"] by (auto simp: get_raw_def e f(1-3) p q split: option.split)
  qed
qed

lemma evict_keys_view:
  "plain_table t \<Longrightarrow> plain_table t' \<Longrightarrow>
   get_raw (evict_keys w db t ks s) db' t' k' = get_raw s db' t' k' \<and>
   k_overflow_dir (evict_keys w db t ks s) = k_overflow_dir s"
proof (induction ks arbitrary: s)
  case (Cons k ks)
  then show ?case
    by (simp add: evict_keys_Cons evict_one_view del: evict_keys.simps(2) split: option.split)
qed simp

lemma get_put_raw:
  assumes "plain_table t" "plain_table t'"
  shows "get_raw (put_raw E w db t k v s) db' t' k' =
     (if db' = db \<and> t' = t \<and> k' = k then Some v else get_raw s db' t' k')"
proof -
  let ?s1 = "remove_overflow_file w db t k s"
  let ?s2 = "set_raw_table db t (AList.update k v (raw_table ?s1 db t)) ?s1"
  have "get_raw (put_raw E w db t k v s) db' t' k' = get_raw ?s2 db' t' k'"
    using evict_keys_view [OF assms] by (simp add: put_raw_def evict_to_disk_def Let_def)
  also have "\<dots> = (if db' = db \<and> t' = t \<and> k' = k then Some v else get_raw s db' t' k')"
    using overflow_path_inj [OF assms(2,1), of s db' k' db k] overflow_path_cong [of ?s2 s db' t' k']
    by (auto simp: get_raw_def split: option.split)
  finally show ?thesis .
qed

lemma get_remove_raw:
  assumes "plain_table t" "plain_table t'"
  shows "get_raw (remove_raw w db t k s) db' t' k' =
     (if db' = db \<and> t' = t \<and> k' = k
      then (if fs_unlink w (overflow_path s db t k) then None else k_files s (overflow_path s db t k))
      else get_raw s db' t' k')"
proof -
  let ?s1 = "set_raw_table db t (AList.delete k (raw_table s db t)) s"
  have r: "remove_raw w db t k s = remove_overflow_file w db t k ?s1 \<or>
      remove_raw w db t k s = remove_overflow_file w db t k s \<and> raw_table s db t = []"
    by (auto simp: remove_raw_def raw_table_def outer_def Let_def split: option.split)
  have p: "overflow_path s db' t' k' = overflow_path s db t k \<longleftrightarrow> db' = db \<and> t' = t \<and> k' = k"
    "overflow_path s db t k' = overflow_path s db t k \<longleftrightarrow> k' = k"
    by (simp_all add: overflow_path_inj assms)
  show ?thesis using r by (elim disjE) (auto simp: get_raw_def p split: option.split)
qed

section \<open>The limit on entries in memory\<close>

lemma evict_one_table:
  assumes "\<And>p v old. fs_write w p v old = Written" "map_of (raw_table s db t) k = Some v"
  shows "raw_table (evict_one w db t k v s) db t = AList.delete k (raw_table s db t)"
proof -
  obtain ok s2 where w: "write_overflow_file w db t k v
      (set_raw_table db t (AList.delete k (raw_table s db t)) s) = (ok, s2)" by force
  show ?thesis
    using write_overflow_simps [OF w] assms(1) by (simp add: evict_one_def Let_def w)
qed

lemma length_delete_present:
  "wf_alist m \<Longrightarrow> map_of m k = Some v \<Longrightarrow> Suc (length (AList.delete k m)) = length m"
proof (induction m)
  case (Cons x m)
  show ?case
  proof (cases "fst x = k")
    case True
    then have "AList.delete k m = m" using Cons.prems(1) by (auto intro!: delete_idem simp: image_iff)
    then show ?thesis using True by (cases x) simp
  next
    case False
    then show ?thesis using Cons by (cases x) auto
  qed
qed simp

lemma evict_keys_length:
  "(\<And>p v old. fs_write w p v old = Written) \<Longrightarrow> wf_alist (raw_table s db t) \<Longrightarrow> distinct ks \<Longrightarrow>
   \<forall>k\<in>set ks. map_of (raw_table s db t) k \<noteq> None \<Longrightarrow>
   length (raw_table (evict_keys w db t ks s) db t) = length (raw_table s db t) - length ks"
proof (induction ks arbitrary: s)
  case (Cons k ks)
  then obtain v where v: "map_of (raw_table s db t) k = Some v" by auto
  let ?s = "evict_one w db t k v s"
  have tb: "raw_table ?s db t = AList.delete k (raw_table s db t)"
    by (rule evict_one_table [OF Cons.prems(1) v])
  have "length (raw_table (evict_keys w db t ks ?s) db t) = length (raw_table ?s db t) - length ks"
    by (rule Cons.IH) (use Cons.prems tb in auto)
  then show ?case
    using length_delete_present [OF Cons.prems(2) v]
    by (simp add: evict_keys_Cons v tb del: evict_keys.simps(2))
qed simp

text \<open>No table grows past the limit, and none beyond it by more than one entry in between.\<close>

lemma put_raw_bounded:
  assumes "iter_ok E" "\<And>p v old. fs_write w p v old = Written" "wf_alist (raw_table s db t)" "0 < k_max_entries s"
  shows "length (raw_table (put_raw E w db t k v s) db t) \<le> k_max_entries s"
proof -
  let ?s = "set_raw_table db t (AList.update k v (raw_table s db t)) (remove_overflow_file w db t k s)"
  let ?tb = "raw_table ?s db t"
  let ?ks = "map fst (take (length ?tb - k_max_entries s) (iter_raw E ?tb))"
  have m: "mset (iter_raw E ?tb) = mset ?tb" using assms(1) by (simp add: iter_ok_def)
  have wf: "wf_alist ?tb" using assms(3) by (simp add: distinct_update)
  have "distinct (map fst (iter_raw E ?tb))" using m wf by (metis mset_eq_imp_distinct_iff mset_map)
  then have "distinct ?ks" by (metis distinct_take take_map)
  moreover have "\<forall>k\<in>set ?ks. map_of ?tb k \<noteq> None"
  proof
    fix k assume "k \<in> set ?ks"
    then have "k \<in> fst ` set (iter_raw E ?tb)" by (auto dest: in_set_takeD)
    then show "map_of ?tb k \<noteq> None" by (simp only: iter_raw_set [OF assms(1)] map_of_eq_None_iff not_not)
  qed
  ultimately have e: "length (raw_table (evict_keys w db t ?ks ?s) db t) = length ?tb - length ?ks"
    by (rule evict_keys_length [OF assms(2) wf])
  have "length (iter_raw E ?tb) = length ?tb" using m by (metis size_mset)
  then have "length ?ks = length ?tb - k_max_entries s" by simp
  then show ?thesis
    using e assms(4) by (simp add: put_raw_def evict_to_disk_def Let_def not_less)
qed

section \<open>The store as an interface\<close>

text \<open>
  What a user of a key-value store relies on, for the addresses that name one slot; a log of
  operations replayed on it is the log replayed on the map it stands for, so two stores that read
  the same stay the same under the same log.
\<close>

datatype ('a, 'v) slot_op = SlotPut 'a 'v | SlotRemove 'a

fun slot_of :: "('a, 'v) slot_op \<Rightarrow> 'a" where
  "slot_of (SlotPut a v) = a"
| "slot_of (SlotRemove a) = a"

fun slot_apply :: "('a, 'v) slot_op \<Rightarrow> ('a \<Rightarrow> 'v option) \<Rightarrow> ('a \<Rightarrow> 'v option)" where
  "slot_apply (SlotPut a v) m = m(a \<mapsto> v)"
| "slot_apply (SlotRemove a) m = m(a := None)"

lemma slot_fold_cong: "m b = m' b \<Longrightarrow> fold slot_apply xs m b = fold slot_apply xs m' b"
proof (induction xs arbitrary: m m')
  case (Cons x xs)
  have "slot_apply x m b = slot_apply x m' b" using Cons.prems by (cases x) auto
  then show ?case using Cons.IH [of "slot_apply x m" "slot_apply x m'"] by simp
qed simp

locale slot_store =
  fixes look :: "'s \<Rightarrow> 'a \<Rightarrow> 'v option"
    and insert_slot :: "'a \<Rightarrow> 'v \<Rightarrow> 's \<Rightarrow> 's"
    and clear_slot :: "'a \<Rightarrow> 's \<Rightarrow> 's"
    and addr :: "'a \<Rightarrow> bool"
  assumes look_insert: "addr a \<Longrightarrow> addr b \<Longrightarrow> look (insert_slot a v s) b = (if b = a then Some v else look s b)"
    and look_clear: "addr a \<Longrightarrow> addr b \<Longrightarrow> look (clear_slot a s) b = (if b = a then None else look s b)"
begin

fun slot_run :: "('a, 'v) slot_op \<Rightarrow> 's \<Rightarrow> 's" where
  "slot_run (SlotPut a v) s = insert_slot a v s"
| "slot_run (SlotRemove a) s = clear_slot a s"

lemma slot_run_refines:
  "addr (slot_of x) \<Longrightarrow> addr b \<Longrightarrow> look (slot_run x s) b = slot_apply x (look s) b"
  by (cases x) (auto simp: look_insert look_clear)

lemma slot_replay_refines:
  "\<forall>x\<in>set xs. addr (slot_of x) \<Longrightarrow> addr b \<Longrightarrow>
   look (fold slot_run xs s) b = fold slot_apply xs (look s) b"
proof (induction xs arbitrary: s)
  case (Cons x xs)
  have "look (fold slot_run xs (slot_run x s)) b = fold slot_apply xs (look (slot_run x s)) b"
    using Cons by simp
  also have "\<dots> = fold slot_apply xs (slot_apply x (look s)) b"
    by (rule slot_fold_cong) (use Cons.prems in \<open>simp add: slot_run_refines\<close>)
  finally show ?case by simp
qed simp

lemma slot_replay_same:
  assumes "\<forall>x\<in>set xs. addr (slot_of x)" "\<And>a. addr a \<Longrightarrow> look s a = look s' a" "addr b"
  shows "look (fold slot_run xs s) b = look (fold slot_run xs s') b"
  using slot_fold_cong [of "look s" b "look s'" xs] assms by (simp add: slot_replay_refines)

end

definition raw_look :: "kvs \<Rightarrow> u32 \<times> string \<times> bytes \<Rightarrow> bytes option" where
  "raw_look s a = (case a of (db, t, k) \<Rightarrow> get_raw s db t k)"

definition raw_insert ::
  "('x) env_scheme \<Rightarrow> spill_fs \<Rightarrow> u32 \<times> string \<times> bytes \<Rightarrow> bytes \<Rightarrow> kvs \<Rightarrow> kvs" where
  "raw_insert E w a v s = (case a of (db, t, k) \<Rightarrow> put_raw E w db t k v s)"

definition raw_clear :: "spill_fs \<Rightarrow> u32 \<times> string \<times> bytes \<Rightarrow> kvs \<Rightarrow> kvs" where
  "raw_clear w a s = (case a of (db, t, k) \<Rightarrow> remove_raw w db t k s)"

text \<open>The contract needs removals that do not fail.\<close>

definition unlinks :: "spill_fs \<Rightarrow> bool" where
  "unlinks w \<longleftrightarrow> (\<forall>p. fs_unlink w p)"

definition plain_addr :: "u32 \<times> string \<times> bytes \<Rightarrow> bool" where
  "plain_addr a = plain_table (fst (snd a))"

definition raw_addr :: "spill_fs \<Rightarrow> u32 \<times> string \<times> bytes \<Rightarrow> bool" where
  "raw_addr w a \<longleftrightarrow> unlinks w \<and> plain_addr a"

interpretation raw_slots: slot_store raw_look "raw_insert E w" "raw_clear w" "raw_addr w"
  for E :: "('x) env_scheme" and w
proof
  fix a b v s assume "raw_addr w a" "raw_addr w b"
  then show "raw_look (raw_insert E w a v s) b = (if b = a then Some v else raw_look s b)"
    and "raw_look (raw_clear w a s) b = (if b = a then None else raw_look s b)"
    by (cases a; cases b; simp add: raw_look_def raw_insert_def raw_clear_def raw_addr_def plain_addr_def unlinks_def get_put_raw
        get_remove_raw)+
qed

section \<open>Properties\<close>

text \<open>C23. The raw key-value tables whose names are single path components are maps, whatever spills to
  files and whichever writes and removals of files fail: a put is read back as the value put, and a
  removed key as absent, unless the file system refuses to delete a spill file of the key (the
  program ignores that, and the file's content is what is read from then on); no other key of any
  such table of any database changes, even when putting evicts entries to files.\<close>

theorem raw_store_is_a_map:
  assumes "plain_table t" "plain_table t'"
  shows "get_raw (put_raw E w db t k v s) db' t' k' =
      (if (db', t', k') = (db, t, k) then Some v else get_raw s db' t' k') \<and>
    get_raw (remove_raw w db t k s) db' t' k' =
      (if (db', t', k') = (db, t, k)
       then (if fs_unlink w (overflow_path s db t k) then None else k_files s (overflow_path s db t k))
       else get_raw s db' t' k')"
  by (auto simp: get_put_raw get_remove_raw assms)

text \<open>A store that keeps one entry a table in memory, holding one.\<close>

definition spill_state :: kvs where
  "spill_state = put_raw plain_env spill_works 0 ''t'' [1] [10] (kvs_empty 1 ''/d'' (\<lambda>_. None))"

text \<open>A file system that spills but never deletes.\<close>

definition undeletable :: spill_fs where
  "undeletable = spill_works\<lparr>fs_unlink := \<lambda>_. False\<rparr>"

lemma spilled_key:
  "get_raw (put_raw plain_env spill_works 0 ''t'' [2] [20] spill_state) 0 ''t'' [1] = Some [10]"
  "k_files (put_raw plain_env spill_works 0 ''t'' [2] [20] spill_state) (overflow_path spill_state 0 ''t'' [1]) = Some [10]"
  "k_overflow_dir (put_raw plain_env spill_works 0 ''t'' [2] [20] spill_state) = k_overflow_dir spill_state"
  by code_simp+

theorem raw_store_is_a_map_witness:
  "let s = put_raw plain_env spill_works 0 ''t'' [2] [20] spill_state in
   get_raw (put_raw plain_env spill_works 0 ''t'' [3] [30] s) 0 ''t'' [1] = Some [10] \<and>
   get_raw (remove_raw spill_works 0 ''t'' [1] s) 0 ''t'' [1] = None \<and>
   get_raw (remove_raw undeletable 0 ''t'' [1] s) 0 ''t'' [1] = Some [10]"
proof -
  let ?s = "put_raw plain_env spill_works 0 ''t'' [2] [20] spill_state"
  have t: "plain_table ''t''" by (simp add: plain_table_def)
  note rule = raw_store_is_a_map [OF t t, of plain_env _ 0 _ _ ?s 0 "[1]"]
  have "k_files ?s (overflow_path ?s 0 ''t'' [1]) = Some [10]"
    using spilled_key(2) overflow_path_cong [OF spilled_key(3)] by simp
  then show ?thesis
    using rule [of spill_works "[3]" "[30]"] rule [of spill_works "[1]" "[]"] rule [of undeletable "[1]" "[]"] spilled_key(1)
    by (simp add: Let_def undeletable_def spill_works_def)
qed

text \<open>C38. The memory limit holds: whatever a raw table of unique keys held before, after a put it has at
  most max_entries_per_table entries in memory, if a limit is set and the files of the evicted
  entries can be written.\<close>

theorem put_raw_within_limit:
  assumes "iter_ok E" "\<And>p v old. fs_write w p v old = Written" "wf_alist (raw_table s db t)" "0 < k_max_entries s"
  shows "length (raw_table (put_raw E w db t k v s) db t) \<le> k_max_entries s"
  by (rule put_raw_bounded [OF assms])

theorem put_raw_within_limit_witness:
  "length (raw_table (put_raw plain_env spill_works 0 ''t'' [2] [20] spill_state) 0 ''t'') \<le> k_max_entries spill_state"
proof (rule put_raw_within_limit)
  show "wf_alist (raw_table spill_state 0 ''t'')" by code_simp
  show "0 < k_max_entries spill_state" by code_simp
qed (simp_all add: spill_works_def)

text \<open>A table name that is an absolute path escapes the overflow directory, and the two databases
  share its files: a key put into table /x of database 0, once evicted, is read from table /x of
  database 1, which never held it.\<close>

theorem absolute_table_names_collide:
  "get_raw (put_raw plain_env spill_works 0 ''/x'' [2] [20]
       (put_raw plain_env spill_works 0 ''/x'' [1] [10] (kvs_empty 1 ''/d'' (\<lambda>_. None)))) 1 ''/x'' [1] = Some [10] \<and>
   overflow_path (kvs_empty 1 ''/d'' (\<lambda>_. None)) 0 ''/x'' [1] = ''/x/01''"
  by code_simp

end
