(* ===== verification/Skvs_Wal.thy ===== *)
theory Skvs_Wal
  imports Skvs_Config Skvs_Raw
begin

text \<open>
  The operation log and replication: \<open>write_batch\<close> of \<^verbatim>\<open>src/src/wal.rs\<close>, sending and
  receiving of \<^verbatim>\<open>src/src/replication.rs\<close>. bincode, the file system's answers, UDP and
  iteration order are the fields of the record \<open>host\<close>; \<open>host_ok\<close> says what they do where nothing
  fails.
\<close>

section \<open>Operations of the log\<close>

datatype op_type = OpPut bytes bytes | OpDelete bytes

record operation =
  op_db_id :: u32
  op_table :: string
  op_op :: op_type

type_synonym tables_dump = "(string \<times> table_schema option \<times> rows) list"
type_synonym raw_dump = "(string \<times> (bytes \<times> bytes) list) list"

text \<open>
  What the log, the snapshots and replication take from outside: bincode, the file system's
  answers (whether a directory is there, what an append or a write leaves, whether a rename
  works), UDP, and the iteration order of the maps that are dumped.
\<close>

record host = env +
  bin_op :: "operation \<Rightarrow> bytes option"
  bin_batch :: "operation list \<Rightarrow> bytes option"
  unbin_batch :: "bytes \<Rightarrow> string + operation list"
  bin_tables :: "tables_dump \<Rightarrow> bytes option"
  unbin_tables :: "bytes \<Rightarrow> string + tables_dump"
  bin_raw :: "raw_dump \<Rightarrow> bytes option"
  unbin_raw :: "bytes \<Rightarrow> string + raw_dump"
  bin_views :: "(string \<times> string) list \<Rightarrow> bytes option"
  unbin_views :: "bytes \<Rightarrow> string + (string \<times> string) list"
  bin_triggers :: "(string \<times> trigger_def list) list \<Rightarrow> bytes option"
  unbin_triggers :: "bytes \<Rightarrow> string + (string \<times> trigger_def list) list"
  dir_ok :: "string \<Rightarrow> bool"
  open_ok :: "string \<Rightarrow> bool"
  append_len :: "string \<Rightarrow> bytes \<Rightarrow> nat"
  write_file :: "string \<Rightarrow> bytes \<Rightarrow> bool \<times> bytes option"
  rename_ok :: "string \<Rightarrow> bool"
  spill :: spill_fs
  peer_address :: "string \<Rightarrow> string option"
  send_ok :: "bytes \<Rightarrow> bool"
  iter_tables :: "(string \<times> store_ref) list \<Rightarrow> (string \<times> store_ref) list"
  iter_raw_tables :: "raw_dump \<Rightarrow> raw_dump"
  iter_views :: "(string \<times> string) list \<Rightarrow> (string \<times> string) list"
  iter_triggers :: "(string \<times> trigger_def list) list \<Rightarrow> (string \<times> trigger_def list) list"

text \<open>
  Documented behaviour of that code where nothing fails: every write lands, and a map is iterated
  entry by entry. What an encoding owes is said of the value encoded (\<open>reads_back\<close>).
\<close>

definition host_ok :: "('x) host_scheme \<Rightarrow> bool" where
  "host_ok H \<longleftrightarrow> iter_ok H \<and>
     (\<forall>p. dir_ok H p) \<and> (\<forall>p. open_ok H p) \<and> (\<forall>p b. length b \<le> append_len H p b) \<and>
     (\<forall>p b. write_file H p b = (True, Some b)) \<and> (\<forall>p. rename_ok H p) \<and>
     (\<forall>xs. mset (iter_tables H xs) = mset xs) \<and> (\<forall>xs. mset (iter_raw_tables H xs) = mset xs) \<and>
     (\<forall>xs. mset (iter_views H xs) = mset xs) \<and> (\<forall>xs. mset (iter_triggers H xs) = mset xs)"

definition reads_back :: "('a \<Rightarrow> bytes option) \<Rightarrow> (bytes \<Rightarrow> string + 'a) \<Rightarrow> 'a \<Rightarrow> bool" where
  "reads_back bin unbin x \<longleftrightarrow> (case bin x of Some b \<Rightarrow> unbin b = Inr x | None \<Rightarrow> False)"

section \<open>Batches\<close>

definition db_dir :: "config \<Rightarrow> u32 \<Rightarrow> string" where
  "db_dir cfg db = path_join (cf_base_dir cfg) (''db_'' @ show_int (uint db))"

definition le_bytes :: "u32 \<Rightarrow> bytes" where
  "le_bytes w = map (\<lambda>i. word_of_nat (unat w div 256 ^ i mod 256)) [0, 1, 2, 3]"

text \<open>One record of the log: the length as a little-endian \<open>u32\<close>, the bytes; none if it does not encode.\<close>

definition frame :: "('x) host_scheme \<Rightarrow> operation \<Rightarrow> bytes" where
  "frame H op =
     (case bin_op H op of
        Some encoded \<Rightarrow> le_bytes (word_of_nat (length encoded)) @ encoded
      | None \<Rightarrow> [])"

definition frames :: "('x) host_scheme \<Rightarrow> operation list \<Rightarrow> bytes" where
  "frames H ops = concat (map (frame H) ops)"

definition wal_path :: "config \<Rightarrow> u32 \<Rightarrow> string" where
  "wal_path cfg db = path_join (db_dir cfg db) ''wal.bin''"

definition file_or_empty :: "kvs \<Rightarrow> string \<Rightarrow> bytes" where
  "file_or_empty s p = (case k_files s p of Some b \<Rightarrow> b | None \<Rightarrow> [])"

text \<open>The operations of one database, appended in their order.\<close>

definition write_group :: "('x) host_scheme \<Rightarrow> config \<Rightarrow> operation list \<Rightarrow> u32 \<Rightarrow> kvs \<Rightarrow> kvs" where
  "write_group H cfg batch db s =
     (let p = wal_path cfg db; out = frames H (filter (\<lambda>op. op_db_id op = db) batch)
      in if dir_ok H (db_dir cfg db) \<and> open_ok H p
         then s\<lparr>k_files := (k_files s)(p \<mapsto> file_or_empty s p @ take (append_len H p out) out)\<rparr>
         else s)"

definition write_batch :: "('x) host_scheme \<Rightarrow> config \<Rightarrow> operation list \<Rightarrow> kvs \<Rightarrow> kvs" where
  "write_batch H cfg batch s = fold (write_group H cfg batch) (remdups (map op_db_id batch)) s"

section \<open>Replication\<close>

definition send_batch :: "('x) host_scheme \<Rightarrow> operation list \<Rightarrow> bytes list" where
  "send_batch H batch =
     (case bin_batch H batch of
        Some encoded \<Rightarrow> (if send_ok H encoded then [encoded] else [])
      | None \<Rightarrow> [])"

definition apply_operation :: "('x) host_scheme \<Rightarrow> operation \<Rightarrow> kvs \<Rightarrow> kvs" where
  "apply_operation H op s =
     (case op_op op of
        OpPut key val \<Rightarrow> put_raw H (spill H) (op_db_id op) (op_table op) key val s
      | OpDelete key \<Rightarrow> remove_raw (spill H) (op_db_id op) (op_table op) key s)"

text \<open>A datagram as the receive loop reads it, into a buffer of 65536 bytes.\<close>

definition receive_datagram :: "('x) host_scheme \<Rightarrow> bytes \<Rightarrow> kvs \<Rightarrow> kvs" where
  "receive_datagram H data s =
     (case unbin_batch H (take 65536 data) of
        Inr ops \<Rightarrow> fold (apply_operation H) ops s
      | Inl e \<Rightarrow> s)"

end
