(* ===== verification/Skvs_Invariant.thy ===== *)
theory Skvs_Invariant
  imports Skvs_Journal
begin

text \<open>
  What every statement keeps. The locale \<open>write_closed\<close> is the contract of a property with the
  primitive writes of the handlers; inside it every handler, the dispatcher and \<open>execute\<close> keep
  the property on every outcome. Two interpretations: \<open>state_wf\<close>, the well-formedness of the
  state (no two tables share a row store, a fresh store is fresh, every map has one entry per
  key), and \<open>disk\<close>, the part of the state statements never write.
\<close>

section \<open>The writes every statement is made of\<close>

text \<open>
  A property of states that every primitive write keeps. The statements change the state by these
  alone, so all of them keep it, whatever their outcome.
\<close>

locale write_closed =
  fixes P :: "kvs \<Rightarrow> bool"
  assumes insert: "P s \<Longrightarrow> P (store_insert ref rid r s)"
    and remove: "P s \<Longrightarrow> P (store_remove ref rid s)"
    and index: "P s \<Longrightarrow> P (set_index_store db t n st s)"
    and fts: "P s \<Longrightarrow> P (register_fts_table db t ft s)"
    and txns: "P s \<Longrightarrow> P (set_txns tm s)"
    and gen: "P s \<Longrightarrow> P (set_rowid_gen db t g s)"
    and schema: "P s \<Longrightarrow> P (set_schema db t sch s)"
    and ensure: "P s \<Longrightarrow> P (ensure_schemas db s)"
    and install: "P s \<Longrightarrow> P (install_table db t sch s)"
    and unschema: "P s \<Longrightarrow> P (s\<lparr>k_schemas := drop_in t (k_schemas s) db\<rparr>)"
    and forget: "P s \<Longrightarrow> P (forget_table db t s)"
    and rows: "P s \<Longrightarrow> P (map_rows db t f s)"
    and rename: "P s \<Longrightarrow> P (snd (rename_table db t t' s))"
    and view: "P s \<Longrightarrow> P (add_view db v q s)"
    and unview: "P s \<Longrightarrow> k_views s db = Some m \<Longrightarrow> P (s\<lparr>k_views := (k_views s)(db := Some (AList.delete v m))\<rparr>)"
    and trigger: "P s \<Longrightarrow> P (add_trigger db t trg s)"
begin

lemma upkeep:
  "P s \<Longrightarrow> P (update_indexes db t r rid op s)"
  "P s \<Longrightarrow> P (sync_fts_index db t rid ro d s)"
  "P s \<Longrightarrow> P (sync_fts_index_change db t rid ro rn s)"
  "P s \<Longrightarrow> P (journal tx uop s)"
  "P s \<Longrightarrow> P (rebuild_index E db t idx s)"
proof -
  have one: "P s \<Longrightarrow> P (update_index db t r rid op idx s)" for s idx
    by (cases op) (auto simp: update_index_def add_to_index_def remove_from_index_def index)
  have many: "P s \<Longrightarrow> P (fold (update_index db t r rid op) idxs s)" for s idxs
    by (induction idxs arbitrary: s) (auto intro: one)
  show "P s \<Longrightarrow> P (update_indexes db t r rid op s)"
    by (simp add: update_indexes_def many split: option.split)
  have up: "P s \<Longrightarrow> P (fts_update db t f s)" for s f
    by (simp add: fts_update_def fts split: option.split)
  have sync: "P s \<Longrightarrow> P (sync_fts_index db t rid ro d s)" for s ro d
    by (simp add: sync_fts_index_def up Let_def split: option.split skvs_value.split)
  then show "P s \<Longrightarrow> P (sync_fts_index db t rid ro d s)" .
  show "P s \<Longrightarrow> P (sync_fts_index_change db t rid ro rn s)"
    by (simp add: sync_fts_index_change_def Let_def sync)
  show "P s \<Longrightarrow> P (journal tx uop s)"
    by (simp add: journal_def txn_record_def Let_def txns split: option.split)
  show "P s \<Longrightarrow> P (rebuild_index E db t idx s)"
    by (simp add: rebuild_index_def index split: option.split)
qed

lemma undo: "P s \<Longrightarrow> P (undo_one db op s)"
  by (cases op) (auto simp: Let_def upkeep insert remove split: option.split)

lemma undo_list: "P s \<Longrightarrow> P (undo_all db ops s)"
proof -
  have "P s \<Longrightarrow> P (fold (undo_one db) xs s)" for xs
    by (induction xs arbitrary: s) (auto intro: undo)
  then show "P s \<Longrightarrow> P (undo_all db ops s)" by (simp add: undo_all_def)
qed

lemma modify: "(\<And>s. P s \<Longrightarrow> P (f s)) \<Longrightarrow> inv_keeps P (emodify f)"
  by (simp add: inv_keeps_def emodify_def)

lemma transactions:
  "inv_keeps P (txn_begin db)" "inv_keeps P (txn_commit i)" "inv_keeps P (txn_rollback i)"
  by (auto simp: inv_keeps_def txn_begin_def txn_commit_def txn_rollback_def txn_remove_def Let_def
      txns undo_list split: option.split)

lemma next_rowid: "inv_keeps P (get_next_rowid db t)"
  by (simp add: inv_keeps_def get_next_rowid_def gen)

lemma ddl:
  "inv_keeps P (create_table E db name cols cs ine)" "inv_keeps P (drop_table E db names ie)"
  "inv_keeps P (create_index E db iname tname es u ine)" "inv_keeps P (drop_index E db names ie)"
  "inv_keeps P (create_view E db name q)" "inv_keeps P (drop_view E db names ie)"
  "inv_keeps P (create_virtual_table E db name ine m args)" "inv_keeps P (create_trigger db sql)"
proof -
  show "inv_keeps P (create_table E db name cols cs ine)"
    by (auto simp: inv_keeps_def create_table_def Let_def ensure install split: outcome.split)
  have "inv_keeps P (drop_one_table db ie t)" for t
    by (auto simp: inv_keeps_def drop_one_table_def Let_def ensure intro!: forget unschema)
  then show "inv_keeps P (drop_table E db names ie)"
    unfolding drop_table_def by (intro inv_keeps_bind inv_keeps_basic inv_keeps_iter)
  show "inv_keeps P (create_index E db iname tname es u ine)"
    by (auto simp: inv_keeps_def create_index_def Let_def schema upkeep(5) split: option.split)
  have one: "inv_keeps P (drop_one_index E db ie n)" for n
    by (auto simp: inv_keeps_def drop_one_index_def drop_index_store_def index schema split: option.split)
  have "inv_keeps P (ebind (eiter (\<lambda>n. drop_one_index E db ie (object_name_to_string E n)) names)
      (\<lambda>_. eret qr_empty))"
    by (intro inv_keeps_bind inv_keeps_basic inv_keeps_iter one)
  then show "inv_keeps P (drop_index E db names ie)"
    by (auto simp: inv_keeps_def drop_index_def)
  have "inv_keeps P (view_create E db n s)" for n s
    by (auto simp: inv_keeps_def view_create_def view split: sum.split list.split statement.split)
  then show "inv_keeps P (create_view E db name q)"
    unfolding create_view_def by (intro inv_keeps_bind inv_keeps_basic)
  have rv: "inv_keeps P (remove_view db n)" for n
    by (auto simp: inv_keeps_def remove_view_def unview split: option.split)
  have "inv_keeps P (drop_one_view db ie n)" for n
    using rv [of n] by (auto simp: inv_keeps_def drop_one_view_def split: prod.splits outcome.splits)
  then show "inv_keeps P (drop_view E db names ie)"
    unfolding drop_view_def by (intro inv_keeps_bind inv_keeps_basic inv_keeps_iter)
  show "inv_keeps P (create_virtual_table E db name ine m args)"
    by (auto simp: inv_keeps_def create_virtual_table_def Let_def ensure install fts)
  show "inv_keeps P (create_trigger db sql)"
    unfolding create_trigger_def by (intro inv_keeps_bind inv_keeps_basic modify trigger)
qed

lemma alter: "inv_keeps P (alter_table E db name ie ops)"
proof -
  have step: "inv_keeps P (alter_step E db op t)" for op t
  proof (cases op)
    case (AddColumn col)
    then show ?thesis
      by (auto simp: inv_keeps_def alter_step_def add_column_def Let_def schema rows split: outcome.split option.split)
  next
    case (DropColumn col ie)
    then show ?thesis
      by (auto simp: inv_keeps_def alter_step_def drop_column_def Let_def schema rows split: option.split)
  next
    case (RenameColumn old new)
    then show ?thesis
      by (auto simp: inv_keeps_def alter_step_def rename_column_def Let_def schema rows
          split: option.split outcome.split)
  qed (auto simp: inv_keeps_def alter_step_def rename efail_def)
  have "inv_keeps P (alter_steps E db ops t)" for ops t
    by (induction ops arbitrary: t) (auto intro: step)
  then have "inv_keeps P (ebind (alter_steps E db ops t) (\<lambda>_. eret qr_empty))" for t
    by (intro inv_keeps_bind inv_keeps_basic)
  then show ?thesis by (auto simp: inv_keeps_def alter_table_def Let_def)
qed

lemma fire:
  assumes "\<And>st. inv_keeps P (run st)"
  shows "inv_keeps P (fire_triggers E run db t ev tm old_row new_row)"
proof -
  have body: "inv_keeps P (run_body E run sql)" for sql
    by (auto simp: run_body_def intro!: assms split: sum.split)
  have "inv_keeps P (fire_trigger E run db ev tm old_row new_row trg)" for trg
    by (auto simp: fire_trigger_def intro!: body)
  then show ?thesis unfolding fire_triggers_def by (intro inv_keeps_bind inv_keeps_basic inv_keeps_iter)
qed

lemma dml:
  assumes run: "\<And>st. inv_keeps P (run st)"
  shows "inv_keeps P (execute_insert E n run db name cols source ps tx)"
    and "inv_keeps P (execute_update E run db relation assigns selection ps tx)"
    and "inv_keeps P (execute_delete E run db tables from selection ps tx)"
proof -
  note rules = inv_keeps_bind inv_keeps_basic inv_keeps_iter fire [OF run] next_rowid modify
  have ins: "inv_keeps P (insert_row E run db t sch ref tx r0)" for t sch ref r0
    unfolding insert_row_def Let_def
    by (intro rules) (simp add: write_insert_def upkeep insert)
  have upd: "inv_keeps P (update_row E run db t sch ref tx assigns ps e)" for t sch ref e
    unfolding update_row_def Let_def case_prod_unfold
    by (intro rules) (simp add: write_update_def upkeep insert)
  have del: "inv_keeps P (delete_row E run db t ref tx e)" for t ref e
    unfolding delete_row_def Let_def case_prod_unfold
    by (intro rules) (simp add: write_delete_def upkeep remove)
  have "inv_keeps P (ebind (elift h) (\<lambda>rs. ebind (eiter (insert_row E run db t sch ref tx) rs)
      (\<lambda>_. eret (q rs))))" for h t sch ref and q :: "row list \<Rightarrow> query_result"
    by (intro rules ins)
  then show "inv_keeps P (execute_insert E n run db name cols source ps tx)"
    by (auto simp: inv_keeps_def execute_insert_def Let_def split: option.split)
  have "inv_keeps P (ebind (elift h) (\<lambda>rs. ebind (eiter (update_row E run db t sch ref tx assigns ps) rs)
      (\<lambda>_. eret (q rs))))" for h t sch ref and q :: "(rowid \<times> row) list \<Rightarrow> query_result"
    by (intro rules upd)
  then show "inv_keeps P (execute_update E run db relation assigns selection ps tx)"
    by (auto simp: inv_keeps_def execute_update_def Let_def split: option.split)
  have "inv_keeps P (ebind (elift h) (\<lambda>rs. ebind (eiter (delete_row E run db t ref tx) rs)
      (\<lambda>_. eret (q rs))))" for h t ref and q :: "(rowid \<times> row) list \<Rightarrow> query_result"
    by (intro rules del)
  then show "inv_keeps P (execute_delete E run db tables from selection ps tx)"
    by (auto simp: inv_keeps_def execute_delete_def split: option.split)
qed

lemma single: "inv_keeps P (execute_single_statement E n db stmt ps tx)"
proof (induction n arbitrary: db stmt ps)
  case 0
  then show ?case by (simp add: inv_keeps_def)
next
  case (Suc n)
  have run: "inv_keeps P (execute_single_statement E n db st [] tx)" for st by (rule Suc.IH)
  show ?case
    by (cases stmt) (auto simp: Let_def run_drop_def intro!: dml run ddl alter split: object_type.split)
qed

lemma statement: "inv_keeps P (execute_statement E n db stmt ps tx)"
proof -
  have at: "inv_keeps P (run_atomic db body)" if "\<And>i. inv_keeps P (body i)" for body
  proof -
    have "inv_keeps P (\<lambda>s. case body i s of (Done r, s1) \<Rightarrow> (Done r, snd (txn_commit i s1))
       | (Fail e, s1) \<Rightarrow> (Fail e, snd (txn_rollback i s1))
       | (Panic, s1) \<Rightarrow> (Panic, s1) | (NoFuel, s1) \<Rightarrow> (NoFuel, s1))" for i
      using that [of i] transactions(2,3) [of i]
      unfolding inv_keeps_def by (auto split: prod.splits outcome.splits)
    then show ?thesis unfolding run_atomic_def by (intro inv_keeps_bind transactions)
  qed
  show ?thesis
    by (cases stmt) (auto simp: execute_statement_def intro!: at single transactions split: option.split)
qed

lemma engine: "inv_keeps P (execute E n db sql ps tx)"
  by (auto simp: execute_def intro!: ddl statement split: sum.split list.split)

end

section \<open>Well-formed states\<close>

text \<open>Row stores in use are below the next reference, and no two tables share one.\<close>

definition refs_fresh :: "kvs \<Rightarrow> bool" where
  "refs_fresh s \<longleftrightarrow> stores_distinct s \<and>
     (\<forall>db t ref. get_table_store s db t = Some ref \<longrightarrow> ref < k_next_ref s)"

text \<open>Every map of the state has one entry per key.\<close>

definition maps_wf :: "(u32 \<Rightarrow> (string \<times> 'v) list option) \<Rightarrow> bool" where
  "maps_wf f \<longleftrightarrow> (\<forall>db. wf_alist (outer f [] db))"

definition state_wf :: "kvs \<Rightarrow> bool" where
  "state_wf s \<longleftrightarrow> refs_fresh s \<and> heap_wf s \<and> maps_wf (k_dbs s) \<and> maps_wf (k_schemas s) \<and>
     maps_wf (k_rowid_gens s) \<and> maps_wf (k_raw s) \<and> (\<forall>db t. wf_alist (raw_table s db t)) \<and>
     maps_wf (k_triggers s) \<and> maps_wf (k_views s)"

lemma maps_wf_upd [simp]: "maps_wf f \<Longrightarrow> wf_alist m \<Longrightarrow> maps_wf (f(db \<mapsto> m))"
  by (simp add: maps_wf_def outer_def)

lemma maps_wf_outer [simp]: "maps_wf f \<Longrightarrow> wf_alist (outer f [] db)"
  by (simp add: maps_wf_def)

lemma maps_wf_Some:
  assumes "maps_wf f" "f db = Some m"
  shows "wf_alist m"
proof -
  have "wf_alist (outer f [] db)" using assms(1) by (simp only: maps_wf_def)
  then show ?thesis using assms(2) by (simp only: outer_def option.case)
qed

lemma maps_wf_drop [simp]:
  assumes "maps_wf f"
  shows "maps_wf (drop_in t f db)"
proof -
  have "outer (drop_in t f db) [] d = (if d = db then AList.delete t (outer f [] db) else outer f [] d)" for d
    by (simp add: drop_in_def outer_def split: option.split)
  then show ?thesis using assms by (simp add: maps_wf_def)
qed

lemma maps_wf_move [simp]:
  assumes "maps_wf f"
  shows "maps_wf (move_in a b f db)"
proof -
  have "outer (move_in a b f db) [] d = (if d = db then move_key a b (outer f [] db) else outer f [] d)" for d
    by (simp add: move_in_def move_key_def outer_def split: option.split)
  moreover have "wf_alist m \<Longrightarrow> wf_alist (move_key a b m)" for m :: "(string \<times> 'a) list"
    by (simp add: move_key_def split: option.split)
  ultimately show ?thesis using assms by (simp add: maps_wf_def)
qed

lemma refs_fresh_cong:
  "k_dbs s = k_dbs s' \<Longrightarrow> k_next_ref s = k_next_ref s' \<Longrightarrow> refs_fresh s = refs_fresh s'"
  unfolding refs_fresh_def using stores_distinct_cong [of s s'] get_table_store_cong [of s s'] by simp

text \<open>Only the named fields matter.\<close>

lemma state_wf_cong:
  assumes "k_dbs s' = k_dbs s" "k_next_ref s' = k_next_ref s" "k_raw s' = k_raw s"
  shows "state_wf s' \<longleftrightarrow> refs_fresh s \<and> heap_wf s' \<and> maps_wf (k_dbs s) \<and> maps_wf (k_schemas s') \<and>
     maps_wf (k_rowid_gens s') \<and> maps_wf (k_raw s) \<and> (\<forall>db t. wf_alist (raw_table s db t)) \<and>
     maps_wf (k_triggers s') \<and> maps_wf (k_views s')"
  using refs_fresh_cong [of s' s] assms by (simp add: state_wf_def raw_table_def)

lemma refs_fresh_subset:
  assumes "refs_fresh s" "k_next_ref s' = k_next_ref s"
    and "\<And>d t ref. get_table_store s' d t = Some ref \<Longrightarrow> get_table_store s d (g d t) = Some ref"
    and "\<And>d t t' ref. get_table_store s' d t = Some ref \<Longrightarrow> get_table_store s' d t' = Some ref \<Longrightarrow> g d t = g d t' \<Longrightarrow> t = t'"
  shows "refs_fresh s'"
  unfolding refs_fresh_def stores_distinct_def
proof (intro conjI allI impI)
  fix db t db' t' ref
  assume a: "get_table_store s' db t = Some ref" "get_table_store s' db' t' = Some ref"
  have "db = db' \<and> g db t = g db' t'"
    using assms(1) assms(3) [OF a(1)] assms(3) [OF a(2)] unfolding refs_fresh_def stores_distinct_def by blast
  then show "db = db'" "t = t'" using assms(4) a by blast+
next
  fix db t ref assume "get_table_store s' db t = Some ref"
  then show "ref < k_next_ref s'" using assms(1,2,3) unfolding refs_fresh_def by metis
qed

lemma heap_wf_simps [simp]:
  "heap_wf s \<Longrightarrow> heap_wf (store_insert ref rid r s)" "heap_wf s \<Longrightarrow> heap_wf (store_remove ref rid s)"
  by (simp_all add: heap_wf_def store_insert_def store_remove_def)

lemma install_table_stores:
  "get_table_store (install_table db n sch s) db' t =
     (if db' = db \<and> t = n then Some (k_next_ref s) else get_table_store s db' t)"
  by (auto simp: install_table_def alloc_store_def set_schema_def set_rowid_gen_def get_table_store_def
      outer_def Let_def split: option.split)

lemma install_table_wf:
  assumes "state_wf s"
  shows "state_wf (install_table db n sch s)"
proof -
  let ?s = "install_table db n sch s"
  have next': "k_next_ref ?s = Suc (k_next_ref s)"
    by (simp add: install_table_def alloc_store_def set_schema_def set_rowid_gen_def)
  have lt: "ref < k_next_ref s" if "get_table_store s d t = Some ref" for d t ref
    using assms that by (simp add: state_wf_def refs_fresh_def)
  have "stores_distinct s" using assms by (simp add: state_wf_def refs_fresh_def)
  moreover have "ref \<noteq> k_next_ref s" if "get_table_store s d t = Some ref" for d t ref using lt [OF that] by simp
  ultimately have "stores_distinct ?s"
    unfolding stores_distinct_def install_table_stores by (auto split: if_splits) blast+
  then have "refs_fresh ?s"
    using lt by (auto simp: refs_fresh_def next' install_table_stores less_SucI split: if_splits)
  then show ?thesis
    using assms
    by (simp add: state_wf_def install_table_def alloc_store_def set_schema_def set_rowid_gen_def heap_wf_def
        raw_table_def)
qed

lemma forget_table_wf: "state_wf s \<Longrightarrow> state_wf (forget_table db t s)"
proof -
  assume wf: "state_wf s"
  have st: "get_table_store (forget_table db t s) d t' =
      (if d = db \<and> t' = t then None else get_table_store s d t')" for d t'
    by (auto simp: forget_table_def drop_in_def get_table_store_def split: option.split)
  have "k_next_ref (forget_table db t s) = k_next_ref s" by (simp add: forget_table_def)
  then have "refs_fresh (forget_table db t s)"
    by (rule refs_fresh_subset [OF wf [unfolded state_wf_def, THEN conjunct1], where g = "\<lambda>_ t. t"])
      (simp_all add: st split: if_splits)
  then show ?thesis
    using wf by (simp add: state_wf_def forget_table_def heap_wf_def raw_table_def)
qed

lemma rename_table_wf: "state_wf s \<Longrightarrow> state_wf (snd (rename_table db t t' s))"
proof -
  assume wf: "state_wf s"
  let ?s = "snd (rename_table db t t' s)"
  have st: "get_table_store ?s d u =
      (if d = db \<and> get_table_store s db t \<noteq> None
       then (if u = t' then get_table_store s db t else if u = t then None else get_table_store s db u)
       else get_table_store s d u)" for d u
    by (auto simp: rename_table_def move_in_def move_key_def get_table_store_def split: option.split)
  let ?g = "\<lambda>d u. if d = db \<and> get_table_store s db t \<noteq> None \<and> u = t' then t else u"
  have "k_next_ref ?s = k_next_ref s" by (simp add: rename_table_def)
  then have "refs_fresh ?s"
    by (rule refs_fresh_subset [OF wf [unfolded state_wf_def, THEN conjunct1], where g = ?g])
      (simp_all add: st split: if_splits)
  then show ?thesis
    using wf by (simp add: state_wf_def rename_table_def heap_wf_def raw_table_def)
qed

interpretation wf: write_closed state_wf
proof
  fix s assume wf: "state_wf s"
  note frame = state_wf_cong [of _ s, THEN iffD2]
  show "state_wf (store_insert ref rid r s)" "state_wf (store_remove ref rid s)" for ref rid r
    by (rule frame; use wf in \<open>simp add: state_wf_def\<close>; simp add: store_insert_def store_remove_def)+
  show "state_wf (set_index_store db t n st s)" for db t n st
    by (rule frame) (use wf in \<open>simp_all add: state_wf_def set_index_store_def heap_wf_def\<close>)
  show "state_wf (register_fts_table db t ft s)" for db t ft
    by (rule frame) (use wf in \<open>simp_all add: state_wf_def register_fts_table_def heap_wf_def\<close>)
  show "state_wf (set_txns tm s)" for tm
    by (rule frame) (use wf in \<open>simp_all add: state_wf_def set_txns_def heap_wf_def\<close>)
  show "state_wf (set_rowid_gen db t g s)" for db t g
    by (rule frame) (use wf in \<open>simp_all add: state_wf_def set_rowid_gen_def heap_wf_def\<close>)
  show "state_wf (set_schema db t sch s)" "state_wf (ensure_schemas db s)" for db t sch
    by (rule frame; use wf in \<open>simp add: state_wf_def set_schema_def ensure_schemas_def heap_wf_def\<close>)+
  show "state_wf (install_table db t sch s)" for db t sch by (rule install_table_wf [OF wf])
  show "state_wf (s\<lparr>k_schemas := drop_in t (k_schemas s) db\<rparr>)" for t db
    by (rule frame) (use wf in \<open>simp_all add: state_wf_def heap_wf_def\<close>)
  show "state_wf (forget_table db t s)" for db t by (rule forget_table_wf [OF wf])
  show "state_wf (map_rows db t f s)" for db t f
  proof (cases "get_table_store s db t")
    case (Some ref)
    have "heap_wf (map_rows db t f s)"
      using wf by (auto simp: map_rows_def Some state_wf_def heap_wf_def comp_def case_prod_unfold)
    then show ?thesis by (intro frame) (use wf in \<open>simp_all add: state_wf_def map_rows_def Some\<close>)
  qed (simp add: map_rows_def wf)
  show "state_wf (snd (rename_table db t t' s))" for db t t' by (rule rename_table_wf [OF wf])
  show "state_wf (add_view db v q s)" for db v q
    by (rule frame) (use wf in \<open>simp_all add: state_wf_def add_view_def heap_wf_def\<close>)
  show "state_wf (s\<lparr>k_views := (k_views s)(db \<mapsto> AList.delete v m)\<rparr>)" if "k_views s db = Some m" for db v m
    by (rule frame) (use wf maps_wf_Some [of "k_views s" db m] that in \<open>simp_all add: state_wf_def heap_wf_def\<close>)
  show "state_wf (add_trigger db t trg s)" for db t trg
    by (rule frame) (use wf in \<open>simp_all add: state_wf_def add_trigger_def Let_def heap_wf_def\<close>)
qed

section \<open>What statements leave alone\<close>

text \<open>The raw tables and the files.\<close>

definition disk :: "kvs \<Rightarrow> (u32 \<Rightarrow> (string \<times> (bytes \<times> bytes) list) list option) \<times>
    (string \<Rightarrow> bytes option) \<times> string \<times> nat" where
  "disk s = (k_raw s, k_files s, k_overflow_dir s, k_max_entries s)"

interpretation disk: write_closed "\<lambda>s. disk s = d" for d
  by unfold_locales
    (auto simp: disk_def store_insert_def store_remove_def set_index_store_def register_fts_table_def set_txns_def
      set_rowid_gen_def set_schema_def ensure_schemas_def install_table_def alloc_store_def forget_table_def
      map_rows_def rename_table_def add_view_def add_trigger_def Let_def split: option.split)

text \<open>The other operations on the state keep it well-formed too.\<close>

lemma raw_wf:
  "state_wf s \<Longrightarrow> wf_alist tb \<Longrightarrow> state_wf (set_raw_table db t tb s)"
  "state_wf s \<Longrightarrow> state_wf (s\<lparr>k_files := fs\<rparr>)"
proof -
  assume wf: "state_wf s"
  have "refs_fresh (set_raw_table db t tb s) = refs_fresh s" "refs_fresh (s\<lparr>k_files := fs\<rparr>) = refs_fresh s"
    by (rule refs_fresh_cong; simp add: set_raw_table_def)+
  note rf = this
  show "state_wf (s\<lparr>k_files := fs\<rparr>)" using wf rf by (simp add: state_wf_def heap_wf_def raw_table_def)
  assume "wf_alist tb"
  moreover have "raw_table (set_raw_table db t tb s) db' t' = (if db' = db \<and> t' = t then tb else raw_table s db' t')" for db' t'
    by (auto simp: raw_table_def set_raw_table_def outer_def split: option.split)
  ultimately show "state_wf (set_raw_table db t tb s)"
    using wf rf unfolding state_wf_def by (simp add: set_raw_table_def heap_wf_def)
qed

lemma put_raw_wf: "state_wf s \<Longrightarrow> state_wf (put_raw E w db t k v s)"
proof -
  assume wf: "state_wf s"
  have tb: "state_wf s \<Longrightarrow> wf_alist (raw_table s db t)" for s by (simp add: state_wf_def)
  have rt: "raw_table (set_raw_table db t tb s\<lparr>k_files := fs\<rparr>) db t = tb" "raw_table (set_raw_table db t tb s) db t = tb"
    for tb s fs
    by (simp_all add: raw_table_def set_raw_table_def outer_def)
  have ev: "state_wf s \<Longrightarrow> state_wf (evict_keys w db t ks s)" for ks s
  proof (induction ks arbitrary: s)
    case (Cons k ks)
    then show ?case
      by (auto simp: Let_def write_overflow_file_def tb rt split: option.split io_write.split intro!: Cons.IH raw_wf wf_alist_update)
  qed simp
  show ?thesis
    by (auto simp: put_raw_def Let_def evict_to_disk_def remove_overflow_file_def intro!: ev raw_wf tb wf wf_alist_update)
qed

lemma remove_raw_wf: "state_wf s \<Longrightarrow> state_wf (remove_raw w db t k s)"
proof -
  assume wf: "state_wf s"
  have "wf_alist m" if "k_raw s db = Some x" "map_of x t = Some m" for x m
  proof -
    have "wf_alist (raw_table s db t)" using wf by (simp add: state_wf_def)
    then show ?thesis by (simp add: raw_table_def outer_def that)
  qed
  then show ?thesis
    by (auto simp: remove_raw_def Let_def remove_overflow_file_def split: option.split intro!: raw_wf wf)
qed

text \<open>C30. SQL never touches the raw store: whatever statement is executed, by whoever, and however it ends,
  an error or a panic included, the raw key-value tables, the files and the limits are as they were.
  This is what the code does, where its documentation says otherwise: DOCUMENTATION.md (section 4)
  and two comments in wal.rs still keep the secondary indexes in a raw table named __indexes__, but
  index.rs holds them in a map of its own.\<close>

theorem sql_leaves_raw_store:
  "disk (snd (execute E n db sql ps tx s)) = disk s"
  using disk.engine [of "disk s" E n db sql ps tx] by (simp add: inv_keeps_def)

end
