(* ===== verification/Skvs_Snapshot.thy ===== *)
theory Skvs_Snapshot
  imports Skvs_Wal Skvs_Invariant
begin

text \<open>
  The snapshots of \<^verbatim>\<open>src/src/wal.rs\<close>: \<open>save_db_snapshot\<close> and \<open>load_db_snapshot\<close> are the
  bodies of the loops over the databases in \<open>save_sql_snapshot\<close> and \<open>load_sql_snapshot\<close>, with
  the effect of each step of a load on rows, schemas, counters and indexes.
\<close>

section \<open>Saving\<close>

text \<open>
  A snapshot file: written beside its place, then renamed into it. A failed write leaves whatever
  \<open>write_file\<close> says in the temporary file, and nothing else.
\<close>

definition write_snapshot_file :: "('x) host_scheme \<Rightarrow> string \<Rightarrow> string \<Rightarrow> bytes option \<Rightarrow> kvs \<Rightarrow> kvs" where
  "write_snapshot_file H dir filename encoded s =
     (case encoded of
        None \<Rightarrow> s
      | Some b \<Rightarrow>
          (let final_path = path_join dir filename; tmp_path = path_join dir (filename @ ''.tmp'');
               (ok, left) = write_file H tmp_path b;
               files = (k_files s)(tmp_path := left)
           in if ok \<and> rename_ok H final_path
              then s\<lparr>k_files := files(final_path := files tmp_path, tmp_path := None)\<rparr>
              else s\<lparr>k_files := files\<rparr>))"

definition dump_tables :: "('x) host_scheme \<Rightarrow> u32 \<Rightarrow> kvs \<Rightarrow> tables_dump" where
  "dump_tables H db s =
     map (\<lambda>(name, ref). (name, get_schema s db name, iter_rows H (k_heap s ref)))
       (iter_tables H (outer (k_dbs s) [] db))"

definition dump_raw :: "('x) host_scheme \<Rightarrow> (string \<times> (bytes \<times> bytes) list) list \<Rightarrow> raw_dump" where
  "dump_raw H m = map (\<lambda>(name, entries). (name, iter_raw H entries)) (iter_raw_tables H m)"

definition save_db_snapshot :: "('x) host_scheme \<Rightarrow> config \<Rightarrow> u32 \<Rightarrow> kvs \<Rightarrow> kvs" where
  "save_db_snapshot H cfg db s =
     (let dir = db_dir cfg db in
      if \<not> dir_ok H dir then s
      else
        (let s1 = write_snapshot_file H dir ''tables.bin'' (bin_tables H (dump_tables H db s)) s;
             s2 = (case k_raw s1 db of
                     Some m \<Rightarrow> write_snapshot_file H dir ''raw.bin'' (bin_raw H (dump_raw H m)) s1
                   | None \<Rightarrow> s1);
             s3 = (case k_views s2 db of
                     Some m \<Rightarrow> write_snapshot_file H dir ''views.bin'' (bin_views H (iter_views H m)) s2
                   | None \<Rightarrow> s2)
         in (case k_triggers s3 db of
               Some m \<Rightarrow> write_snapshot_file H dir ''triggers.bin'' (bin_triggers H (iter_triggers H m)) s3
             | None \<Rightarrow> s3)))"

text \<open>The databases in the order their map is iterated.\<close>

definition save_sql_snapshot :: "('x) host_scheme \<Rightarrow> config \<Rightarrow> u32 list \<Rightarrow> kvs \<Rightarrow> kvs" where
  "save_sql_snapshot H cfg dbs s = fold (save_db_snapshot H cfg) dbs s"

section \<open>Loading\<close>

text \<open>\<open>tables.entry(name).or_insert_with(...)\<close>: the store of a table, created empty if absent.\<close>

definition table_entry :: "u32 \<Rightarrow> string \<Rightarrow> kvs \<Rightarrow> store_ref \<times> kvs" where
  "table_entry db name s =
     (case get_table_store s db name of
        Some ref \<Rightarrow> (ref, s)
      | None \<Rightarrow>
          (let (ref, s1) = alloc_store s in
           (ref, s1\<lparr>k_dbs := (k_dbs s1)(db \<mapsto> AList.update name ref (outer (k_dbs s1) [] db))\<rparr>)))"

definition max_rowid :: "rows \<Rightarrow> u64" where
  "max_rowid rs = fold (\<lambda>(rid, _) m. if m < rid then rid else m) rs 0"

definition load_table ::
  "('x) host_scheme \<Rightarrow> u32 \<Rightarrow> string \<times> table_schema option \<times> rows \<Rightarrow> kvs \<Rightarrow> kvs" where
  "load_table H db entry s =
     (let (name, schema, rs) = entry;
          s1 = (case schema of Some sch \<Rightarrow> set_schema db name sch s | None \<Rightarrow> s);
          (ref, s2) = table_entry db name s1;
          s3 = fold (\<lambda>(rid, r). store_insert ref rid r) rs s2;
          s4 = set_min_next_rowid db name (max_rowid rs + 1) s3
      in case get_schema s4 db name of
           Some sch \<Rightarrow> fold (\<lambda>idx. rebuild_index H db name idx) (ts_indices sch) s4
         | None \<Rightarrow> s4)"

definition load_raw_table :: "u32 \<Rightarrow> string \<times> (bytes \<times> bytes) list \<Rightarrow> kvs \<Rightarrow> kvs" where
  "load_raw_table db entry s =
     set_raw_table db (fst entry)
       (fold (\<lambda>(k, v). AList.update k v) (snd entry) (raw_table s db (fst entry))) s"

definition load_raw :: "('x) host_scheme \<Rightarrow> config \<Rightarrow> u32 \<Rightarrow> kvs \<Rightarrow> kvs" where
  "load_raw H cfg db s =
     (case k_files s (path_join (db_dir cfg db) ''raw.bin'') of
        None \<Rightarrow> s
      | Some b \<Rightarrow> (case unbin_raw H b of Inr d \<Rightarrow> fold (load_raw_table db) d s | Inl e \<Rightarrow> s))"

definition load_views :: "('x) host_scheme \<Rightarrow> config \<Rightarrow> u32 \<Rightarrow> kvs \<Rightarrow> kvs" where
  "load_views H cfg db s =
     (case k_files s (path_join (db_dir cfg db) ''views.bin'') of
        None \<Rightarrow> s
      | Some b \<Rightarrow> (case unbin_views H b of
                    Inr d \<Rightarrow> fold (\<lambda>(name, query). add_view db name query) d s
                  | Inl e \<Rightarrow> s))"

definition insert_triggers :: "u32 \<Rightarrow> string \<Rightarrow> trigger_def list \<Rightarrow> kvs \<Rightarrow> kvs" where
  "insert_triggers db table defs s =
     s\<lparr>k_triggers := (k_triggers s)(db \<mapsto> AList.update table defs (outer (k_triggers s) [] db))\<rparr>"

definition load_triggers :: "('x) host_scheme \<Rightarrow> config \<Rightarrow> u32 \<Rightarrow> kvs \<Rightarrow> kvs" where
  "load_triggers H cfg db s =
     (case k_files s (path_join (db_dir cfg db) ''triggers.bin'') of
        None \<Rightarrow> s
      | Some b \<Rightarrow> (case unbin_triggers H b of
                    Inr d \<Rightarrow> fold (\<lambda>(table, defs). insert_triggers db table defs) d s
                  | Inl e \<Rightarrow> s))"

definition fts_to_rebuild :: "tables_dump \<Rightarrow> (string \<times> string) list" where
  "fts_to_rebuild dump =
     List.map_filter (\<lambda>(name, schema, _).
       case schema of
         Some sch \<Rightarrow> map_option (\<lambda>col. (name, col)) (ts_fts5_content_column sch)
       | None \<Rightarrow> None) dump"

definition rebuild_fts :: "('x) host_scheme \<Rightarrow> u32 \<Rightarrow> string \<times> string \<Rightarrow> kvs \<Rightarrow> kvs" where
  "rebuild_fts H db entry s =
     (let (table, col) = entry; s1 = register_fts_table db table (fts_table_new table col) s in
      case get_table_store s1 db table of
        None \<Rightarrow> s1
      | Some ref \<Rightarrow>
          fold (\<lambda>(rid, r) s. case map_of r col of
                  Some (VText content) \<Rightarrow> fts_update db table (\<lambda>ix. add_document ix rid content) s
                | _ \<Rightarrow> s)
            (iter_rows H (k_heap s1 ref)) s1)"

text \<open>
  A database without \<open>tables.bin\<close>, or with one that does not decode (it is moved aside, a failed
  move ignored), is skipped with everything else it has.
\<close>

definition quarantine :: "('x) host_scheme \<Rightarrow> string \<Rightarrow> kvs \<Rightarrow> kvs" where
  "quarantine H path s =
     (if rename_ok H (path @ ''.bak'')
      then s\<lparr>k_files := (k_files s)(path @ ''.bak'' := k_files s path, path := None)\<rparr> else s)"

definition load_db_snapshot :: "('x) host_scheme \<Rightarrow> config \<Rightarrow> u32 \<Rightarrow> kvs \<Rightarrow> kvs" where
  "load_db_snapshot H cfg db s =
     (let path = path_join (db_dir cfg db) ''tables.bin'' in
      case k_files s path of
        None \<Rightarrow> s
      | Some b \<Rightarrow>
          (case unbin_tables H b of
             Inl e \<Rightarrow> quarantine H path s
           | Inr dump \<Rightarrow>
               fold (rebuild_fts H db) (fts_to_rebuild dump)
                 (load_triggers H cfg db (load_views H cfg db (load_raw H cfg db
                   (fold (load_table H db) dump s))))))"

definition load_sql_snapshot :: "('x) host_scheme \<Rightarrow> config \<Rightarrow> u32 list \<Rightarrow> kvs \<Rightarrow> kvs" where
  "load_sql_snapshot H cfg dbs s = fold (load_db_snapshot H cfg) dbs s"

section \<open>What a save leaves on disk\<close>

definition snapshot_path :: "config \<Rightarrow> u32 \<Rightarrow> string \<Rightarrow> string" where
  "snapshot_path cfg db filename = path_join (db_dir cfg db) filename"

lemma file_path_join:
  "hd f \<noteq> CHR ''/'' \<Longrightarrow> f \<noteq> [] \<Longrightarrow> path_join d f = d @ ''/'' @ f"
  by (cases f) (auto simp: path_join_def starts_with_def)

lemma write_snapshot_ok:
  assumes "host_ok H"
  shows "write_snapshot_file H dir f (Some b) s =
    s\<lparr>k_files := (k_files s)(path_join dir f \<mapsto> b, path_join dir (f @ ''.tmp'') := None)\<rparr>"
proof -
  have "path_join dir f \<noteq> path_join dir (f @ ''.tmp'')"
    by (cases f) (auto simp: path_join_def starts_with_def)
  then show ?thesis
    using assms by (simp add: write_snapshot_file_def host_ok_def Let_def fun_upd_twist)
qed

text \<open>What the saved files of a database have to hold for a load to restore it.\<close>

definition saved_files :: "('x) host_scheme \<Rightarrow> config \<Rightarrow> u32 \<Rightarrow> kvs \<Rightarrow> (string \<Rightarrow> bytes option) \<Rightarrow> bool" where
  "saved_files H cfg db s files \<longleftrightarrow>
     (\<exists>b. files (snapshot_path cfg db ''tables.bin'') = Some b \<and> unbin_tables H b = Inr (dump_tables H db s)) \<and>
     (\<exists>b. files (snapshot_path cfg db ''raw.bin'') = Some b \<and>
          unbin_raw H b = Inr (dump_raw H (outer (k_raw s) [] db))) \<and>
     (\<exists>b. files (snapshot_path cfg db ''views.bin'') = Some b \<and>
          unbin_views H b = Inr (iter_views H (outer (k_views s) [] db))) \<and>
     (\<exists>b. files (snapshot_path cfg db ''triggers.bin'') = Some b \<and>
          unbin_triggers H b = Inr (iter_triggers H (outer (k_triggers s) [] db)))"

text \<open>The dumps of a state encode and read back.\<close>

definition dumps_read_back :: "('x) host_scheme \<Rightarrow> u32 \<Rightarrow> kvs \<Rightarrow> bool" where
  "dumps_read_back H db s \<longleftrightarrow>
     reads_back (bin_tables H) (unbin_tables H) (dump_tables H db s) \<and>
     reads_back (bin_raw H) (unbin_raw H) (dump_raw H (outer (k_raw s) [] db)) \<and>
     reads_back (bin_views H) (unbin_views H) (iter_views H (outer (k_views s) [] db)) \<and>
     reads_back (bin_triggers H) (unbin_triggers H) (iter_triggers H (outer (k_triggers s) [] db))"

definition has_database :: "u32 \<Rightarrow> kvs \<Rightarrow> bool" where
  "has_database db s \<longleftrightarrow> k_raw s db \<noteq> None \<and> k_views s db \<noteq> None \<and> k_triggers s db \<noteq> None"

lemma reads_backD: "reads_back bin unbin x \<Longrightarrow> \<exists>b. bin x = Some b \<and> unbin b = Inr x"
  by (auto simp: reads_back_def split: option.splits)

lemma save_db_snapshot_files:
  assumes "host_ok H" "dumps_read_back H db s" "has_database db s"
  obtains bt br bv bg where
    "save_db_snapshot H cfg db s = s\<lparr>k_files := (k_files s)
       (path_join (db_dir cfg db) ''tables.bin'' \<mapsto> bt, path_join (db_dir cfg db) ''tables.bin.tmp'' := None,
        path_join (db_dir cfg db) ''raw.bin'' \<mapsto> br, path_join (db_dir cfg db) ''raw.bin.tmp'' := None,
        path_join (db_dir cfg db) ''views.bin'' \<mapsto> bv, path_join (db_dir cfg db) ''views.bin.tmp'' := None,
        path_join (db_dir cfg db) ''triggers.bin'' \<mapsto> bg, path_join (db_dir cfg db) ''triggers.bin.tmp'' := None)\<rparr>"
    "unbin_tables H bt = Inr (dump_tables H db s)"
    "unbin_raw H br = Inr (dump_raw H (outer (k_raw s) [] db))"
    "unbin_views H bv = Inr (iter_views H (outer (k_views s) [] db))"
    "unbin_triggers H bg = Inr (iter_triggers H (outer (k_triggers s) [] db))"
proof -
  obtain bt br bv bg where b:
    "bin_tables H (dump_tables H db s) = Some bt" "unbin_tables H bt = Inr (dump_tables H db s)"
    "bin_raw H (dump_raw H (outer (k_raw s) [] db)) = Some br"
    "unbin_raw H br = Inr (dump_raw H (outer (k_raw s) [] db))"
    "bin_views H (iter_views H (outer (k_views s) [] db)) = Some bv"
    "unbin_views H bv = Inr (iter_views H (outer (k_views s) [] db))"
    "bin_triggers H (iter_triggers H (outer (k_triggers s) [] db)) = Some bg"
    "unbin_triggers H bg = Inr (iter_triggers H (outer (k_triggers s) [] db))"
    using assms(2) unfolding dumps_read_back_def by (metis reads_backD)
  obtain mr mv mg where m: "k_raw s db = Some mr" "k_views s db = Some mv" "k_triggers s db = Some mg"
    using assms(3) by (auto simp: has_database_def)
  have d: "dir_ok H (db_dir cfg db)" using assms(1) by (simp add: host_ok_def)
  show thesis
    by (rule that [OF _ b(2,4,6,8)])
      (use b(3,5,7) m d in \<open>simp add: save_db_snapshot_def b(1) write_snapshot_ok [OF assms(1)] outer_def Let_def\<close>)
qed

lemma saved_files_save:
  assumes "host_ok H" "dumps_read_back H db s" "has_database db s"
  shows "saved_files H cfg db s (k_files (save_db_snapshot H cfg db s))"
  by (rule save_db_snapshot_files [OF assms, where cfg = cfg])
    (simp add: saved_files_def snapshot_path_def file_path_join)

section \<open>What a load puts into the state\<close>

text \<open>The fields a step of the load leaves alone.\<close>

lemma set_schema_simps [simp]:
  "k_dbs (set_schema db n sch s) = k_dbs s" "k_heap (set_schema db n sch s) = k_heap s"
  "k_next_ref (set_schema db n sch s) = k_next_ref s" "k_raw (set_schema db n sch s) = k_raw s"
  "k_views (set_schema db n sch s) = k_views s" "k_triggers (set_schema db n sch s) = k_triggers s"
  "k_files (set_schema db n sch s) = k_files s" "k_indexes (set_schema db n sch s) = k_indexes s"
  "k_overflow_dir (set_schema db n sch s) = k_overflow_dir s"
  "k_rowid_gens (set_schema db n sch s) = k_rowid_gens s"
  "get_schema (set_schema db n sch s) db' t =
     (if db' = db \<and> t = n then Some sch else get_schema s db' t)"
  by (auto simp: set_schema_def get_schema_def outer_def split: option.split)

lemma rows_loaded:
  "k_heap (fold (\<lambda>(rid, r). store_insert ref rid r) rs s) ref' =
     (if ref' = ref then fold (\<lambda>(rid, r). AList.update rid r) rs (k_heap s ref) else k_heap s ref')"
  by (induction rs arbitrary: s) (auto simp: store_insert_def split: prod.split)

lemma rows_loaded_frame:
  "\<exists>h. fold (\<lambda>(rid, r). store_insert ref rid r) rs s = s\<lparr>k_heap := h\<rparr>"
proof (induction rs arbitrary: s)
  case Nil
  have "s = s\<lparr>k_heap := k_heap s\<rparr>" by simp
  then show ?case by (metis fold_simps(1))
next
  case (Cons x rs)
  obtain h where "fold (\<lambda>(rid, r). store_insert ref rid r) rs (store_insert ref (fst x) (snd x) s) =
      (store_insert ref (fst x) (snd x) s)\<lparr>k_heap := h\<rparr>" using Cons.IH by blast
  also have "(store_insert ref (fst x) (snd x) s)\<lparr>k_heap := h\<rparr> = s\<lparr>k_heap := h\<rparr>"
    by (simp add: store_insert_def)
  finally show ?case by (cases x) auto
qed

lemma map_of_fold_update:
  "map_of (fold (\<lambda>(k, v). AList.update k v) xs m) = map_of m ++ map_of (rev xs)"
  by (induction xs arbitrary: m) (auto simp: map_add_def fun_eq_iff split: option.split)

lemma map_of_fold_update_wf: "wf_alist xs \<Longrightarrow> map_of (fold (\<lambda>(k, v). AList.update k v) xs []) = map_of xs"
  by (simp add: map_of_fold_update map_of_mset_eq [of xs "rev xs"])

lemma wf_fold_update: "wf_alist m \<Longrightarrow> wf_alist (fold (\<lambda>(k, v). AList.update k v) xs m)"
  by (induction xs arbitrary: m) auto

lemma rebuild_index_frame: "\<exists>f. rebuild_index H db t idx s = s\<lparr>k_indexes := f\<rparr>"
proof (cases "get_table_store s db t")
  case None
  have "rebuild_index H db t idx s = s\<lparr>k_indexes := k_indexes s\<rparr>"
    by (simp add: rebuild_index_def None)
  then show ?thesis by blast
qed (auto simp: rebuild_index_def set_index_store_def)

lemma rebuild_all_frame: "\<exists>f. fold (\<lambda>idx. rebuild_index H db t idx) idxs s = s\<lparr>k_indexes := f\<rparr>"
proof (induction idxs arbitrary: s)
  case Nil
  have "s = s\<lparr>k_indexes := k_indexes s\<rparr>" by simp
  then show ?case by (metis fold_simps(1))
next
  case (Cons idx idxs)
  obtain f where f: "rebuild_index H db t idx s = s\<lparr>k_indexes := f\<rparr>" using rebuild_index_frame by blast
  obtain g where "fold (\<lambda>idx. rebuild_index H db t idx) idxs (s\<lparr>k_indexes := f\<rparr>) = s\<lparr>k_indexes := f, k_indexes := g\<rparr>"
    using Cons.IH by blast
  then show ?case by (auto simp: f)
qed

lemma rebuild_all_get:
  "distinct (map idx_name idxs) \<Longrightarrow> get_table_store s db t = Some ref \<Longrightarrow>
   get_index_store (fold (\<lambda>idx. rebuild_index H db t idx) idxs s) db t n =
     (case List.find (\<lambda>i. idx_name i = n) idxs of
        Some idx \<Rightarrow> fold (rebuild_push idx) (iter_rows H (k_heap s ref)) []
      | None \<Rightarrow> get_index_store s db t n)"
proof (induction idxs arbitrary: s)
  case (Cons idx idxs)
  obtain f where f: "rebuild_index H db t idx s = s\<lparr>k_indexes := f\<rparr>" using rebuild_index_frame by blast
  have g: "get_table_store (s\<lparr>k_indexes := f\<rparr>) db t = Some ref"
    using Cons.prems(2) by (simp add: get_table_store_def)
  have e: "get_index_store (s\<lparr>k_indexes := f\<rparr>) db t n =
      (if n = idx_name idx then fold (rebuild_push idx) (iter_rows H (k_heap s ref)) [] else get_index_store s db t n)"
    unfolding f [symmetric] by (simp add: rebuild_index_def Cons.prems(2) get_set_index_store)
  have nf: "List.find (\<lambda>i. idx_name i = n) idxs = None" if "n = idx_name idx"
    using Cons.prems(1) that unfolding find_None_iff by (auto simp: image_iff)
  show ?case using Cons.IH [OF _ g] Cons.prems(1) e nf by (auto simp: f split: option.split)
qed simp

lemma rebuild_all_other:
  assumes "plain_name t" "plain_name t'" "(db', t') \<noteq> (db, t)"
  shows "get_index_store (fold (\<lambda>idx. rebuild_index H db t idx) idxs s) db' t' n = get_index_store s db' t' n"
proof (induction idxs arbitrary: s)
  case (Cons idx idxs)
  have "get_index_store (rebuild_index H db t idx s) db' t' n = get_index_store s db' t' n"
    using index_key_inj [OF assms(2,1)] assms(3)
    by (auto simp: rebuild_index_def get_set_index_store split: option.split)
  then show ?case using Cons.IH by simp
qed simp

section \<open>One table\<close>

lemma table_entry_new:
  assumes "get_table_store s db n = None" "table_entry db n s = (ref, s')"
  shows "ref = k_next_ref s" "k_next_ref s' = Suc ref" "k_heap s' = (k_heap s)(ref := [])"
    "get_table_store s' db' t = (if db' = db \<and> t = n then Some ref else get_table_store s db' t)"
    "k_schemas s' = k_schemas s" "k_raw s' = k_raw s" "k_views s' = k_views s"
    "k_triggers s' = k_triggers s" "k_files s' = k_files s" "k_indexes s' = k_indexes s"
    "k_overflow_dir s' = k_overflow_dir s" "k_rowid_gens s' = k_rowid_gens s"
  using assms
  by (auto simp: table_entry_def alloc_store_def get_table_store_def outer_def split: option.splits if_splits)

lemma set_min_next_rowid_simps [simp]:
  "k_dbs (set_min_next_rowid db t g s) = k_dbs s" "k_heap (set_min_next_rowid db t g s) = k_heap s"
  "k_next_ref (set_min_next_rowid db t g s) = k_next_ref s"
  "k_schemas (set_min_next_rowid db t g s) = k_schemas s" "k_raw (set_min_next_rowid db t g s) = k_raw s"
  "k_views (set_min_next_rowid db t g s) = k_views s" "k_triggers (set_min_next_rowid db t g s) = k_triggers s"
  "k_files (set_min_next_rowid db t g s) = k_files s" "k_indexes (set_min_next_rowid db t g s) = k_indexes s"
  "k_overflow_dir (set_min_next_rowid db t g s) = k_overflow_dir s"
  "rowid_gen (set_min_next_rowid db t g s) db' t' =
     (if db' = db \<and> t' = t then (if (word_of_nat (rowid_gen s db t) :: u64) < g then unat g else rowid_gen s db t)
      else rowid_gen s db' t')"
  by (simp_all add: set_min_next_rowid_def Let_def, simp_all add: set_rowid_gen_def)

lemma max_rowid_bound: "(rid, r) \<in> set rs \<Longrightarrow> rid \<le> max_rowid rs"
proof -
  have mono: "m \<le> fold (\<lambda>(rid, _) m. if m < rid then rid else m) rs m" for m :: u64 and rs :: rows
  proof (induction rs arbitrary: m)
    case (Cons x rs)
    obtain rid and r :: row where x: "x = (rid, r)" by force
    have "m \<le> (if m < rid then rid else m)" by (auto intro: less_imp_le)
    then show ?case using Cons.IH [of "if m < rid then rid else m"] by (simp add: x)
  qed simp
  have "(rid, r) \<in> set rs \<Longrightarrow> rid \<le> fold (\<lambda>(rid, _) m. if m < rid then rid else m) rs m" for m
  proof (induction rs arbitrary: m)
    case (Cons x rs)
    show ?case
    proof (cases "x = (rid, r)")
      case True
      have "rid \<le> (if m < rid then rid else m)" by (simp add: not_less)
      also have "\<dots> \<le> fold (\<lambda>(rid, _) m. if m < rid then rid else m) rs (if m < rid then rid else m)"
        by (rule mono)
      finally show ?thesis by (simp add: True)
    qed (use Cons in auto)
  qed simp
  then show "(rid, r) \<in> set rs \<Longrightarrow> rid \<le> max_rowid rs" by (simp add: max_rowid_def)
qed

lemma fst_rows_loaded: "get_table_store (fold (\<lambda>(rid, r). store_insert ref rid r) rs s) db t = get_table_store s db t"
  using rows_loaded_frame [of ref rs s] by (auto simp: get_table_store_def)

text \<open>What \<open>load_table\<close> does for a table that is not there yet.\<close>

lemma load_table_effect:
  assumes f: "refs_fresh f" and none: "get_table_store f db n = None" and wf: "wf_alist rs"
    and f': "f' = load_table H db (n, schema, rs) f"
  shows "refs_fresh f'"
    and "row_at f' db' t rid = (if db' = db \<and> t = n then map_of rs rid else row_at f db' t rid)"
    and "get_table_store f' db' t = None \<longleftrightarrow> get_table_store f db' t = None \<and> (db', t) \<noteq> (db, n)"
    and "get_schema f' db' t = (if db' = db \<and> t = n \<and> schema \<noteq> None then schema else get_schema f db' t)"
    and "k_raw f' = k_raw f" "k_views f' = k_views f" "k_triggers f' = k_triggers f" "k_files f' = k_files f"
    and "k_overflow_dir f' = k_overflow_dir f"
    and "rowid_gen f' db' t = (if db' = db \<and> t = n
          then (if (word_of_nat (rowid_gen f db n) :: u64) < max_rowid rs + 1 then unat (max_rowid rs + 1)
                else rowid_gen f db n)
          else rowid_gen f db' t)"
proof -
  define s1 where "s1 = (case schema of Some sch \<Rightarrow> set_schema db n sch f | None \<Rightarrow> f)"
  obtain ref s2 where te: "table_entry db n s1 = (ref, s2)" by force
  define s3 where "s3 = fold (\<lambda>(rid, r). store_insert ref rid r) rs s2"
  define s4 where "s4 = set_min_next_rowid db n (max_rowid rs + 1) s3"
  have s1: "k_dbs s1 = k_dbs f" "k_heap s1 = k_heap f" "k_next_ref s1 = k_next_ref f" "k_raw s1 = k_raw f"
    "k_views s1 = k_views f" "k_triggers s1 = k_triggers f" "k_files s1 = k_files f"
    "k_overflow_dir s1 = k_overflow_dir f" "k_rowid_gens s1 = k_rowid_gens f"
    "get_schema s1 db' t = (if db' = db \<and> t = n \<and> schema \<noteq> None then schema else get_schema f db' t)"
    for db' t by (auto simp: s1_def split: option.split)
  have ts1: "get_table_store s1 = get_table_store f" using s1(1) by (auto simp: get_table_store_def fun_eq_iff)
  note te' = table_entry_new [OF none [folded ts1] te]
  obtain h where h: "s3 = s2\<lparr>k_heap := h\<rparr>" using rows_loaded_frame unfolding s3_def by blast
  have heap3: "k_heap s3 r = (if r = ref then fold (\<lambda>(rid, r). AList.update rid r) rs [] else k_heap f r)" for r
    using te'(3) s1(2) by (simp add: s3_def rows_loaded)
  obtain g where g: "f' = s4\<lparr>k_indexes := g\<rparr>"
  proof (cases "get_schema s4 db n")
    case None
    then have "f' = s4\<lparr>k_indexes := k_indexes s4\<rparr>"
      by (simp add: f' load_table_def Let_def s1_def [symmetric] te s3_def [symmetric] s4_def [symmetric])
    then show thesis by (rule that)
  next
    case (Some sch)
    then have "f' = fold (\<lambda>idx. rebuild_index H db n idx) (ts_indices sch) s4"
      by (simp add: f' load_table_def Let_def s1_def [symmetric] te s3_def [symmetric] s4_def [symmetric])
    then show thesis using that rebuild_all_frame by metis
  qed
  have tsf: "get_table_store f' db' t = (if db' = db \<and> t = n then Some ref else get_table_store f db' t)" for db' t
    using te'(4) ts1 by (simp add: g s4_def h get_table_store_def)
  have heapf: "k_heap f' = k_heap s3" by (simp add: g s4_def)
  have ref: "ref = k_next_ref f" using te'(1) s1(3) by simp
  have below: "get_table_store f db' t = Some r \<Longrightarrow> r < ref" for db' t r
    using f by (simp add: refs_fresh_def ref)
  show "refs_fresh f'"
  proof -
    have nxt: "k_next_ref f' = Suc ref" using te'(2) by (simp add: g s4_def h)
    have lt: "r \<noteq> ref" if "get_table_store f d t = Some r" for d t r using below [OF that] by simp
    have dist: "stores_distinct f" using f by (simp add: refs_fresh_def)
    have "stores_distinct f'"
      unfolding stores_distinct_def tsf
      using dist lt by (auto simp: stores_distinct_def split: if_splits) metis+
    moreover have "r < Suc ref" if "get_table_store f' d t = Some r" for d t r
      using that below [of d t r] by (auto simp: tsf split: if_splits)
    ultimately show ?thesis by (auto simp: refs_fresh_def nxt)
  qed
  show "row_at f' db' t rid = (if db' = db \<and> t = n then map_of rs rid else row_at f db' t rid)"
    using below [of db' t] by (auto simp: row_at_def tsf store_get_def heapf heap3 map_of_fold_update_wf [OF wf]
        split: option.split)
  show "get_table_store f' db' t = None \<longleftrightarrow> get_table_store f db' t = None \<and> (db', t) \<noteq> (db, n)"
    by (simp add: tsf)
  have "get_schema f' = get_schema s1"
    by (simp add: g s4_def h get_schema_def te'(5) fun_eq_iff)
  then show "get_schema f' db' t = (if db' = db \<and> t = n \<and> schema \<noteq> None then schema else get_schema f db' t)"
    using s1(10) by simp
  show "k_raw f' = k_raw f" "k_views f' = k_views f" "k_triggers f' = k_triggers f" "k_files f' = k_files f"
    "k_overflow_dir f' = k_overflow_dir f"
    by (simp_all add: g s4_def h te' s1)
  have gen: "rowid_gen s3 = rowid_gen f" by (simp add: h rowid_gen_def te'(12) s1(9) fun_eq_iff)
  have "rowid_gen f' = rowid_gen s4" by (simp add: g rowid_gen_def fun_eq_iff)
  then show "rowid_gen f' db' t = (if db' = db \<and> t = n
          then (if (word_of_nat (rowid_gen f db n) :: u64) < max_rowid rs + 1 then unat (max_rowid rs + 1)
                else rowid_gen f db n)
          else rowid_gen f db' t)"
    by (simp add: s4_def gen)
qed

section \<open>All tables\<close>

text \<open>A state a dump can be loaded into: none of its tables is there yet.\<close>

definition loadable :: "u32 \<Rightarrow> tables_dump \<Rightarrow> kvs \<Rightarrow> bool" where
  "loadable db dump f \<longleftrightarrow> refs_fresh f \<and> wf_alist dump \<and>
     (\<forall>n sch rs. (n, sch, rs) \<in> set dump \<longrightarrow> get_table_store f db n = None \<and> wf_alist rs)"

lemma loadable_Cons:
  assumes "loadable db ((n, sch, rs) # dump) f"
  shows "refs_fresh f" "get_table_store f db n = None" "wf_alist rs" "map_of dump n = None"
    and "loadable db dump (load_table H db (n, sch, rs) f)"
proof -
  show 1: "refs_fresh f" "get_table_store f db n = None" "wf_alist rs"
    using assms by (auto simp: loadable_def)
  have n: "n \<notin> fst ` set dump" using assms by (simp add: loadable_def)
  then show "map_of dump n = None" by (simp add: map_of_eq_None_iff)
  note eff = load_table_effect [OF 1 refl]
  have "get_table_store (load_table H db (n, sch, rs) f) db m = None \<and> wf_alist rs'"
    if "(m, sch', rs') \<in> set dump" for m sch' rs'
  proof -
    have "m \<noteq> n" using n that by (metis fst_conv image_eqI)
    then show ?thesis using assms that eff(3) [of H sch db m] by (simp add: loadable_def)
  qed
  then show "loadable db dump (load_table H db (n, sch, rs) f)"
    using assms eff(1) by (simp add: loadable_def)
qed

lemma load_tables_fresh: "loadable db dump f \<Longrightarrow> refs_fresh (fold (load_table H db) dump f)"
proof (induction dump arbitrary: f)
  case (Cons e dump)
  obtain n sch rs where e: "e = (n, sch, rs)" by (cases e) auto
  show ?case using Cons.IH [OF loadable_Cons(5) [OF Cons.prems [unfolded e]]] by (simp add: e)
qed (simp add: loadable_def)

lemma load_tables_rows:
  "loadable db dump f \<Longrightarrow> row_at (fold (load_table H db) dump f) db' t rid =
     (if db' = db then (case map_of dump t of Some (sch, rs) \<Rightarrow> map_of rs rid | None \<Rightarrow> row_at f db t rid)
      else row_at f db' t rid)"
proof (induction dump arbitrary: f)
  case (Cons e dump)
  obtain n sch rs where e: "e = (n, sch, rs)" by (cases e) auto
  note l = loadable_Cons [OF Cons.prems [unfolded e]]
  show ?case using Cons.IH [OF l(5) [where H = H]] l(4)
    by (cases "t = n") (auto simp: e load_table_effect(2) [OF l(1-3) refl] split: option.split)
qed simp

lemma load_tables_stores:
  "loadable db dump f \<Longrightarrow> get_table_store (fold (load_table H db) dump f) db' t = None \<longleftrightarrow>
     get_table_store f db' t = None \<and> (db' = db \<longrightarrow> map_of dump t = None)"
proof (induction dump arbitrary: f)
  case (Cons e dump)
  obtain n sch rs where e: "e = (n, sch, rs)" by (cases e) auto
  note l = loadable_Cons [OF Cons.prems [unfolded e]]
  show ?case using Cons.IH [OF l(5) [where H = H]] l(4)
    by (cases "t = n") (auto simp: e load_table_effect(3) [OF l(1-3) refl])
qed simp

lemma load_tables_schema:
  "loadable db dump f \<Longrightarrow> get_schema (fold (load_table H db) dump f) db' t =
     (if db' = db then (case map_of dump t of Some (Some sch, rs) \<Rightarrow> Some sch | _ \<Rightarrow> get_schema f db t)
      else get_schema f db' t)"
proof (induction dump arbitrary: f)
  case (Cons e dump)
  obtain n sch rs where e: "e = (n, sch, rs)" by (cases e) auto
  note l = loadable_Cons [OF Cons.prems [unfolded e]]
  show ?case using Cons.IH [OF l(5) [where H = H]] l(4)
    by (cases "t = n") (auto simp: e load_table_effect(4) [OF l(1-3) refl] split: option.split)
qed simp

lemma load_tables_rest:
  "loadable db dump f \<Longrightarrow> F = fold (load_table H db) dump f \<Longrightarrow>
   k_raw F = k_raw f \<and> k_views F = k_views f \<and> k_triggers F = k_triggers f \<and> k_files F = k_files f \<and>
   k_overflow_dir F = k_overflow_dir f"
proof (induction dump arbitrary: f)
  case (Cons e dump)
  obtain n sch rs where e: "e = (n, sch, rs)" by (cases e) auto
  note l = loadable_Cons [OF Cons.prems(1) [unfolded e]]
  show ?case using Cons.IH [OF l(5) [where H = H]] Cons.prems(2)
    by (simp add: e load_table_effect(5-9) [OF l(1-3) refl])
qed simp

lemma load_tables_gens_other:
  "loadable db dump f \<Longrightarrow> map_of dump t = None \<Longrightarrow>
   rowid_gen (fold (load_table H db) dump f) db t = rowid_gen f db t"
proof (induction dump arbitrary: f)
  case (Cons e dump)
  obtain n sch rs where e: "e = (n, sch, rs)" by (cases e) auto
  note l = loadable_Cons [OF Cons.prems(1) [unfolded e]]
  have "t \<noteq> n" using Cons.prems(2) by (auto simp: e)
  then show ?case using Cons.IH [OF l(5) [where H = H]] Cons.prems(2)
    by (simp add: e load_table_effect(10) [OF l(1-3) refl])
qed simp

text \<open>The counter of a restored table is past every restored id, short of the last one there is.\<close>

lemma min_next_past:
  assumes "(rid, r) \<in> set rs" "max_rowid rs \<noteq> -1" "g < 2 ^ 64"
  shows "unat rid < (if (word_of_nat g :: u64) < max_rowid rs + 1 then unat (max_rowid rs + 1) else g)"
proof -
  have le: "unat rid \<le> unat (max_rowid rs)"
    using max_rowid_bound [OF assms(1)] by (simp add: word_le_nat_alt)
  have u: "unat (max_rowid rs + 1) = Suc (unat (max_rowid rs))"
    using assms(2) by (metis add.commute add_eq_0_iff unatSuc)
  have "unat (word_of_nat g :: u64) = g" using assms(3) by (simp add: unat_of_nat)
  with le u show ?thesis by (auto simp: word_less_nat_alt)
qed

lemma load_tables_gens:
  assumes "loadable db dump f" "map_of dump t = Some (sch, rs)" "(rid, r) \<in> set rs" "max_rowid rs \<noteq> -1"
    and "rowid_gen f db t < 2 ^ 64"
  shows "unat rid < rowid_gen (fold (load_table H db) dump f) db t"
  using assms(1,2,5)
proof (induction dump arbitrary: f)
  case (Cons e dump)
  obtain n sch' rs' where e: "e = (n, sch', rs')" by (cases e) auto
  note l = loadable_Cons [OF Cons.prems(1) [unfolded e]]
  note gen = load_table_effect(10) [OF l(1-3) refl]
  show ?case
  proof (cases "t = n")
    case True
    then have rs: "rs' = rs" using Cons.prems(2) by (simp add: e)
    have "rowid_gen (fold (load_table H db) (e # dump) f) db t = rowid_gen (load_table H db (n, sch', rs') f) db n"
      using load_tables_gens_other [OF l(5) [where H = H] l(4)] by (simp add: e True)
    then show ?thesis
      using min_next_past [OF assms(3,4) Cons.prems(3)] unfolding True by (simp add: gen [unfolded rs] rs)
  next
    case False
    then show ?thesis using Cons.IH [OF l(5) [where H = H]] Cons.prems(2,3) by (simp add: e gen)
  qed
qed simp

section \<open>Raw tables, views, triggers, full-text indexes\<close>

lemma fold_frame:
  assumes "\<And>x s. \<exists>y. f x s = upd (\<lambda>_. y) s" and "\<And>y z s. upd (\<lambda>_. y) (upd (\<lambda>_. z) s) = upd (\<lambda>_. y) s"
    and "\<And>s. upd (\<lambda>_. get s) s = s"
  shows "\<exists>y. fold f xs s = upd (\<lambda>_. y) s"
proof (induction xs arbitrary: s)
  case Nil
  show ?case using assms(3) [of s] by (metis fold_simps(1))
next
  case (Cons x xs)
  obtain y where y: "f x s = upd (\<lambda>_. y) s" using assms(1) by blast
  show ?case using Cons.IH [of "f x s"] by (auto simp: y assms(2))
qed

lemma load_raw_frame: "\<exists>r. load_raw H cfg db s = s\<lparr>k_raw := r\<rparr>"
proof -
  have st: "\<exists>y. load_raw_table db x s = k_raw_update (\<lambda>_. y) s" for x and s :: kvs
    by (auto simp: load_raw_table_def set_raw_table_def)
  have id: "\<exists>y. s = k_raw_update (\<lambda>_. y) s" by (rule exI [of _ "k_raw s"]) simp
  have "\<exists>y. fold (load_raw_table db) d s = k_raw_update (\<lambda>_. y) s" for d
    by (rule fold_frame [where get = k_raw]) (auto simp: st)
  then show ?thesis using id by (auto simp: load_raw_def split: option.split sum.split)
qed

lemma load_views_frame: "\<exists>v. load_views H cfg db s = s\<lparr>k_views := v\<rparr>"
proof -
  have st: "\<exists>y. (case x of (n, q) \<Rightarrow> add_view db n q) s = k_views_update (\<lambda>_. y) s" for x and s :: kvs
    by (auto simp: add_view_def split: prod.split)
  have id: "\<exists>y. s = k_views_update (\<lambda>_. y) s" by (rule exI [of _ "k_views s"]) simp
  have "\<exists>y. fold (\<lambda>(n, q). add_view db n q) d s = k_views_update (\<lambda>_. y) s" for d
    by (rule fold_frame [where get = k_views]) (auto simp: st)
  then show ?thesis using id by (auto simp: load_views_def split: option.split sum.split)
qed

lemma load_triggers_frame: "\<exists>v. load_triggers H cfg db s = s\<lparr>k_triggers := v\<rparr>"
proof -
  have st: "\<exists>y. (case x of (t, ds) \<Rightarrow> insert_triggers db t ds) s = k_triggers_update (\<lambda>_. y) s"
    for x and s :: kvs
    by (auto simp: insert_triggers_def split: prod.split)
  have id: "\<exists>y. s = k_triggers_update (\<lambda>_. y) s" by (rule exI [of _ "k_triggers s"]) simp
  have "\<exists>y. fold (\<lambda>(t, ds). insert_triggers db t ds) d s = k_triggers_update (\<lambda>_. y) s" for d
    by (rule fold_frame [where get = k_triggers]) (auto simp: st)
  then show ?thesis using id by (auto simp: load_triggers_def split: option.split sum.split)
qed

section \<open>Raw tables, views and triggers that come back\<close>

lemma load_raw_table_frame: "\<exists>r. load_raw_table db e s = s\<lparr>k_raw := r\<rparr>"
  by (auto simp: load_raw_table_def set_raw_table_def)

lemma load_raw_tables_view:
  "wf_alist d \<Longrightarrow> raw_table (fold (load_raw_table db) d s) db' t =
     (if db' = db then (case map_of d t of
          Some es \<Rightarrow> fold (\<lambda>(k, v). AList.update k v) es (raw_table s db t) | None \<Rightarrow> raw_table s db t)
      else raw_table s db' t)"
proof (induction d arbitrary: s)
  case (Cons e d)
  obtain n es where e: "e = (n, es)" by force
  have "map_of d n = None" using Cons.prems by (simp add: e map_of_eq_None_iff)
  then show ?case using Cons by (auto simp: e load_raw_table_def split: option.split)
qed simp

lemma outer_upd [simp]: "outer (f(k \<mapsto> m)) d k' = (if k' = k then m else outer f d k')"
  by (simp add: outer_def)

lemma get_view_outer: "get_view_definition s db n = map_of (outer (k_views s) [] db) n"
  by (simp add: get_view_definition_def outer_def split: option.split)

lemma get_triggers_outer:
  "get_triggers s db t = (case map_of (outer (k_triggers s) [] db) t of Some ts \<Rightarrow> ts | None \<Rightarrow> [])"
  by (simp add: get_triggers_def outer_def split: option.split)

lemma add_views_outer:
  "outer (k_views (fold (\<lambda>(n, q). add_view db n q) d s)) [] db =
     fold (\<lambda>(k, v). AList.update k v) d (outer (k_views s) [] db)"
  by (induction d arbitrary: s) (auto simp: add_view_def)

lemma insert_triggers_outer:
  "outer (k_triggers (fold (\<lambda>(t, ds). insert_triggers db t ds) d s)) [] db =
     fold (\<lambda>(k, v). AList.update k v) d (outer (k_triggers s) [] db)"
  by (induction d arbitrary: s) (auto simp: insert_triggers_def)

lemma rebuild_fts_frame: "\<exists>x. rebuild_fts H db e s = s\<lparr>k_fts := x\<rparr>"
proof -
  have id: "\<exists>x. s = s\<lparr>k_fts := x\<rparr>" for s :: kvs by (rule exI [of _ "k_fts s"]) simp
  have up: "\<exists>x. fts_update db t g s = s\<lparr>k_fts := x\<rparr>" for t g s
    using id [of s] by (auto simp: fts_update_def register_fts_table_def split: option.split)
  have reg: "\<exists>x. register_fts_table db t v s = s\<lparr>k_fts := x\<rparr>" for t v s
    by (auto simp: register_fts_table_def)
  obtain t col where e: "e = (t, col)" by force
  define step where "step = (\<lambda>(rid, r) s. case map_of r col of
      Some (VText content) \<Rightarrow> fts_update db t (\<lambda>ix. add_document ix rid content) s | _ \<Rightarrow> s)"
  have "\<exists>x. step y s = k_fts_update (\<lambda>_. x) s" for y s
    using id [of s] up by (auto simp: step_def split: prod.split option.split skvs_value.split)
  then have fl: "\<exists>x. fold step xs s = k_fts_update (\<lambda>_. x) s" for xs s
    by (rule fold_frame [where get = k_fts]) auto
  obtain x where x: "register_fts_table db t (fts_table_new t col) s = s\<lparr>k_fts := x\<rparr>" using reg by blast
  show ?thesis
    using fl [of _ "s\<lparr>k_fts := x\<rparr>"]
    by (auto simp: rebuild_fts_def e x Let_def step_def split: option.split)
qed

lemma rebuild_fts_all_frame: "\<exists>x. fold (rebuild_fts H db) es s = s\<lparr>k_fts := x\<rparr>"
  by (rule fold_frame [where get = k_fts]) (simp_all add: rebuild_fts_frame del: split_paired_All)

section \<open>A restart\<close>

text \<open>What a state has to be for its dump to say everything: every map has one entry per key.\<close>

definition dumpable :: "u32 \<Rightarrow> kvs \<Rightarrow> bool" where
  "dumpable db s \<longleftrightarrow> wf_alist (outer (k_dbs s) [] db) \<and> (\<forall>ref. wf_alist (k_heap s ref)) \<and>
     wf_alist (outer (k_raw s) [] db) \<and> (\<forall>t. wf_alist (raw_table s db t)) \<and>
     wf_alist (outer (k_views s) [] db) \<and> wf_alist (outer (k_triggers s) [] db)"

lemma state_wf_dumpable: "state_wf s \<Longrightarrow> dumpable db s"
  by (simp add: state_wf_def dumpable_def heap_wf_def)

text \<open>A state fresh from its constructor, as far as one database is concerned.\<close>

definition blank :: "u32 \<Rightarrow> kvs \<Rightarrow> bool" where
  "blank db f \<longleftrightarrow> (\<forall>t. get_table_store f db t = None) \<and> refs_fresh f \<and> (\<forall>t. raw_table f db t = []) \<and>
     outer (k_views f) [] db = [] \<and> outer (k_triggers f) [] db = [] \<and> (\<forall>t. get_schema f db t = None) \<and>
     (\<forall>t. rowid_gen f db t = 1)"

lemma perm_map_of: "mset xs = mset ys \<Longrightarrow> wf_alist ys \<Longrightarrow> wf_alist xs \<and> map_of xs = map_of ys"
  by (metis map_of_mset_eq mset_map mset_eq_imp_distinct_iff)

lemma map_of_map_entry: "map_of (map (\<lambda>(k, v). (k, g k v)) xs) k = map_option (g k) (map_of xs k)"
  by (induction xs) auto

lemma dump_tables_entry:
  assumes "host_ok H" "dumpable db s"
  shows "wf_alist (dump_tables H db s)"
    and "map_of (dump_tables H db s) t =
      map_option (\<lambda>ref. (get_schema s db t, iter_rows H (k_heap s ref))) (get_table_store s db t)"
    and "(n, sch, rs) \<in> set (dump_tables H db s) \<Longrightarrow> wf_alist rs"
proof -
  let ?m = "outer (k_dbs s) [] db"
  have p: "wf_alist (iter_tables H ?m)" "map_of (iter_tables H ?m) = map_of ?m"
    using perm_map_of [of "iter_tables H ?m" ?m] assms by (simp_all add: host_ok_def dumpable_def)
  show "wf_alist (dump_tables H db s)"
    using p(1) by (simp add: dump_tables_def comp_def case_prod_unfold)
  have "get_table_store s db t = map_of ?m t"
    by (simp add: get_table_store_def outer_def split: option.split)
  then show "map_of (dump_tables H db s) t =
      map_option (\<lambda>ref. (get_schema s db t, iter_rows H (k_heap s ref))) (get_table_store s db t)"
    by (simp add: dump_tables_def map_of_map_entry p(2))
  show "wf_alist rs" if mem: "(n, sch, rs) \<in> set (dump_tables H db s)"
  proof -
    obtain ref where "rs = iter_rows H (k_heap s ref)"
      using mem unfolding dump_tables_def by auto
    moreover have "mset (iter_rows H (k_heap s ref)) = mset (k_heap s ref)"
      using assms(1) by (simp add: host_ok_def iter_ok_def)
    ultimately show ?thesis
      using perm_map_of [of "iter_rows H (k_heap s ref)" "k_heap s ref"] assms(2) by (simp add: dumpable_def)
  qed
qed

lemma max_rowid_in: "max_rowid rs \<in> insert 0 (fst ` set rs)"
proof -
  have "fold (\<lambda>(rid, _) m. if m < rid then rid else m) rs m \<in> insert m (fst ` set rs)" for m
  proof (induction rs arbitrary: m)
    case (Cons x rs)
    let ?m = "if m < fst x then fst x else m"
    have "fold (\<lambda>(rid, _) m. if m < rid then rid else m) (x # rs) m \<in> insert ?m (fst ` set rs)"
      using Cons.IH [of ?m] by (simp add: case_prod_unfold)
    then show ?case by (simp split: if_splits) blast
  qed simp
  then show ?thesis by (simp add: max_rowid_def)
qed

lemma max_rowid_last: "max_rowid rs = -1 \<Longrightarrow> \<exists>r. (-1, r) \<in> set rs"
proof -
  assume "max_rowid rs = -1"
  then have "-1 \<in> insert (0 :: rowid) (fst ` set rs)" using max_rowid_in [of rs] by metis
  moreover have "(-1 :: rowid) \<noteq> 0" by simp
  ultimately have "-1 \<in> fst ` set rs" by blast
  then obtain x where x: "-1 = fst x" "x \<in> set rs" by (rule imageE)
  have "(fst x, snd x) \<in> set rs" using x(2) by simp
  then show ?thesis unfolding x(1) by blast
qed

lemma dump_raw_entry:
  assumes "host_ok H" "dumpable db s"
  shows "wf_alist (dump_raw H (outer (k_raw s) [] db))"
    and "map_of (case map_of (dump_raw H (outer (k_raw s) [] db)) t of
           Some es \<Rightarrow> fold (\<lambda>(k, v). AList.update k v) es [] | None \<Rightarrow> []) = map_of (raw_table s db t)"
proof -
  let ?m = "outer (k_raw s) [] db"
  have p: "wf_alist (iter_raw_tables H ?m)" "map_of (iter_raw_tables H ?m) = map_of ?m"
    using perm_map_of [of "iter_raw_tables H ?m" ?m] assms by (simp_all add: host_ok_def dumpable_def)
  show "wf_alist (dump_raw H ?m)"
    using p(1) by (simp add: dump_raw_def comp_def case_prod_unfold)
  have d: "map_of (dump_raw H ?m) t = map_option (iter_raw H) (map_of ?m t)"
    by (simp add: dump_raw_def map_of_map_entry p(2))
  show "map_of (case map_of (dump_raw H ?m) t of
           Some es \<Rightarrow> fold (\<lambda>(k, v). AList.update k v) es [] | None \<Rightarrow> []) = map_of (raw_table s db t)"
  proof (cases "map_of ?m t")
    case (Some es)
    have "wf_alist (raw_table s db t)" using assms(2) by (simp add: dumpable_def)
    then have "wf_alist es" by (simp add: raw_table_def Some)
    moreover have "mset (iter_raw H es) = mset es" using assms(1) by (simp add: host_ok_def iter_ok_def)
    ultimately show ?thesis
      using perm_map_of [of "iter_raw H es" es] by (simp add: d Some raw_table_def map_of_fold_update_wf)
  qed (simp add: d raw_table_def)
qed

text \<open>Loading the files a save left, into a state that has the database but nothing in it.\<close>

lemma load_saved:
  assumes ok: "host_ok H" "dumpable db s" and saved: "saved_files H cfg db s (k_files f)" and bl: "blank db f"
    and r: "r = load_db_snapshot H cfg db f"
  shows "\<exists>bt. r = fold (rebuild_fts H db) (fts_to_rebuild (dump_tables H db s))
      (load_triggers H cfg db (load_views H cfg db (load_raw H cfg db (fold (load_table H db) (dump_tables H db s) f))))"
    and "loadable db (dump_tables H db s) f"
    and "row_at r db t rid = row_at s db t rid"
    and "get_table_store r db t = None \<longleftrightarrow> get_table_store s db t = None"
    and "get_table_store s db t \<noteq> None \<Longrightarrow> get_schema r db t = get_schema s db t"
    and "get_view_definition r db t = get_view_definition s db t"
    and "get_triggers r db t = get_triggers s db t"
    and "map_of (raw_table r db t) = map_of (raw_table s db t)"
    and "k_files r = k_files f" and "k_overflow_dir r = k_overflow_dir f"
    and "row_at s db t rid \<noteq> None \<Longrightarrow> \<forall>x. row_at s db t x \<noteq> None \<longrightarrow> x \<noteq> -1 \<Longrightarrow> unat rid < rowid_gen r db t"
proof -
  define dump where "dump = dump_tables H db s"
  define f1 where "f1 = fold (load_table H db) dump f"
  define f2 where "f2 = load_raw H cfg db f1"
  define f3 where "f3 = load_views H cfg db f2"
  define f4 where "f4 = load_triggers H cfg db f3"
  note de = dump_tables_entry [OF ok, folded dump_def]
  have ld: "loadable db dump f"
    using bl de(1,3) by (auto simp: loadable_def blank_def)
  obtain bt br bv bg where b:
    "k_files f (snapshot_path cfg db ''tables.bin'') = Some bt" "unbin_tables H bt = Inr dump"
    "k_files f (snapshot_path cfg db ''raw.bin'') = Some br" "unbin_raw H br = Inr (dump_raw H (outer (k_raw s) [] db))"
    "k_files f (snapshot_path cfg db ''views.bin'') = Some bv"
    "unbin_views H bv = Inr (iter_views H (outer (k_views s) [] db))"
    "k_files f (snapshot_path cfg db ''triggers.bin'') = Some bg"
    "unbin_triggers H bg = Inr (iter_triggers H (outer (k_triggers s) [] db))"
    using saved by (auto simp: saved_files_def dump_def)
  have rf: "r = fold (rebuild_fts H db) (fts_to_rebuild dump) f4"
    using b(1,2) by (simp add: r load_db_snapshot_def snapshot_path_def Let_def f1_def f2_def f3_def f4_def)
  then show "\<exists>bt. r = fold (rebuild_fts H db) (fts_to_rebuild (dump_tables H db s))
      (load_triggers H cfg db (load_views H cfg db (load_raw H cfg db (fold (load_table H db) (dump_tables H db s) f))))"
    by (simp add: dump_def f1_def f2_def f3_def f4_def)
  show "loadable db (dump_tables H db s) f" using ld by (simp add: dump_def)
  obtain x where x: "r = f4\<lparr>k_fts := x\<rparr>" using rebuild_fts_all_frame rf by metis
  obtain g where g: "f4 = f3\<lparr>k_triggers := g\<rparr>" using load_triggers_frame f4_def by metis
  obtain v where v: "f3 = f2\<lparr>k_views := v\<rparr>" using load_views_frame f3_def by metis
  obtain w where w: "f2 = f1\<lparr>k_raw := w\<rparr>" using load_raw_frame f2_def by metis
  note frames = x g v w
  note rest = load_tables_rest [OF ld f1_def]
  show "k_files r = k_files f" "k_overflow_dir r = k_overflow_dir f"
    using rest by (simp_all add: frames)
  have st: "get_table_store r = get_table_store f1" "row_at r = row_at f1" "get_schema r = get_schema f1"
    "rowid_gen r = rowid_gen f1"
    by (auto simp: frames fun_eq_iff get_table_store_def row_at_def store_get_def get_schema_def rowid_gen_def
        split: option.split)
  have none: "get_table_store f db t = None" "get_schema f db t = None" "rowid_gen f db t = 1" for t
    using bl by (simp_all add: blank_def)
  have rows: "map_of (iter_rows H (k_heap s ref)) rid = map_of (k_heap s ref) rid" for ref
    using perm_map_of [of "iter_rows H (k_heap s ref)" "k_heap s ref"] ok
    by (simp add: host_ok_def iter_ok_def dumpable_def)
  show "row_at r db t rid = row_at s db t rid"
  proof -
    have "row_at r db t rid =
        (case map_of dump t of Some (sch, rs) \<Rightarrow> map_of rs rid | None \<Rightarrow> row_at f db t rid)"
      unfolding st f1_def load_tables_rows [OF ld] by simp
    then show ?thesis by (simp add: de(2) row_at_def none store_get_def rows split: option.split)
  qed
  show "get_table_store r db t = None \<longleftrightarrow> get_table_store s db t = None"
    by (simp add: st f1_def load_tables_stores [OF ld] de(2) none)
  show "get_schema r db t = get_schema s db t" if "get_table_store s db t \<noteq> None"
    using that by (auto simp: st f1_def load_tables_schema [OF ld] de(2) none split: option.split)
  have f2_files: "k_files f1 = k_files f" "k_files f2 = k_files f" "k_files f3 = k_files f"
    using rest by (simp_all add: frames)
  have outs: "outer (k_views f2) [] db = []" "outer (k_triggers f3) [] db = []" "raw_table f1 db t = []" for t
    using rest bl by (simp_all add: v w blank_def raw_table_def)
  have vw: "f3 = fold (\<lambda>(n, q). add_view db n q) (iter_views H (outer (k_views s) [] db)) f2"
    using b(5,6) by (simp add: f3_def load_views_def f2_files snapshot_path_def)
  have "map_of (outer (k_views f3) [] db) = map_of (outer (k_views s) [] db)"
    using ok perm_map_of [of "iter_views H (outer (k_views s) [] db)" "outer (k_views s) [] db"]
    unfolding vw add_views_outer outs
    by (simp add: host_ok_def dumpable_def map_of_fold_update_wf)
  then show "get_view_definition r db t = get_view_definition s db t"
    by (simp add: get_view_outer x g)
  have tg: "f4 = fold (\<lambda>(t, ds). insert_triggers db t ds) (iter_triggers H (outer (k_triggers s) [] db)) f3"
    using b(7,8) by (simp add: f4_def load_triggers_def f2_files snapshot_path_def)
  have "map_of (outer (k_triggers f4) [] db) = map_of (outer (k_triggers s) [] db)"
    using ok perm_map_of [of "iter_triggers H (outer (k_triggers s) [] db)" "outer (k_triggers s) [] db"]
    unfolding tg insert_triggers_outer outs
    by (simp add: host_ok_def dumpable_def map_of_fold_update_wf)
  then show "get_triggers r db t = get_triggers s db t"
    by (simp add: get_triggers_outer x)
  have rw: "f2 = fold (load_raw_table db) (dump_raw H (outer (k_raw s) [] db)) f1"
    using b(3,4) by (simp add: f2_def load_raw_def f2_files snapshot_path_def)
  have "raw_table r db t = raw_table f2 db t" by (simp add: raw_table_def x g v)
  then show "map_of (raw_table r db t) = map_of (raw_table s db t)"
    using dump_raw_entry(2) [OF ok, of t]
    by (simp add: rw load_raw_tables_view [OF dump_raw_entry(1) [OF ok]] outs cong: option.case_cong)
  show "unat rid < rowid_gen r db t" if row: "row_at s db t rid \<noteq> None"
    and last: "\<forall>x. row_at s db t x \<noteq> None \<longrightarrow> x \<noteq> -1"
  proof -
    obtain ref q where ref: "get_table_store s db t = Some ref" "map_of (k_heap s ref) rid = Some q"
      using row by (auto simp: row_at_def store_get_def split: option.splits)
    have i: "iter_ok H" "wf_alist (k_heap s ref)" using ok by (simp_all add: host_ok_def dumpable_def)
    have mem: "(x, y) \<in> set (iter_rows H (k_heap s ref)) \<longleftrightarrow> map_of (k_heap s ref) x = Some y" for x y
      by (simp only: iter_rows_set [OF i(1)] set_map_of [OF i(2)])
    have "max_rowid (iter_rows H (k_heap s ref)) \<noteq> -1"
    proof
      assume "max_rowid (iter_rows H (k_heap s ref)) = -1"
      then obtain y where "(-1 :: rowid, y) \<in> set (iter_rows H (k_heap s ref))"
        by (metis max_rowid_last)
      then have "row_at s db t (-1) = Some y" using mem ref(1) by (simp add: row_at_def store_get_def)
      then show False using last by blast
    qed
    then show ?thesis
      using load_tables_gens [OF ld, of t "get_schema s db t" "iter_rows H (k_heap s ref)" rid q H] ref mem
      by (simp add: st f1_def de(2) none)
  qed
qed

end
