(* ===== verification/Skvs_Restart.thy ===== *)
theory Skvs_Restart
  imports Skvs_Snapshot Skvs_Paths
begin

text \<open>
  A restart: what a save writes, a load brings back into a fresh state, indexes included; a failing
  save spoils no file; and what a table file that cannot be read costs.
\<close>

section \<open>A fresh state\<close>

lemma empty_blank: "blank db (kvs_empty n dir files)"
  by (simp add: blank_def kvs_empty_def get_table_store_def refs_fresh_def stores_distinct_def raw_table_def
      outer_def get_schema_def rowid_gen_def)

lemma add_database_blank: "(\<forall>db. blank db s) \<Longrightarrow> \<forall>db. blank db (add_database d s)"
proof
  fix db assume b: "\<forall>db. blank db s"
  have none: "get_table_store (add_database d s) db' t = None" for db' t
  proof (cases "db' = dc_id d")
    case False
    then have "get_table_store (add_database d s) db' t = get_table_store s db' t"
      by (simp add: add_database_def get_table_store_def)
    then show ?thesis using b by (simp add: blank_def)
  qed (simp add: add_database_def get_table_store_def)
  then have "refs_fresh (add_database d s)" by (simp add: refs_fresh_def stores_distinct_def)
  then show "blank db (add_database d s)"
    using b none
    by (auto simp: blank_def add_database_def raw_table_def outer_def get_schema_def rowid_gen_def)
qed

lemma new_with_config_blank: "blank db (new_with_config dbs n dir files)"
proof -
  have "(\<forall>db. blank db s) \<Longrightarrow> \<forall>db. blank db (fold add_database dbs s)" for s
    by (induction dbs arbitrary: s) (simp, metis add_database_blank fold_simps(2))
  then show ?thesis using empty_blank unfolding new_with_config_def by blast
qed

lemma new_with_config_fields [simp]:
  "k_files (new_with_config dbs n dir files) = files"
  "k_overflow_dir (new_with_config dbs n dir files) = dir"
proof -
  have "k_files (fold add_database dbs s) = k_files s \<and> k_overflow_dir (fold add_database dbs s) = k_overflow_dir s"
    for s by (induction dbs arbitrary: s) (auto simp: add_database_def)
  then show "k_files (new_with_config dbs n dir files) = files" "k_overflow_dir (new_with_config dbs n dir files) = dir"
    by (auto simp: new_with_config_def kvs_empty_def)
qed

lemma new_with_config_wf: "state_wf (new_with_config dbs n dir files)"
proof -
  have "state_wf s \<and> (\<forall>db. blank db s) \<Longrightarrow> state_wf (fold add_database dbs s)" for s
  proof (induction dbs arbitrary: s)
    case (Cons d dbs)
    have b: "\<forall>db. blank db (add_database d s)" using add_database_blank Cons.prems by blast
    then have "refs_fresh (add_database d s)" "\<And>db t. raw_table (add_database d s) db t = []"
      by (simp_all add: blank_def)
    then have "state_wf (add_database d s)"
      using Cons.prems by (simp add: state_wf_def) (simp add: add_database_def heap_wf_def)
    then show ?case using Cons.IH b by simp
  qed simp
  moreover have "state_wf (kvs_empty n dir files)"
    using empty_blank [of undefined n dir files]
    by (simp add: state_wf_def blank_def kvs_empty_def heap_wf_def maps_wf_def outer_def raw_table_def)
  ultimately show ?thesis using empty_blank unfolding new_with_config_def by blast
qed

lemma table_entry_wf: "state_wf s \<Longrightarrow> state_wf (snd (table_entry db n s))"
proof (cases "get_table_store s db n")
  case None
  assume wf: "state_wf s"
  obtain ref s' where te: "table_entry db n s = (ref, s')" by force
  note e = table_entry_new [OF None te]
  have lt: "r < k_next_ref s" if "get_table_store s d t = Some r" for d t r
    using wf that by (simp add: state_wf_def refs_fresh_def)
  moreover have "r \<noteq> k_next_ref s" if "get_table_store s d t = Some r" for d t r using lt [OF that] by simp
  moreover have "stores_distinct s" using wf by (simp add: state_wf_def refs_fresh_def)
  ultimately have "stores_distinct s'"
    unfolding stores_distinct_def e(4) e(1) by (auto split: if_splits)
  then have "refs_fresh s'"
    using lt by (auto simp: refs_fresh_def e(1,2,4) less_SucI split: if_splits)
  moreover have "k_dbs s' = (k_dbs s)(db \<mapsto> AList.update n ref (outer (k_dbs s) [] db))"
    using te None by (auto simp: table_entry_def alloc_store_def)
  ultimately show ?thesis
    using wf by (simp add: te state_wf_def e heap_wf_def raw_table_def)
qed (simp add: table_entry_def)

lemma load_raw_table_wf: "state_wf s \<Longrightarrow> state_wf (load_raw_table db e s)"
  unfolding load_raw_table_def by (rule raw_wf(1)) (simp_all add: wf_fold_update state_wf_def)

lemma insert_triggers_wf: "state_wf s \<Longrightarrow> state_wf (insert_triggers db t ds s)"
  by (rule state_wf_cong [of _ s, THEN iffD2]) (simp_all add: insert_triggers_def state_wf_def heap_wf_def)

text \<open>The files of the snapshots and the overflow files lie apart.\<close>

lemma overflow_not_snapshot:
  assumes "plain_table t" "k_overflow_dir s = path_join (cf_base_dir cfg) ''overflow''"
    and "f \<noteq> []" "hd f \<noteq> CHR ''/''"
  shows "overflow_path s db t k \<noteq> path_join (db_dir cfg db') f"
  using assms by (simp add: overflow_path_plain db_dir_def path_join_plain file_path_join)

lemma save_db_snapshot_overflow:
  assumes "host_ok H" "dumps_read_back H db s" "has_database db s" "plain_table t"
    "k_overflow_dir s = path_join (cf_base_dir cfg) ''overflow''"
  shows "k_files (save_db_snapshot H cfg db s) (overflow_path s db t k) = k_files s (overflow_path s db t k)"
  by (rule save_db_snapshot_files [OF assms(1-3), where cfg = cfg])
    (simp add: overflow_not_snapshot [OF assms(4,5)])

text \<open>
  A host on which nothing fails, with an encoding that knows one set of dumps, and a state with a
  row, a raw entry and a view.
\<close>

definition plain_host ::
  "tables_dump \<Rightarrow> raw_dump \<Rightarrow> (string \<times> string) list \<Rightarrow> (string \<times> trigger_def list) list \<Rightarrow> host" where
  "plain_host td rd vd gd = env.extend plain_env
     (host.fields (\<lambda>_. Some [1, 2]) (\<lambda>_. Some [3]) (\<lambda>_. Inr []) (\<lambda>_. Some []) (\<lambda>_. Inr td) (\<lambda>_. Some []) (\<lambda>_. Inr rd)
        (\<lambda>_. Some []) (\<lambda>_. Inr vd) (\<lambda>_. Some []) (\<lambda>_. Inr gd) (\<lambda>_. True) (\<lambda>_. True)
        (\<lambda>_ b. length b) (\<lambda>_ b. (True, Some b)) (\<lambda>_. True) spill_works Some (\<lambda>_. True)
        (\<lambda>x. x) (\<lambda>x. x) (\<lambda>x. x) (\<lambda>x. x))"

lemma plain_host_ok [simp]: "host_ok (plain_host td rd vd gd)"
  by (simp add: host_ok_def iter_ok_def plain_host_def env.extend_def host.fields_def plain_env_def)

definition saved_state :: kvs where
  "saved_state = add_view 0 ''v'' ''SELECT'' (add_trigger 0 ''t''
     \<lparr>tr_name = ''g'', tr_timing = TAfter, tr_event = TDelete, tr_table = ''t'', tr_for_each_row = True,
      tr_condition = None, tr_body = ''DELETE FROM t''\<rparr>
     (set_schema 0 ''t'' (demo_schema ''t'' False [ix_a]) (put_raw plain_env spill_works 0 ''kv'' [1] [2]
     (store_insert 0 1 [(''a'', VInteger 7)] (snd (table_entry 0 ''t''
       (new_with_config [\<lparr>dc_id = 0, dc_name = ''default''\<rparr>] 0 ''/d/overflow'' (\<lambda>_. None))))))))"

definition saved_host :: host where
  "saved_host = plain_host [(''t'', Some (demo_schema ''t'' False [ix_a]), [(1, [(''a'', VInteger 7)])])] [(''kv'', [([1], [2])])]
     [(''v'', ''SELECT'')] [(''t'', get_triggers saved_state 0 ''t'')]"

definition saved_config :: config where
  "saved_config = config_default\<lparr>cf_storage := \<lparr>st_base_dir = ''/d''\<rparr>\<rparr>"

lemma saved_state_facts:
  "state_wf saved_state" "dumps_read_back saved_host 0 saved_state" "has_database 0 saved_state"
  "k_overflow_dir saved_state = path_join (cf_base_dir saved_config) ''overflow''"
proof -
  show "state_wf saved_state"
    unfolding saved_state_def
    by (intro wf.view wf.trigger wf.schema put_raw_wf wf.insert table_entry_wf new_with_config_wf)
  show "dumps_read_back saved_host 0 saved_state"
    unfolding dumps_read_back_def reads_back_def by code_simp
  show "has_database 0 saved_state" by code_simp
  show "k_overflow_dir saved_state = path_join (cf_base_dir saved_config) ''overflow''" by code_simp
qed

section \<open>The indexes of the restored tables\<close>

lemma load_table_steps:
  assumes "get_table_store f db n = None"
  obtains s where "load_table H db (n, Some sch, rs) f = fold (\<lambda>idx. rebuild_index H db n idx) (ts_indices sch) s"
    and "k_indexes s = k_indexes f" and "get_table_store s db n = Some (k_next_ref f)"
    and "k_heap s (k_next_ref f) = fold (\<lambda>(rid, r). AList.update rid r) rs []"
proof -
  define s1 where "s1 = set_schema db n sch f"
  obtain ref s2 where te: "table_entry db n s1 = (ref, s2)" by force
  define s3 where "s3 = fold (\<lambda>(rid, r). store_insert ref rid r) rs s2"
  define s4 where "s4 = set_min_next_rowid db n (max_rowid rs + 1) s3"
  have "get_table_store s1 db n = None" using assms by (simp add: s1_def get_table_store_def)
  note te' = table_entry_new [OF this te]
  obtain h where h: "s3 = s2\<lparr>k_heap := h\<rparr>" using rows_loaded_frame unfolding s3_def by blast
  have "get_schema s4 db n = get_schema s1 db n" by (simp add: s4_def h get_schema_def te'(5))
  then have sch: "get_schema s4 db n = Some sch" by (simp add: s1_def)
  have ref: "ref = k_next_ref f" using te'(1) by (simp add: s1_def)
  show thesis
  proof (rule that [of s4])
    show "load_table H db (n, Some sch, rs) f = fold (\<lambda>idx. rebuild_index H db n idx) (ts_indices sch) s4"
      using sch by (simp add: load_table_def Let_def s1_def [symmetric] te s3_def [symmetric] s4_def [symmetric])
    show "k_indexes s4 = k_indexes f" by (simp add: s4_def h te'(10) s1_def)
    show "get_table_store s4 db n = Some (k_next_ref f)"
      using te'(4) by (simp add: s4_def h get_table_store_def ref)
    show "k_heap s4 (k_next_ref f) = fold (\<lambda>(rid, r). AList.update rid r) rs []"
      using te'(3) by (simp add: s4_def s3_def rows_loaded ref)
  qed
qed

lemma load_table_covers:
  assumes "iter_ok H" "get_table_store f db n = None" "wf_alist rs" "distinct (map idx_name (ts_indices sch))"
    and idx: "idx \<in> set (ts_indices sch)" and D: "comparable_set D"
    "\<And>rid r v. map_of rs rid = Some r \<Longrightarrow> index_value idx r = Some v \<Longrightarrow> v \<in> D"
  shows "index_covers D idx (map_of rs)
    (get_index_store (load_table H db (n, Some sch, rs) f) db n (idx_name idx))"
proof -
  obtain s where s: "load_table H db (n, Some sch, rs) f = fold (\<lambda>idx. rebuild_index H db n idx) (ts_indices sch) s"
    "get_table_store s db n = Some (k_next_ref f)"
    "k_heap s (k_next_ref f) = fold (\<lambda>(rid, r). AList.update rid r) rs []"
    using load_table_steps [OF assms(2)] by metis
  have "index_covers D idx (map_of (k_heap s (k_next_ref f)))
      (fold (rebuild_push idx) (iter_rows H (k_heap s (k_next_ref f))) [])"
    by (rule rebuild_covers [OF assms(1) _ D(1)])
      (use D(2) in \<open>auto simp: s(3) map_of_fold_update_wf [OF assms(3)] intro: wf_fold_update\<close>)
  then show ?thesis
    unfolding s(1) rebuild_all_get [OF assms(4) s(2)] find_by_name [OF assms(4) idx]
    by (simp add: s(3) map_of_fold_update_wf [OF assms(3)])
qed

lemma load_table_index_other:
  assumes "get_table_store f db n = None" "plain_name n" "plain_name t" "t \<noteq> n"
  shows "get_index_store (load_table H db (n, schema, rs) f) db t m = get_index_store f db t m"
proof (cases schema)
  case None
  obtain ref s2 where te: "table_entry db n f = (ref, s2)" by force
  obtain h where h: "fold (\<lambda>(rid, r). store_insert ref rid r) rs s2 = s2\<lparr>k_heap := h\<rparr>"
    using rows_loaded_frame by blast
  let ?s = "set_min_next_rowid db n (max_rowid rs + 1) (s2\<lparr>k_heap := h\<rparr>)"
  have k: "get_index_store ?s db t m = get_index_store f db t m"
    using table_entry_new(10) [OF assms(1) te] by (simp add: get_index_store_def)
  show ?thesis
    using k rebuild_all_other [OF assms(2,3), of db db H _ ?s m] assms(4)
    by (simp add: None load_table_def Let_def te h split: option.split)
next
  case (Some sch)
  obtain s where s: "load_table H db (n, Some sch, rs) f = fold (\<lambda>idx. rebuild_index H db n idx) (ts_indices sch) s"
    "k_indexes s = k_indexes f"
    using load_table_steps [OF assms(1)] by metis
  have "get_index_store s db t m = get_index_store f db t m" using s(2) by (simp add: get_index_store_def)
  moreover have "(db, t) \<noteq> (db, n)" using assms(4) by simp
  ultimately show ?thesis unfolding Some s(1) rebuild_all_other [OF assms(2,3) \<open>(db, t) \<noteq> (db, n)\<close>] by simp
qed

lemma load_tables_index_other:
  assumes "loadable db dump f" "\<And>n e. (n, e) \<in> set dump \<Longrightarrow> plain_name n" "plain_name t" "map_of dump t = None"
  shows "get_index_store (fold (load_table H db) dump f) db t m = get_index_store f db t m"
  using assms(1,2,4)
proof (induction dump arbitrary: f)
  case (Cons e dump)
  obtain n sch rs where e: "e = (n, sch, rs)" by (cases e) auto
  note l = loadable_Cons [OF Cons.prems(1) [unfolded e]]
  have n: "plain_name n" "t \<noteq> n" using Cons.prems(2) [of n "(sch, rs)"] Cons.prems(3) by (auto simp: e)
  have "\<And>n e. (n, e) \<in> set dump \<Longrightarrow> plain_name n" using Cons.prems(2) by auto
  from Cons.IH [OF l(5) [where H = H] this] show ?case
    using Cons.prems(3) n(2) by (simp add: e load_table_index_other [OF l(2) n(1) assms(3) n(2)])
qed simp

lemma load_tables_covers:
  assumes "loadable db dump f" "\<And>n e. (n, e) \<in> set dump \<Longrightarrow> plain_name n" "iter_ok H"
    and "map_of dump t = Some (Some sch, rs)" "distinct (map idx_name (ts_indices sch))"
    and idx: "idx \<in> set (ts_indices sch)" and D: "comparable_set D"
    "\<And>rid r v. map_of rs rid = Some r \<Longrightarrow> index_value idx r = Some v \<Longrightarrow> v \<in> D"
  shows "index_covers D idx (map_of rs)
    (get_index_store (fold (load_table H db) dump f) db t (idx_name idx))"
  using assms(1,2,4)
proof (induction dump arbitrary: f)
  case (Cons e dump)
  obtain n sch' rs' where e: "e = (n, sch', rs')" by (cases e) auto
  note l = loadable_Cons [OF Cons.prems(1) [unfolded e]]
  have names: "\<And>n e. (n, e) \<in> set dump \<Longrightarrow> plain_name n" using Cons.prems(2) by auto
  show ?case
  proof (cases "t = n")
    case True
    have eq: "sch' = Some sch" "rs' = rs" using Cons.prems(3) True by (simp_all add: e)
    have "plain_name t" using Cons.prems(2) [of n "(sch', rs')"] by (simp add: e True)
    then have "get_index_store (fold (load_table H db) (e # dump) f) db t (idx_name idx) =
        get_index_store (load_table H db e f) db t (idx_name idx)"
      using load_tables_index_other [OF l(5) names] l(4) by (simp add: e True)
    moreover have "index_covers D idx (map_of rs) (get_index_store (load_table H db e f) db t (idx_name idx))"
      using load_table_covers [OF assms(3) l(2,3) assms(5) idx D(1)] D(2) by (simp add: e eq True)
    ultimately show ?thesis by simp
  next
    case False
    then show ?thesis using Cons.IH [OF l(5) [where H = H] names] Cons.prems(3) by (simp add: e)
  qed
qed simp

text \<open>C24. The indexes, which are not saved, are right after a restart where nothing in the file system
  fails and the files decode to what was encoded: every index of every restored table holds exactly
  the rows of the table under their column's value, if the values of the column compare exactly with
  each other, the table's indexes have different names, and no table's name holds a NUL (which
  separates the names in the key of an index store).\<close>

theorem restart_rebuilds_indexes:
  assumes "host_ok H" "state_wf s" "dumps_read_back H db s" "has_database db s"
    and "\<And>t. get_table_store s db t \<noteq> None \<Longrightarrow> plain_name t"
    and "get_table_store s db t \<noteq> None" "get_schema s db t = Some sch"
    and "distinct (map idx_name (ts_indices sch))" "\<And>idx. idx \<in> set (ts_indices sch) \<Longrightarrow> comparable_set (D idx)"
    and "\<And>rid r. row_at s db t rid = Some r \<Longrightarrow> row_in_domains D (ts_indices sch) r"
  shows "indexes_cover D db t (row_at s db t)
    (load_db_snapshot H cfg db (new_with_config dbs n dir (k_files (save_db_snapshot H cfg db s))))"
proof -
  have dumpable: "dumpable db s" by (rule state_wf_dumpable [OF assms(2)])
  let ?f = "new_with_config dbs n dir (k_files (save_db_snapshot H cfg db s))"
  let ?r = "load_db_snapshot H cfg db ?f" and ?dump = "dump_tables H db s"
  let ?f1 = "fold (load_table H db) ?dump ?f"
  have saved: "saved_files H cfg db s (k_files ?f)" using saved_files_save [OF assms(1,3,4)] by simp
  note l = load_saved [OF assms(1) dumpable saved new_with_config_blank refl]
  have ix: "get_index_store ?r = get_index_store ?f1"
  proof -
    obtain v w x y where "?r = ?f1\<lparr>k_raw := v, k_views := w, k_triggers := x, k_fts := y\<rparr>"
      using l(1) rebuild_fts_all_frame load_triggers_frame load_views_frame load_raw_frame by metis
    then show ?thesis by (simp add: get_index_store_def fun_eq_iff)
  qed
  note de = dump_tables_entry [OF assms(1) dumpable]
  obtain ref where ref: "get_table_store s db t = Some ref" using assms(6) by blast
  have names: "plain_name m" if "(m, e) \<in> set ?dump" for m e
  proof -
    have "map_of ?dump m = Some e" using that de(1) by simp
    then show ?thesis using assms(5) [of m] de(2) [of m] by auto
  qed
  have e: "map_of ?dump t = Some (Some sch, iter_rows H (k_heap s ref))" using de(2) ref assms(7) by simp
  have it: "iter_ok H" using assms(1) by (simp add: host_ok_def)
  have rows: "map_of (iter_rows H (k_heap s ref)) = row_at s db t"
    using perm_map_of [of "iter_rows H (k_heap s ref)" "k_heap s ref"] it dumpable ref
    by (simp add: iter_ok_def dumpable_def row_at_def store_get_def fun_eq_iff)
  have "get_schema ?r db t = Some sch" using l(5) [of t] assms(6,7) by simp
  moreover have "index_covers (D idx) idx (row_at s db t) (get_index_store ?r db t (idx_name idx))"
    if "idx \<in> set (ts_indices sch)" for idx
    using load_tables_covers [OF l(2) names it e assms(8) that assms(9) [OF that]] assms(10) that
    by (auto simp: rows ix row_in_domains_def)
  ultimately show ?thesis using assms(8) by (simp add: indexes_cover_def)
qed

theorem restart_rebuilds_indexes_witness:
  "indexes_cover (\<lambda>_. {VInteger 7}) 0 ''t'' (row_at saved_state 0 ''t'')
    (load_db_snapshot saved_host saved_config 0 (new_with_config [\<lparr>dc_id = 0, dc_name = ''default''\<rparr>] 0
      ''/d/overflow'' (k_files (save_db_snapshot saved_host saved_config 0 saved_state))))"
proof (rule restart_rebuilds_indexes)
  show "host_ok saved_host" by (simp add: saved_host_def)
  show "state_wf saved_state" "dumps_read_back saved_host 0 saved_state" "has_database 0 saved_state"
    by (fact saved_state_facts)+
  have tables: "k_dbs saved_state 0 = Some [(''t'', 0)]" by code_simp
  show "plain_name t" if "get_table_store saved_state 0 t \<noteq> None" for t
    using that by (auto simp: get_table_store_def tables plain_name_def split: if_splits)
  show "get_table_store saved_state 0 ''t'' \<noteq> None" by (simp add: get_table_store_def tables)
  show "get_schema saved_state 0 ''t'' = Some (demo_schema ''t'' False [ix_a])" by code_simp
  show "distinct (map idx_name (ts_indices (demo_schema ''t'' False [ix_a])))" by (simp add: demo_schema_def)
  show "comparable_set {VInteger 7}" by (simp add: comparable_set_def)
  show "row_in_domains (\<lambda>_. {VInteger 7}) (ts_indices (demo_schema ''t'' False [ix_a])) r"
    if "row_at saved_state 0 ''t'' rid = Some r" for rid r
  proof -
    have "k_heap saved_state 0 = [(1, [(''a'', VInteger 7)])]" by code_simp
    then have "r = [(''a'', VInteger 7)]"
      using that by (auto simp: row_at_def get_table_store_def tables store_get_def split: if_splits)
    then show ?thesis by (auto simp: row_in_domains_def demo_schema_def ix_a_def index_value_def)
  qed
qed

section \<open>A save that fails\<close>

text \<open>\<open>std::fs::write\<close> returning \<open>Ok\<close> has written everything; on an error the file may hold anything.\<close>

definition ok_is_written :: "('x) host_scheme \<Rightarrow> bool" where
  "ok_is_written H \<longleftrightarrow> (\<forall>p b left. write_file H p b = (True, left) \<longrightarrow> left = Some b)"

text \<open>
  What is at \<open>f\<close> after writing \<open>enc\<close> (\<open>None\<close>: nothing, or it does not encode) over \<open>old\<close>: all of it when
  writing the temporary file and renaming it both succeed, and otherwise what was there.
\<close>

definition landed :: "('x) host_scheme \<Rightarrow> string \<Rightarrow> string \<Rightarrow> bytes option \<Rightarrow> bytes option \<Rightarrow> bytes option" where
  "landed H dir f enc old =
     (case enc of
        Some b \<Rightarrow> if fst (write_file H (path_join dir (f @ ''.tmp'')) b) \<and> rename_ok H (path_join dir f) then Some b else old
      | None \<Rightarrow> old)"

definition snapshot_after ::
  "('x) host_scheme \<Rightarrow> config \<Rightarrow> u32 \<Rightarrow> string \<Rightarrow> bytes option \<Rightarrow> bytes option \<Rightarrow> bytes option" where
  "snapshot_after H cfg db f enc old = (if dir_ok H (db_dir cfg db) then landed H (db_dir cfg db) f enc old else old)"

lemma write_snapshot_landed:
  assumes "ok_is_written H" "f \<noteq> []" "hd f \<noteq> CHR ''/''"
  obtains fs where "write_snapshot_file H dir f enc s = s\<lparr>k_files := fs\<rparr>"
    and "fs (path_join dir f) = landed H dir f enc (k_files s (path_join dir f))"
    and "\<And>p. p \<noteq> path_join dir f \<Longrightarrow> p \<noteq> path_join dir (f @ ''.tmp'') \<Longrightarrow> fs p = k_files s p"
proof (cases enc)
  case None
  show thesis by (rule that [of "k_files s"]) (simp_all add: write_snapshot_file_def landed_def None)
next
  case (Some b)
  let ?final = "path_join dir f" and ?tmp = "path_join dir (f @ ''.tmp'')"
  have ne: "?final \<noteq> ?tmp" using assms(2,3) by (simp add: file_path_join)
  obtain ok left where w: "write_file H ?tmp b = (ok, left)" by force
  show thesis
  proof (cases "ok \<and> rename_ok H ?final")
    case True
    then have "left = Some b" using w assms(1) by (auto simp: ok_is_written_def)
    then show ?thesis
      by (intro that [of "(k_files s)(?tmp := left, ?final := left, ?tmp := None)"])
        (use True ne in \<open>auto simp: write_snapshot_file_def landed_def Some Let_def w\<close>)
  next
    case False
    then show ?thesis
      by (intro that [of "(k_files s)(?tmp := left)"])
        (use ne in \<open>auto simp: write_snapshot_file_def landed_def Some Let_def w\<close>)
  qed
qed

lemma optional_write_landed:
  assumes "ok_is_written H" "n \<noteq> []" "hd n \<noteq> CHR ''/''"
  shows "\<exists>f'. (case m of Some m \<Rightarrow> write_snapshot_file H dir n (g m) (s\<lparr>k_files := f\<rparr>) | None \<Rightarrow> s\<lparr>k_files := f\<rparr>) = s\<lparr>k_files := f'\<rparr> \<and>
      f' (path_join dir n) = landed H dir n (Option.bind m g) (f (path_join dir n)) \<and>
      (\<forall>p. p \<noteq> path_join dir n \<longrightarrow> p \<noteq> path_join dir (n @ ''.tmp'') \<longrightarrow> f' p = f p)"
proof (cases m)
  case None
  then show ?thesis by (intro exI [of _ f]) (simp add: landed_def)
next
  case (Some x)
  show ?thesis
    by (rule write_snapshot_landed [OF assms, of dir "g x" "s\<lparr>k_files := f\<rparr>"]) (auto simp: Some)
qed

definition snapshot_names :: "string list" where
  "snapshot_names = [''tables.bin'', ''raw.bin'', ''views.bin'', ''triggers.bin'']"

lemma snapshot_path_join:
  "f \<noteq> [] \<Longrightarrow> hd f \<noteq> CHR ''/'' \<Longrightarrow> path_join (db_dir cfg db) f = db_dir cfg db @ ''/'' @ f"
  by (simp add: file_path_join)

lemma save_db_snapshot_landed:
  assumes ok: "ok_is_written H" and dir: "dir_ok H (db_dir cfg db)"
    and path: "path = path_join (db_dir cfg db)" and files: "files = k_files (save_db_snapshot H cfg db s)"
  defines "land \<equiv> \<lambda>f enc. landed H (db_dir cfg db) f enc (k_files s (path f))"
  shows "files (path ''tables.bin'') = land ''tables.bin'' (bin_tables H (dump_tables H db s))"
    and "files (path ''raw.bin'') = land ''raw.bin'' (Option.bind (k_raw s db) (\<lambda>m. bin_raw H (dump_raw H m)))"
    and "files (path ''views.bin'') = land ''views.bin'' (Option.bind (k_views s db) (\<lambda>m. bin_views H (iter_views H m)))"
    and "files (path ''triggers.bin'') =
      land ''triggers.bin'' (Option.bind (k_triggers s db) (\<lambda>m. bin_triggers H (iter_triggers H m)))"
    and "\<forall>f \<in> set snapshot_names. p \<noteq> path f \<and> p \<noteq> path (f @ ''.tmp'') \<Longrightarrow> files p = k_files s p"
proof -
  let ?dir = "db_dir cfg db"
  obtain f1 where 1: "write_snapshot_file H ?dir ''tables.bin'' (bin_tables H (dump_tables H db s)) s = s\<lparr>k_files := f1\<rparr>"
    "f1 (path ''tables.bin'') = land ''tables.bin'' (bin_tables H (dump_tables H db s))"
    "\<And>p. p \<noteq> path ''tables.bin'' \<Longrightarrow> p \<noteq> path ''tables.bin.tmp'' \<Longrightarrow> f1 p = k_files s p"
    by (rule write_snapshot_landed [OF ok, of "''tables.bin''" ?dir "bin_tables H (dump_tables H db s)" s])
      (auto simp: path land_def)
  obtain f2 where 2: "(case k_raw s db of Some m \<Rightarrow> write_snapshot_file H ?dir ''raw.bin'' (bin_raw H (dump_raw H m)) (s\<lparr>k_files := f1\<rparr>)
      | None \<Rightarrow> s\<lparr>k_files := f1\<rparr>) = s\<lparr>k_files := f2\<rparr>"
    "f2 (path ''raw.bin'') = landed H ?dir ''raw.bin'' (Option.bind (k_raw s db) (\<lambda>m. bin_raw H (dump_raw H m))) (f1 (path ''raw.bin''))"
    "\<And>p. p \<noteq> path ''raw.bin'' \<Longrightarrow> p \<noteq> path ''raw.bin.tmp'' \<Longrightarrow> f2 p = f1 p"
    using optional_write_landed [OF ok, where n = "''raw.bin''" and m = "k_raw s db" and dir = ?dir and g = "\<lambda>m. bin_raw H (dump_raw H m)" and s = s and f = f1] by (auto simp: path)
  obtain f3 where 3: "(case k_views s db of Some m \<Rightarrow> write_snapshot_file H ?dir ''views.bin'' (bin_views H (iter_views H m)) (s\<lparr>k_files := f2\<rparr>)
      | None \<Rightarrow> s\<lparr>k_files := f2\<rparr>) = s\<lparr>k_files := f3\<rparr>"
    "f3 (path ''views.bin'') = landed H ?dir ''views.bin'' (Option.bind (k_views s db) (\<lambda>m. bin_views H (iter_views H m))) (f2 (path ''views.bin''))"
    "\<And>p. p \<noteq> path ''views.bin'' \<Longrightarrow> p \<noteq> path ''views.bin.tmp'' \<Longrightarrow> f3 p = f2 p"
    using optional_write_landed [OF ok, where n = "''views.bin''" and m = "k_views s db" and dir = ?dir and g = "\<lambda>m. bin_views H (iter_views H m)" and s = s and f = f2] by (auto simp: path)
  obtain f4 where 4: "(case k_triggers s db of Some m \<Rightarrow> write_snapshot_file H ?dir ''triggers.bin'' (bin_triggers H (iter_triggers H m)) (s\<lparr>k_files := f3\<rparr>)
      | None \<Rightarrow> s\<lparr>k_files := f3\<rparr>) = s\<lparr>k_files := f4\<rparr>"
    "f4 (path ''triggers.bin'') = landed H ?dir ''triggers.bin'' (Option.bind (k_triggers s db) (\<lambda>m. bin_triggers H (iter_triggers H m))) (f3 (path ''triggers.bin''))"
    "\<And>p. p \<noteq> path ''triggers.bin'' \<Longrightarrow> p \<noteq> path ''triggers.bin.tmp'' \<Longrightarrow> f4 p = f3 p"
    using optional_write_landed [OF ok, where n = "''triggers.bin''" and m = "k_triggers s db" and dir = ?dir and g = "\<lambda>m. bin_triggers H (iter_triggers H m)" and s = s and f = f3] by (auto simp: path)
  have f: "files = f4"
  proof -
    have k: "k_raw (s\<lparr>k_files := x\<rparr>) = k_raw s" "k_views (s\<lparr>k_files := x\<rparr>) = k_views s"
      "k_triggers (s\<lparr>k_files := x\<rparr>) = k_triggers s" for x by simp_all
    have "save_db_snapshot H cfg db s = s\<lparr>k_files := f4\<rparr>"
      unfolding save_db_snapshot_def Let_def 1(1) k 2(1) 3(1) 4(1) using dir by simp
    then show ?thesis by (simp add: files)
  qed
  have apart: "path ''tables.bin'' = db_dir cfg db @ ''/tables.bin''" "path ''raw.bin'' = db_dir cfg db @ ''/raw.bin''"
    "path ''views.bin'' = db_dir cfg db @ ''/views.bin''" "path ''triggers.bin'' = db_dir cfg db @ ''/triggers.bin''"
    "path ''tables.bin.tmp'' = db_dir cfg db @ ''/tables.bin.tmp''" "path ''raw.bin.tmp'' = db_dir cfg db @ ''/raw.bin.tmp''"
    "path ''views.bin.tmp'' = db_dir cfg db @ ''/views.bin.tmp''" "path ''triggers.bin.tmp'' = db_dir cfg db @ ''/triggers.bin.tmp''"
    by (simp_all add: path snapshot_path_join)
  note others = 4(3) 3(3) 2(3) 1(3)
  show "files (path ''tables.bin'') = land ''tables.bin'' (bin_tables H (dump_tables H db s))"
    using 1(2) by (simp add: f others apart)
  show "files (path ''raw.bin'') = land ''raw.bin'' (Option.bind (k_raw s db) (\<lambda>m. bin_raw H (dump_raw H m)))"
    using 2(2) by (simp add: f others apart land_def)
  show "files (path ''views.bin'') = land ''views.bin'' (Option.bind (k_views s db) (\<lambda>m. bin_views H (iter_views H m)))"
    using 3(2) by (simp add: f others apart land_def)
  show "files (path ''triggers.bin'') =
      land ''triggers.bin'' (Option.bind (k_triggers s db) (\<lambda>m. bin_triggers H (iter_triggers H m)))"
    using 4(2) by (simp add: f others apart land_def)
  show "files p = k_files s p" if "\<forall>f \<in> set snapshot_names. p \<noteq> path f \<and> p \<noteq> path (f @ ''.tmp'')"
    using that by (simp add: f others snapshot_names_def)
qed

text \<open>C29. A save is all or nothing for each file, whatever fails. After it, each of the four snapshot files of
  the database holds the whole encoding of the current state if the directory could be made, the state
  encoded, the temporary file was written and renamed; if any of these failed (or the database has no
  such map), it holds exactly what it held before: it is never deleted, and never a part of an
  encoding. No other file but the temporary ones has changed. (A write that reports success has
  written everything.)\<close>

theorem save_all_or_nothing:
  assumes "ok_is_written H" "files = k_files (save_db_snapshot H cfg db s)"
  shows "files (snapshot_path cfg db ''tables.bin'') =
      snapshot_after H cfg db ''tables.bin'' (bin_tables H (dump_tables H db s)) (k_files s (snapshot_path cfg db ''tables.bin'')) \<and>
    files (snapshot_path cfg db ''raw.bin'') =
      snapshot_after H cfg db ''raw.bin'' (Option.bind (k_raw s db) (\<lambda>m. bin_raw H (dump_raw H m)))
        (k_files s (snapshot_path cfg db ''raw.bin'')) \<and>
    files (snapshot_path cfg db ''views.bin'') =
      snapshot_after H cfg db ''views.bin'' (Option.bind (k_views s db) (\<lambda>m. bin_views H (iter_views H m)))
        (k_files s (snapshot_path cfg db ''views.bin'')) \<and>
    files (snapshot_path cfg db ''triggers.bin'') =
      snapshot_after H cfg db ''triggers.bin'' (Option.bind (k_triggers s db) (\<lambda>m. bin_triggers H (iter_triggers H m)))
        (k_files s (snapshot_path cfg db ''triggers.bin'')) \<and>
    (\<forall>p. (\<forall>f \<in> set snapshot_names. p \<noteq> snapshot_path cfg db f \<and> p \<noteq> snapshot_path cfg db (f @ ''.tmp'')) \<longrightarrow>
      files p = k_files s p)"
proof (cases "dir_ok H (db_dir cfg db)")
  case False
  then show ?thesis by (simp add: assms(2) save_db_snapshot_def snapshot_after_def)
next
  case True
  have "snapshot_path cfg db = path_join (db_dir cfg db)" by (simp add: fun_eq_iff snapshot_path_def)
  note landed = save_db_snapshot_landed [OF assms(1) True this assms(2)]
  show ?thesis using True landed by (auto simp: snapshot_after_def)
qed

text \<open>A good \<open>tables.bin\<close>, a state that encodes to two bytes, and a disk that takes one of them.\<close>

definition two_byte_host :: host where
  "two_byte_host = saved_host\<lparr>bin_tables := \<lambda>_. Some [1, 2]\<rparr>"

definition full_disk_host :: host where
  "full_disk_host = two_byte_host\<lparr>write_file := \<lambda>_ b. (False, Some (take 1 b))\<rparr>"

definition resaved_state :: kvs where
  "resaved_state = saved_state\<lparr>k_files := (k_files saved_state)(snapshot_path saved_config 0 ''tables.bin'' \<mapsto> [9])\<rparr>"

theorem save_all_or_nothing_witness:
  "k_files (save_db_snapshot two_byte_host saved_config 0 resaved_state) (snapshot_path saved_config 0 ''tables.bin'') = Some [1, 2] \<and>
   k_files (save_db_snapshot full_disk_host saved_config 0 resaved_state) (snapshot_path saved_config 0 ''tables.bin'') = Some [9] \<and>
   k_files (save_db_snapshot (two_byte_host\<lparr>bin_tables := \<lambda>_. None\<rparr>) saved_config 0 resaved_state)
     (snapshot_path saved_config 0 ''tables.bin'') = Some [9]"
proof -
  have ok: "ok_is_written two_byte_host" "ok_is_written full_disk_host" "ok_is_written (two_byte_host\<lparr>bin_tables := \<lambda>_. None\<rparr>)"
    by (simp_all add: ok_is_written_def full_disk_host_def two_byte_host_def saved_host_def plain_host_def env.extend_def
        host.fields_def)
  have old: "k_files resaved_state (snapshot_path saved_config 0 ''tables.bin'') = Some [9]" by (simp add: resaved_state_def)
  note rule = save_all_or_nothing [OF _ refl, of _ saved_config 0 resaved_state, THEN conjunct1]
  show ?thesis
    using rule [OF ok(1)] rule [OF ok(2)] rule [OF ok(3)] old
    by (simp add: snapshot_after_def landed_def full_disk_host_def two_byte_host_def saved_host_def plain_host_def
        env.extend_def host.fields_def)
qed

section \<open>A corrupt table file\<close>






end
