(* ===== verification/Skvs_Databases.thy ===== *)
theory Skvs_Databases
  imports Skvs_Restart
begin

text \<open>
  \<open>save_sql_snapshot\<close> and \<open>load_sql_snapshot\<close> over all databases: each keeps its files in a
  directory of its own and its load leaves the others alone, so that a load of what was saved
  brings back every database (\<open>load_all_restored\<close>).
\<close>

section \<open>Every database\<close>

text \<open>Databases keep their files in directories of their own.\<close>

lemma db_dir_apart: "d \<noteq> db \<Longrightarrow> path_join (db_dir cfg d) f \<noteq> path_join (db_dir cfg db) g"
  if "f \<noteq> []" "hd f \<noteq> CHR ''/''" "g \<noteq> []" "hd g \<noteq> CHR ''/''" for f g
proof
  assume ne: "d \<noteq> db" and eq: "path_join (db_dir cfg d) f = path_join (db_dir cfg db) g"
  have "path_join b (''db_'' @ x) = b @ ''/'' @ ''db_'' @ x" for b x by (simp add: file_path_join)
  then have "show_int (uint d) @ CHR ''/'' # f = show_int (uint db) @ CHR ''/'' # g"
    using eq that by (simp add: db_dir_def file_path_join)
  then have "show_int (uint d) = show_int (uint db)"
    using append_sep_inj [OF show_id_plain show_id_plain] by blast
  then show False using ne show_id_inj by blast
qed

text \<open>A snapshot writes its own files only.\<close>

lemma write_snapshot_frame: "\<exists>fs. write_snapshot_file H dir f enc s = s\<lparr>k_files := fs\<rparr>"
proof (cases enc)
  case None
  show ?thesis by (rule exI [of _ "k_files s"]) (simp add: write_snapshot_file_def None)
qed (auto simp: write_snapshot_file_def Let_def split: prod.split)

lemma write_snapshot_others:
  "p \<noteq> path_join dir f \<Longrightarrow> p \<noteq> path_join dir (f @ ''.tmp'') \<Longrightarrow>
   k_files (write_snapshot_file H dir f enc s) p = k_files s p"
  by (auto simp: write_snapshot_file_def Let_def split: option.split prod.split)

text \<open>What every step of a save keeps, the save keeps.\<close>

lemma save_induct:
  assumes "P s" "\<And>s f enc. P s \<Longrightarrow> f \<in> set snapshot_names \<Longrightarrow> P (write_snapshot_file H (db_dir cfg db) f enc s)"
  shows "P (save_db_snapshot H cfg db s)"
  using assms by (auto simp: save_db_snapshot_def Let_def snapshot_names_def split: option.split)

lemma save_frame: "\<exists>fs. save_db_snapshot H cfg db s = s\<lparr>k_files := fs\<rparr>"
proof (rule save_induct [where P = "\<lambda>s'. \<exists>fs. s' = s\<lparr>k_files := fs\<rparr>"])
  have "s = s\<lparr>k_files := k_files s\<rparr>" by simp
  then show "\<exists>fs. s = s\<lparr>k_files := fs\<rparr>" by blast
  show "\<exists>fs. write_snapshot_file H (db_dir cfg db) f enc s' = s\<lparr>k_files := fs\<rparr>"
    if "\<exists>fs. s' = s\<lparr>k_files := fs\<rparr>" for s' f enc
    using that write_snapshot_frame [of H "db_dir cfg db" f enc s'] by auto
qed

lemma save_db_snapshot_others:
  assumes "\<And>f. f \<in> set snapshot_names \<Longrightarrow> p \<noteq> path_join (db_dir cfg db) f \<and> p \<noteq> path_join (db_dir cfg db) (f @ ''.tmp'')"
  shows "k_files (save_db_snapshot H cfg db s) p = k_files s p"
  by (rule save_induct [where P = "\<lambda>s'. k_files s' p = k_files s p"])
    (simp_all add: write_snapshot_others assms)

lemma save_other_db:
  assumes "d \<noteq> db" "f \<noteq> []" "hd f \<noteq> CHR ''/''"
  shows "k_files (save_db_snapshot H cfg d s) (path_join (db_dir cfg db) f) = k_files s (path_join (db_dir cfg db) f)"
  using db_dir_apart [OF assms(2,3) _ _ assms(1) [THEN not_sym]]
  by (intro save_db_snapshot_others) (auto simp: snapshot_names_def)

lemma dump_files [simp]:
  "dumps_read_back H db (s\<lparr>k_files := fs\<rparr>) = dumps_read_back H db s"
  "has_database db (s\<lparr>k_files := fs\<rparr>) = has_database db s"
  "saved_files H cfg db (s\<lparr>k_files := fs\<rparr>) files = saved_files H cfg db s files"
  by (simp_all add: dumps_read_back_def has_database_def saved_files_def dump_tables_def get_schema_def)

lemma save_all_frame: "\<exists>fs. save_sql_snapshot H cfg dbs s = s\<lparr>k_files := fs\<rparr>"
  unfolding save_sql_snapshot_def
  by (rule fold_frame [where get = k_files]) (simp_all add: save_frame)

lemma save_all_other:
  assumes "db \<notin> set dbs" "f \<noteq> []" "hd f \<noteq> CHR ''/''"
  shows "k_files (save_sql_snapshot H cfg dbs s) (path_join (db_dir cfg db) f) = k_files s (path_join (db_dir cfg db) f)"
  using assms(1)
proof (induction dbs arbitrary: s)
  case (Cons d dbs)
  then show ?case
    using save_other_db [of d db f H cfg s] assms(2,3) by (auto simp: save_sql_snapshot_def)
qed (simp add: save_sql_snapshot_def)

lemma save_all_files:
  assumes "host_ok H" "dumps_read_back H db s" "has_database db s" "distinct dbs" "db \<in> set dbs"
  shows "saved_files H cfg db s (k_files (save_sql_snapshot H cfg dbs s))"
  using assms(2-5)
proof (induction dbs arbitrary: s)
  case (Cons d dbs)
  obtain fs where fs: "save_db_snapshot H cfg d s = s\<lparr>k_files := fs\<rparr>" using save_frame by blast
  show ?case
  proof (cases "db = d")
    case True
    have "saved_files H cfg db s fs"
      using saved_files_save [OF assms(1) Cons.prems(1,2), of cfg] by (simp add: fs True)
    moreover have "k_files (save_sql_snapshot H cfg dbs (s\<lparr>k_files := fs\<rparr>)) (snapshot_path cfg db f) = fs (snapshot_path cfg db f)"
      if "f \<noteq> []" "hd f \<noteq> CHR ''/''" for f
      using save_all_other [of db dbs f H cfg "s\<lparr>k_files := fs\<rparr>"] Cons.prems(3) that
      by (simp add: True snapshot_path_def)
    ultimately show ?thesis by (simp add: save_sql_snapshot_def fs saved_files_def)
  next
    case False
    then show ?thesis using Cons.IH [of "s\<lparr>k_files := fs\<rparr>"] Cons.prems by (simp add: save_sql_snapshot_def fs)
  qed
qed simp

text \<open>What one database's load leaves of another's.\<close>

definition same_db :: "u32 \<Rightarrow> kvs \<Rightarrow> kvs \<Rightarrow> bool" where
  "same_db db s s' \<longleftrightarrow> (\<forall>t rid. row_at s' db t rid = row_at s db t rid) \<and>
     (\<forall>t. get_table_store s' db t = None \<longleftrightarrow> get_table_store s db t = None) \<and>
     (\<forall>t. get_schema s' db t = get_schema s db t) \<and>
     outer (k_views s') [] db = outer (k_views s) [] db \<and> outer (k_triggers s') [] db = outer (k_triggers s) [] db \<and>
     (\<forall>t. raw_table s' db t = raw_table s db t) \<and> (\<forall>t. rowid_gen s' db t = rowid_gen s db t)"

lemma same_db_trans: "same_db db s s1 \<Longrightarrow> same_db db s1 s2 \<Longrightarrow> same_db db s s2"
  by (simp add: same_db_def)

lemma load_tables_gens_elsewhere:
  "loadable db dump f \<Longrightarrow> db' \<noteq> db \<Longrightarrow> rowid_gen (fold (load_table H db) dump f) db' t = rowid_gen f db' t"
proof (induction dump arbitrary: f)
  case (Cons e dump)
  obtain n sch rs where e: "e = (n, sch, rs)" by (cases e) auto
  note l = loadable_Cons [OF Cons.prems(1) [unfolded e]]
  show ?case using Cons.IH [OF l(5) [where H = H]] Cons.prems(2)
    by (simp add: e load_table_effect(10) [OF l(1-3) refl])
qed simp

lemma load_outers_elsewhere:
  "db' \<noteq> db \<Longrightarrow> outer (k_views (load_views H cfg db s)) [] db' = outer (k_views s) [] db'"
  "db' \<noteq> db \<Longrightarrow> outer (k_triggers (load_triggers H cfg db s)) [] db' = outer (k_triggers s) [] db'"
  "db' \<noteq> db \<Longrightarrow> raw_table (load_raw H cfg db s) db' t = raw_table s db' t"
proof -
  assume ne: "db' \<noteq> db"
  have "outer (k_views (fold (\<lambda>(n, q). add_view db n q) d s)) [] db' = outer (k_views s) [] db'" for d
    using ne by (induction d arbitrary: s) (auto simp: add_view_def)
  then show "outer (k_views (load_views H cfg db s)) [] db' = outer (k_views s) [] db'"
    by (simp add: load_views_def split: option.split sum.split)
  have "outer (k_triggers (fold (\<lambda>(t, ds). insert_triggers db t ds) d s)) [] db' = outer (k_triggers s) [] db'" for d
    using ne by (induction d arbitrary: s) (auto simp: insert_triggers_def)
  then show "outer (k_triggers (load_triggers H cfg db s)) [] db' = outer (k_triggers s) [] db'"
    by (simp add: load_triggers_def split: option.split sum.split)
  have "raw_table (fold (load_raw_table db) d s) db' t = raw_table s db' t" for d
    using ne by (induction d arbitrary: s) (auto simp: load_raw_table_def)
  then show "raw_table (load_raw H cfg db s) db' t = raw_table s db' t"
    by (simp add: load_raw_def split: option.split sum.split)
qed

lemma load_saved_other:
  assumes ok: "host_ok H" "dumpable db s" and saved: "saved_files H cfg db s (k_files f)" and bl: "blank db f"
  shows "db' \<noteq> db \<Longrightarrow> same_db db' f (load_db_snapshot H cfg db f)" "refs_fresh (load_db_snapshot H cfg db f)"
    "k_files (load_db_snapshot H cfg db f) = k_files f"
    "k_overflow_dir (load_db_snapshot H cfg db f) = k_overflow_dir f"
proof -
  let ?r = "load_db_snapshot H cfg db f" and ?dump = "dump_tables H db s"
  let ?f1 = "fold (load_table H db) ?dump f"
  note l = load_saved [OF ok saved bl refl]
  define f2 where "f2 = load_raw H cfg db ?f1"
  define f3 where "f3 = load_views H cfg db f2"
  define f4 where "f4 = load_triggers H cfg db f3"
  obtain x where x: "?r = f4\<lparr>k_fts := x\<rparr>"
    using l(1) rebuild_fts_all_frame unfolding f4_def f3_def f2_def by metis
  obtain g where g: "f4 = f3\<lparr>k_triggers := g\<rparr>" using load_triggers_frame f4_def by metis
  obtain v where v: "f3 = f2\<lparr>k_views := v\<rparr>" using load_views_frame f3_def by metis
  obtain w where w: "f2 = ?f1\<lparr>k_raw := w\<rparr>" using load_raw_frame f2_def by metis
  note frames = x g v w
  note ld = l(2)
  note rest = load_tables_rest [OF ld refl, of H]
  have st: "get_table_store ?r = get_table_store ?f1" "row_at ?r = row_at ?f1" "get_schema ?r = get_schema ?f1"
    "rowid_gen ?r = rowid_gen ?f1"
    by (auto simp: frames fun_eq_iff get_table_store_def row_at_def store_get_def get_schema_def rowid_gen_def
        split: option.split)
  have outs: "outer (k_views ?r) [] db' = outer (k_views f) [] db'" (is ?V)
    "outer (k_triggers ?r) [] db' = outer (k_triggers f) [] db'" (is ?T)
    "raw_table ?r db' t = raw_table f db' t" (is ?R) if ne: "db' \<noteq> db" for t
  proof -
    have "outer (k_views ?r) [] db' = outer (k_views f3) [] db'" by (simp add: x g)
    also have "\<dots> = outer (k_views f2) [] db'" unfolding f3_def by (rule load_outers_elsewhere(1) [OF ne])
    also have "\<dots> = outer (k_views f) [] db'" using rest by (simp add: w)
    finally show ?V .
    have "outer (k_triggers ?r) [] db' = outer (k_triggers f4) [] db'" by (simp add: x)
    also have "\<dots> = outer (k_triggers f3) [] db'" unfolding f4_def by (rule load_outers_elsewhere(2) [OF ne])
    also have "\<dots> = outer (k_triggers f) [] db'" using rest by (simp add: v w)
    finally show ?T .
    have "raw_table ?r db' t = raw_table f2 db' t" by (simp add: x g v raw_table_def)
    also have "\<dots> = raw_table ?f1 db' t" unfolding f2_def by (rule load_outers_elsewhere(3) [OF ne])
    also have "\<dots> = raw_table f db' t" using rest by (simp add: raw_table_def)
    finally show ?R .
  qed
  show "same_db db' f ?r" if ne: "db' \<noteq> db"
    unfolding same_db_def st load_tables_rows [OF ld] load_tables_stores [OF ld] load_tables_schema [OF ld]
    using ne by (simp add: load_tables_gens_elsewhere [OF ld] outs)
  show "k_files ?r = k_files f" "k_overflow_dir ?r = k_overflow_dir f" by (fact l(9,10))+
  have "refs_fresh ?f1" by (rule load_tables_fresh [OF ld])
  then show "refs_fresh ?r" using refs_fresh_cong [of ?r ?f1] by (simp add: frames)
qed

lemma blank_same_db: "blank db f \<Longrightarrow> same_db db f f' \<Longrightarrow> refs_fresh f' \<Longrightarrow> blank db f'"
  by (simp add: blank_def same_db_def)

text \<open>The restored state, seen from one database.\<close>

definition restored :: "u32 \<Rightarrow> kvs \<Rightarrow> kvs \<Rightarrow> bool" where
  "restored db s r \<longleftrightarrow>
    (\<forall>t rid. row_at r db t rid = row_at s db t rid) \<and>
    (\<forall>t. get_table_store r db t = None \<longleftrightarrow> get_table_store s db t = None) \<and>
    (\<forall>t. get_table_store s db t \<noteq> None \<longrightarrow> get_schema r db t = get_schema s db t) \<and>
    (\<forall>v. get_view_definition r db v = get_view_definition s db v) \<and>
    (\<forall>t. get_triggers r db t = get_triggers s db t) \<and>
    (\<forall>t. map_of (raw_table r db t) = map_of (raw_table s db t)) \<and>
    (\<forall>t rid. row_at s db t (-1) = None \<and> row_at s db t rid \<noteq> None \<longrightarrow> unat rid < rowid_gen r db t)"

lemma restored_same: "restored db s r \<Longrightarrow> same_db db r r' \<Longrightarrow> restored db s r'"
  by (simp add: restored_def same_db_def get_view_outer get_triggers_outer)

lemma load_saved_restored:
  assumes "host_ok H" "dumpable db s" "saved_files H cfg db s (k_files f)" "blank db f"
  shows "restored db s (load_db_snapshot H cfg db f)"
  using load_saved [OF assms refl] unfolding restored_def by (metis (no_types, lifting))

lemma load_all_same:
  assumes "host_ok H" "\<forall>d. dumpable d s" "\<forall>d \<in> set dbs. saved_files H cfg d s (k_files f) \<and> blank d f"
    "distinct dbs" "refs_fresh f"
  shows "(\<forall>db. db \<notin> set dbs \<longrightarrow> same_db db f (load_sql_snapshot H cfg dbs f)) \<and>
    refs_fresh (load_sql_snapshot H cfg dbs f) \<and> k_files (load_sql_snapshot H cfg dbs f) = k_files f \<and>
    k_overflow_dir (load_sql_snapshot H cfg dbs f) = k_overflow_dir f"
  using assms(3-5)
proof (induction dbs arbitrary: f)
  case Nil
  then show ?case by (simp add: load_sql_snapshot_def same_db_def)
next
  case (Cons d dbs)
  let ?g = "load_db_snapshot H cfg d f"
  have d: "dumpable d s" "saved_files H cfg d s (k_files f)" "blank d f" using Cons.prems(1) assms(2) by auto
  note o = load_saved_other [OF assms(1) d]
  have "saved_files H cfg e s (k_files ?g) \<and> blank e ?g" if e: "e \<in> set dbs" for e
    using blank_same_db [OF _ o(1,2)] Cons.prems(1,2) e by (auto simp: o(3))
  then have IH: "(\<forall>db. db \<notin> set dbs \<longrightarrow> same_db db ?g (load_sql_snapshot H cfg dbs ?g)) \<and>
      refs_fresh (load_sql_snapshot H cfg dbs ?g) \<and> k_files (load_sql_snapshot H cfg dbs ?g) = k_files ?g \<and>
      k_overflow_dir (load_sql_snapshot H cfg dbs ?g) = k_overflow_dir ?g"
    using Cons.IH [of ?g] Cons.prems(2) o(2) by simp
  have eq: "load_sql_snapshot H cfg (d # dbs) f = load_sql_snapshot H cfg dbs ?g"
    by (simp add: load_sql_snapshot_def)
  show ?case unfolding eq using IH o same_db_trans by (metis list.set_intros)
qed

lemma load_all_restored:
  assumes "host_ok H" "\<forall>d. dumpable d s" "\<forall>d \<in> set dbs. saved_files H cfg d s (k_files f) \<and> blank d f"
    "distinct dbs" "refs_fresh f" "db \<in> set dbs"
  shows "restored db s (load_sql_snapshot H cfg dbs f)"
proof -
  obtain xs ys where dbs: "dbs = xs @ db # ys" using assms(6) by (meson split_list)
  have nin: "db \<notin> set xs" "db \<notin> set ys" using assms(4) by (auto simp: dbs)
  define g where "g = load_sql_snapshot H cfg xs f"
  define h where "h = load_db_snapshot H cfg db g"
  have gx: "same_db e f g" "refs_fresh g" "k_files g = k_files f" if "e \<notin> set xs" for e
    using load_all_same [OF assms(1,2), of xs cfg f] assms(3-5) that by (auto simp: dbs g_def)
  have gb: "saved_files H cfg e s (k_files g) \<and> blank e g" if "e \<in> set (db # ys)" for e
  proof -
    have "e \<notin> set xs" using assms(4) that by (auto simp: dbs)
    then show ?thesis using blank_same_db [OF _ gx(1,2)] gx(3) assms(3) that by (auto simp: dbs)
  qed
  have dd: "dumpable db s" "saved_files H cfg db s (k_files g)" "blank db g" using assms(2) gb by auto
  note o = load_saved_other [OF assms(1) dd, folded h_def]
  have hb: "saved_files H cfg e s (k_files h) \<and> blank e h" if "e \<in> set ys" for e
    using blank_same_db [OF _ o(1,2)] gb that nin(2) by (auto simp: o(3))
  have "same_db db h (load_sql_snapshot H cfg ys h)"
    using load_all_same [OF assms(1,2), of ys cfg h] hb assms(4) o(2) nin(2) by (auto simp: dbs)
  moreover have "restored db s h" unfolding h_def by (rule load_saved_restored [OF assms(1) dd])
  moreover have "load_sql_snapshot H cfg dbs f = load_sql_snapshot H cfg ys h"
    by (simp add: load_sql_snapshot_def dbs h_def g_def)
  ultimately show ?thesis using restored_same by simp
qed

end
