(* ===== verification/Skvs_Server.thy ===== *)
theory Skvs_Server
  imports Skvs_Databases
begin

text \<open>
  The facade of \<^verbatim>\<open>src/src/lib.rs\<close> and the state it keeps: a running node is the engine's state
  with the channel, batch and permit of the log writer (\<open>WalWriter\<close> of \<^verbatim>\<open>src/src/wal.rs\<close>), whose
  loop is one function per branch of its \<open>select!\<close>. A process is the static cells. The calls of
  the API are the \<open>api_\<close> functions; an error is seen as its \<open>Display\<close> text.
\<close>

section \<open>A running node\<close>

text \<open>
  The state, the log writer's channel and current batch, the permit of its \<open>Notify\<close>, and the
  datagrams handed to the network so far.
\<close>

record node =
  nd_config :: config
  nd_kvs :: kvs
  nd_queue :: "operation list"
  nd_batch :: "operation list"
  nd_permit :: bool
  nd_sent :: "bytes list"

definition node_new :: "config \<Rightarrow> kvs \<Rightarrow> node" where
  "node_new cfg s =
     \<lparr>nd_config = cfg, nd_kvs = s, nd_queue = [], nd_batch = [], nd_permit = False, nd_sent = []\<rparr>"

definition on_kvs :: "(kvs \<Rightarrow> kvs) \<Rightarrow> node \<Rightarrow> node" where
  "on_kvs f nd = nd\<lparr>nd_kvs := f (nd_kvs nd)\<rparr>"

definition send_operation :: "operation \<Rightarrow> node \<Rightarrow> node" where
  "send_operation op nd = nd\<lparr>nd_queue := nd_queue nd @ [op]\<rparr>"

definition flush_now :: "node \<Rightarrow> node" where
  "flush_now nd = nd\<lparr>nd_permit := True\<rparr>"

section \<open>The log writer's loop\<close>

text \<open>The peer's address, if configured and well-formed.\<close>

definition peer_addr :: "('x) host_scheme \<Rightarrow> config \<Rightarrow> string option" where
  "peer_addr H cfg = (case cf_peer cfg of Some p \<Rightarrow> peer_address H (pc_address p) | None \<Rightarrow> None)"

text \<open>\<open>write_batch\<close>, \<open>send_batch\<close> to the peer, \<open>clear\<close>.\<close>

definition flush_batch :: "('x) host_scheme \<Rightarrow> node \<Rightarrow> node" where
  "flush_batch H nd =
     nd\<lparr>nd_kvs := write_batch H (nd_config nd) (nd_batch nd) (nd_kvs nd),
        nd_sent := nd_sent nd @ (if peer_addr H (nd_config nd) \<noteq> None then send_batch H (nd_batch nd) else []),
        nd_batch := []\<rparr>"

definition flush_nonempty :: "('x) host_scheme \<Rightarrow> node \<Rightarrow> node" where
  "flush_nonempty H nd = (if nd_batch nd \<noteq> [] then flush_batch H nd else nd)"

text \<open>The timer branch: the batch, then a snapshot of the databases (in the order \<open>dbs\<close> they come in).\<close>

definition on_tick :: "('x) host_scheme \<Rightarrow> u32 list \<Rightarrow> node \<Rightarrow> node" where
  "on_tick H dbs nd =
     (let nd1 = flush_nonempty H nd in on_kvs (save_sql_snapshot H (nd_config nd1) dbs) nd1)"

text \<open>The notified branch takes the permit and does the same.\<close>

definition on_notified :: "('x) host_scheme \<Rightarrow> u32 list \<Rightarrow> node \<Rightarrow> node" where
  "on_notified H dbs nd =
     (let nd1 = flush_nonempty H (nd\<lparr>nd_permit := False\<rparr>)
      in on_kvs (save_sql_snapshot H (nd_config nd1) dbs) nd1)"

text \<open>The receiving branch: one operation from the channel, a write when the batch is full.\<close>

definition on_receive :: "('x) host_scheme \<Rightarrow> node \<Rightarrow> node" where
  "on_receive H nd =
     (case nd_queue nd of
        [] \<Rightarrow> nd
      | op # rest \<Rightarrow>
          (let nd1 = nd\<lparr>nd_queue := rest, nd_batch := nd_batch nd @ [op]\<rparr>
           in if cf_batch_size (nd_config nd1) \<le> length (nd_batch nd1) then flush_batch H nd1 else nd1))"

section \<open>Replies\<close>

text \<open>The \<open>Display\<close> form of an error, which is what the caller sees.\<close>

fun error_message :: "skvs_error \<Rightarrow> string" where
  "error_message (EConfig m) = ''Config error: '' @ m"
| "error_message (EIo m) = ''I/O error: '' @ m"
| "error_message (ESerialization m) = ''Serialization error: '' @ m"
| "error_message (ESqlParse m) = ''SQL parse error: '' @ m"
| "error_message (EConstraintViolation m) = ''Constraint violation: '' @ m"
| "error_message (EUnsupported m) = ''Unsupported operation: '' @ m"
| "error_message (ETransaction m) = ''Transaction error: '' @ m"
| "error_message (ESchema m) = ''Schema error: '' @ m"
| "error_message (EStorage m) = ''Storage error: '' @ m"
| "error_message (ETrigger m) = ''Trigger error: '' @ m"
| "error_message (EView m) = ''View error: '' @ m"
| "error_message (EJson m) = ''JSON error: '' @ m"
| "error_message (EFts m) = ''FTS error: '' @ m"

text \<open>A value, a JavaScript error with its reason, a panic, or the recursion bound reached.\<close>

datatype 'a reply = Reply 'a | Reason string | Crash | TooDeep

fun to_reply :: "'a outcome \<Rightarrow> 'a reply" where
  "to_reply (Done x) = Reply x"
| "to_reply (Fail e) = Reason (error_message e)"
| "to_reply Panic = Crash"
| "to_reply NoFuel = TooDeep"

section \<open>The process\<close>

text \<open>The static cells: the runtime is set on its own, the others together.\<close>

record process =
  pr_runtime :: bool
  pr_node :: "node option"

definition process_new :: process where
  "process_new = \<lparr>pr_runtime = False, pr_node = None\<rparr>"

text \<open>The databases \<open>load_snapshot\<close> goes through: those of the configuration, in the map's order.\<close>

definition configured :: "config \<Rightarrow> u32 list" where
  "configured cfg = remdups (map dc_id (cf_databases cfg))"

definition start_node ::
  "('x) host_scheme \<Rightarrow> (u32 list \<Rightarrow> u32 list) \<Rightarrow> (string \<Rightarrow> bytes option) \<Rightarrow> config \<Rightarrow> node" where
  "start_node H order files cfg =
     node_new cfg (load_sql_snapshot H cfg (order (configured cfg))
       (new_with_config (cf_databases cfg) (unat (mc_max_entries_per_table (cf_memory cfg)))
          (cf_base_dir cfg @ ''/overflow'') files))"

text \<open>Creating the thread pool and its threads succeeds here.\<close>

definition api_init ::
  "('x) host_scheme \<Rightarrow> (u32 list \<Rightarrow> u32 list) \<Rightarrow> (string \<Rightarrow> string + config) \<Rightarrow> (string \<Rightarrow> bytes option)
     \<Rightarrow> string option \<Rightarrow> process \<Rightarrow> unit reply \<times> process" where
  "api_init H order toml files config_path p =
     (if pr_node p \<noteq> None then (Reply (), p)
      else if pr_runtime p then (Reason ''Runtime already set'', p)
      else
        (let p1 = p\<lparr>pr_runtime := True\<rparr>;
             path = (case config_path of Some c \<Rightarrow> c | None \<Rightarrow> ''/etc/skvs/config.toml'')
         in case load_config toml files path of
              Inl e \<Rightarrow> (Reason e, p1)
            | Inr cfg \<Rightarrow> (Reply (), p1\<lparr>pr_node := Some (start_node H order files cfg)\<rparr>)))"

definition with_node :: "(node \<Rightarrow> 'a reply \<times> node) \<Rightarrow> process \<Rightarrow> 'a reply \<times> process" where
  "with_node f p =
     (case pr_node p of
        None \<Rightarrow> (Reason ''Not initialized'', p)
      | Some nd \<Rightarrow> (let (r, nd') = f nd in (r, p\<lparr>pr_node := Some nd'\<rparr>)))"

definition node_exec :: "(kvs, 'a) exec \<Rightarrow> node \<Rightarrow> 'a reply \<times> node" where
  "node_exec m nd = (let (r, s) = m (nd_kvs nd) in (to_reply r, nd\<lparr>nd_kvs := s\<rparr>))"

definition api_get_db_id_by_name :: "string \<Rightarrow> process \<Rightarrow> u32 option" where
  "api_get_db_id_by_name name p =
     (case pr_node p of Some nd \<Rightarrow> get_db_id (nd_kvs nd) name | None \<Rightarrow> None)"

text \<open>A parameter as the body of \<open>query\<close> gets it: the JSON value napi has made of it.\<close>

definition param_value :: "('x) codec_scheme \<Rightarrow> json \<Rightarrow> skvs_value" where
  "param_value c j = (case value_from_json c j of Some v \<Rightarrow> v | None \<Rightarrow> VNull)"

definition row_json :: "('x) codec_scheme \<Rightarrow> row \<Rightarrow> json" where
  "row_json c r = JObject (map (\<lambda>(k, v). (k, value_to_json c v)) r)"

text \<open>The clock's readings are the argument \<open>timing\<close>.\<close>

definition result_json :: "('x) codec_scheme \<Rightarrow> json \<Rightarrow> query_result \<Rightarrow> json" where
  "result_json c timing r =
     JObject [(''columns'', JArray (map JString (qr_columns r))),
       (''rows'', JArray (map (row_json c) (qr_rows r))),
       (''affected_rows'', (case qr_affected r of Some n \<Rightarrow> JNumber (JPosInt n) | None \<Rightarrow> JNull)),
       (''tx_id'', (case qr_tx_id r of Some i \<Rightarrow> json_uint (unat i) | None \<Rightarrow> JNull)),
       (''timing'', timing)]"

definition node_query ::
  "('x) host_scheme \<Rightarrow> nat \<Rightarrow> json \<Rightarrow> u32 \<Rightarrow> string \<Rightarrow> json list \<Rightarrow> u32 option \<Rightarrow> node \<Rightarrow> json reply \<times> node" where
  "node_query H n timing db sql params tx =
     node_exec (ebind (execute H n db sql (map (param_value H) params) tx)
       (\<lambda>r. eret (result_json H timing r)))"

text \<open>
  \<open>query\<close> as JavaScript calls it. napi brings the parameters in before the body runs, and the result
  out after it; how it converts numbers is its own (its \<open>i64\<close> and \<open>f64\<close> are both JavaScript's number),
  so the two conversions are arguments, which may fail with a reason, and nothing is assumed of them.
\<close>

definition api_query ::
  "('x) host_scheme \<Rightarrow> ('j list \<Rightarrow> string + json list) \<Rightarrow> (json \<Rightarrow> string + 'j) \<Rightarrow> nat \<Rightarrow> json \<Rightarrow> u32 \<Rightarrow> string
     \<Rightarrow> 'j list \<Rightarrow> u32 option \<Rightarrow> process \<Rightarrow> 'j reply \<times> process" where
  "api_query H from_js to_js n timing db sql args tx p =
     (case from_js args of
        Inl reason \<Rightarrow> (Reason reason, p)
      | Inr params \<Rightarrow>
          (let (r, p1) = with_node (node_query H n timing db sql params tx) p
           in (case r of
                 Reply j \<Rightarrow> (case to_js j of Inl reason \<Rightarrow> Reason reason | Inr x \<Rightarrow> Reply x)
               | Reason reason \<Rightarrow> Reason reason
               | Crash \<Rightarrow> Crash
               | TooDeep \<Rightarrow> TooDeep, p1)))"

definition api_begin_transaction :: "u32 \<Rightarrow> process \<Rightarrow> u32 reply \<times> process" where
  "api_begin_transaction db = with_node (node_exec (txn_begin db))"

definition api_commit_transaction :: "u32 \<Rightarrow> process \<Rightarrow> unit reply \<times> process" where
  "api_commit_transaction tx = with_node (node_exec (txn_commit tx))"

definition api_rollback_transaction :: "u32 \<Rightarrow> process \<Rightarrow> unit reply \<times> process" where
  "api_rollback_transaction tx = with_node (node_exec (txn_rollback tx))"

definition node_put :: "('x) host_scheme \<Rightarrow> u32 \<Rightarrow> string \<Rightarrow> bytes \<Rightarrow> bytes \<Rightarrow> node \<Rightarrow> node" where
  "node_put H db table key val nd =
     send_operation \<lparr>op_db_id = db, op_table = table, op_op = OpPut key val\<rparr>
       (on_kvs (put_raw H (spill H) db table key val) nd)"

definition node_remove :: "('x) host_scheme \<Rightarrow> u32 \<Rightarrow> string \<Rightarrow> bytes \<Rightarrow> node \<Rightarrow> node" where
  "node_remove H db table key nd =
     send_operation \<lparr>op_db_id = db, op_table = table, op_op = OpDelete key\<rparr>
       (on_kvs (remove_raw (spill H) db table key) nd)"

definition api_put ::
  "('x) host_scheme \<Rightarrow> u32 \<Rightarrow> string \<Rightarrow> bytes \<Rightarrow> bytes \<Rightarrow> process \<Rightarrow> unit reply \<times> process" where
  "api_put H db table key val = with_node (\<lambda>nd. (Reply (), node_put H db table key val nd))"

definition api_get :: "u32 \<Rightarrow> string \<Rightarrow> bytes \<Rightarrow> process \<Rightarrow> bytes option" where
  "api_get db table key p =
     (case pr_node p of Some nd \<Rightarrow> get_raw (nd_kvs nd) db table key | None \<Rightarrow> None)"

definition api_remove ::
  "('x) host_scheme \<Rightarrow> u32 \<Rightarrow> string \<Rightarrow> bytes \<Rightarrow> process \<Rightarrow> unit reply \<times> process" where
  "api_remove H db table key = with_node (\<lambda>nd. (Reply (), node_remove H db table key nd))"

definition api_flush :: "process \<Rightarrow> unit reply \<times> process" where
  "api_flush p =
     (case pr_node p of
        None \<Rightarrow> (Reason ''WAL not started'', p)
      | Some nd \<Rightarrow> (Reply (), p\<lparr>pr_node := Some (flush_now nd)\<rparr>))"

definition api_get_config ::
  "(string \<Rightarrow> string + config) \<Rightarrow> (string \<Rightarrow> bytes option) \<Rightarrow> string option \<Rightarrow> json" where
  "api_get_config toml files env_var =
     config_json (case load_config_from_default toml files env_var of Inr c \<Rightarrow> c | Inl _ \<Rightarrow> config_default)"

end
