(* ===== verification/Skvs_Node.thy ===== *)
theory Skvs_Node
  imports Skvs_Server
begin

text \<open>
  A node as a state machine (\<open>node_step\<close>): API calls, datagrams and turns of the loop in any order.
  What every step keeps is the locale \<open>node_closed\<close>, which extends the contract of the statements by
  the raw store, the files and the loads; its interpretations are well-formedness, the presence of
  a database and the overflow directory. The log files account for every accepted operation.
\<close>

section \<open>Steps of a node\<close>

text \<open>The databases a snapshot goes through, in some order.\<close>

definition databases :: "kvs \<Rightarrow> u32 list \<Rightarrow> bool" where
  "databases s dbs \<longleftrightarrow> distinct dbs \<and> set dbs = {db. k_dbs s db \<noteq> None}"

text \<open>\<open>tokio::time::interval\<close> panics on a period of zero, and the loop with it, before its first turn.\<close>

definition loop_starts :: "config \<Rightarrow> bool" where
  "loop_starts cfg \<longleftrightarrow> wc_flush_interval_secs (cf_wal cfg) \<noteq> 0"

text \<open>
  What happens to a node, one event at a time: calls of the API (which JavaScript makes one after
  the other), datagrams from the peer, and turns of the loop, whose \<open>select!\<close> takes any branch that
  is ready. The label lists the operations accepted by the step.
\<close>

inductive node_step :: "('x) host_scheme \<Rightarrow> node \<Rightarrow> operation list \<Rightarrow> node \<Rightarrow> bool" for H where
  step_query: "node_step H nd [] (snd (node_query H n timing db sql params tx nd))"
| step_begin: "node_step H nd [] (snd (node_exec (txn_begin db) nd))"
| step_commit: "node_step H nd [] (snd (node_exec (txn_commit tx) nd))"
| step_rollback: "node_step H nd [] (snd (node_exec (txn_rollback tx) nd))"
| step_put: "node_step H nd [\<lparr>op_db_id = db, op_table = t, op_op = OpPut k v\<rparr>] (node_put H db t k v nd)"
| step_remove: "node_step H nd [\<lparr>op_db_id = db, op_table = t, op_op = OpDelete k\<rparr>] (node_remove H db t k nd)"
| step_flush: "node_step H nd [] (flush_now nd)"
| step_datagram: "node_step H nd [] (on_kvs (receive_datagram H data) nd)"
| step_tick: "loop_starts (nd_config nd) \<Longrightarrow> databases (nd_kvs nd) dbs \<Longrightarrow> node_step H nd [] (on_tick H dbs nd)"
| step_notified: "loop_starts (nd_config nd) \<Longrightarrow> databases (nd_kvs nd) dbs \<Longrightarrow> nd_permit nd \<Longrightarrow>
    node_step H nd [] (on_notified H dbs nd)"
| step_receive: "loop_starts (nd_config nd) \<Longrightarrow> nd_queue nd \<noteq> [] \<Longrightarrow> node_step H nd [] (on_receive H nd)"

inductive node_run :: "('x) host_scheme \<Rightarrow> node \<Rightarrow> operation list \<Rightarrow> node \<Rightarrow> bool" for H where
  run_none: "node_run H nd [] nd"
| run_more: "node_run H nd ops nd1 \<Longrightarrow> node_step H nd1 ops1 nd2 \<Longrightarrow> node_run H nd (ops @ ops1) nd2"

section \<open>The log files\<close>

text \<open>No write of the state's own reaches a log file.\<close>

definition logs_kept :: "kvs \<Rightarrow> kvs \<Rightarrow> bool" where
  "logs_kept s s' \<longleftrightarrow> (\<forall>cfg db. k_files s' (wal_path cfg db) = k_files s (wal_path cfg db))"

lemma logs_kept_refl [simp]: "logs_kept s s"
  by (simp add: logs_kept_def)

lemma logs_kept_trans: "logs_kept s s1 \<Longrightarrow> logs_kept s1 s2 \<Longrightarrow> logs_kept s s2"
  by (simp add: logs_kept_def)

lemma logs_kept_files: "k_files s' = k_files s \<Longrightarrow> logs_kept s s'"
  by (simp add: logs_kept_def)

lemma last_sep: "a @ c # b = a' @ c # b' \<Longrightarrow> c \<notin> set b \<Longrightarrow> c \<notin> set b' \<Longrightarrow> b = b'"
  using append_sep_inj [of c "rev b" "rev b'" "rev a" "rev a'"]
  by (metis append.assoc append_Cons append_Nil rev_append rev_rev_ident rev.simps(2) set_rev)

lemma hex_digit_range: "d < 16 \<Longrightarrow> hex_digit d \<noteq> CHR ''w''"
proof -
  assume "d < 16"
  then have "(of_char (hex_digit d) :: nat) < 103" by (auto simp: hex_digit_def)
  then show ?thesis by auto
qed

lemma hex_encode_range: "CHR ''w'' \<notin> set (hex_encode b)"
proof -
  have "unat w < 256" for w :: "8 word" using unsigned_less [where w = w and 'a = nat] by simp
  then have "unat w div 16 < 16 \<and> unat w mod 16 < 16" for w :: "8 word"
    by (simp add: less_mult_imp_div_less)
  then have "hex_digit (unat w div 16) \<noteq> CHR ''w''" "hex_digit (unat w mod 16) \<noteq> CHR ''w''" for w :: "8 word"
    using hex_digit_range by blast+
  note ne = this [THEN not_sym]
  show ?thesis by (induction b) (simp_all add: hex_encode_def ne)
qed

lemma overflow_not_log: "overflow_path s db t k \<noteq> wal_path cfg d"
proof
  assume "overflow_path s db t k = wal_path cfg d"
  then have "path_join (path_join (k_overflow_dir s) (show_int (uint db))) t @ CHR ''/'' # hex_encode k =
      db_dir cfg d @ CHR ''/'' # ''wal.bin''"
    by (simp add: overflow_path_def wal_path_def path_join_plain hex_encode_plain file_path_join)
  then have "hex_encode k = ''wal.bin''" by (rule last_sep) (simp_all add: hex_encode_plain)
  then show False using hex_encode_range [of k] by simp
qed

lemma remove_overflow_logs: "logs_kept s (remove_overflow_file w db t k s)"
  using overflow_not_log [of s db t k, THEN not_sym] by (simp add: logs_kept_def)

lemma put_raw_logs: "logs_kept s (put_raw E w db t k v s)"
proof -
  have "logs_kept s (evict_keys w db t ks s)" for ks s
  proof (induction ks arbitrary: s)
    case (Cons k ks)
    have "logs_kept s (evict_one w db t k v s)" for v
    proof -
      let ?s1 = "set_raw_table db t (AList.delete k (raw_table s db t)) s"
      obtain ok s2 where w: "write_overflow_file w db t k v ?s1 = (ok, s2)" by force
      have "logs_kept s s2"
        using write_overflow_simps(5) [OF w] overflow_not_log [of ?s1 db t k]
        by (simp add: logs_kept_def) metis
      then show ?thesis by (simp add: evict_one_def Let_def w logs_kept_def)
    qed
    then show ?case
      unfolding evict_keys_Cons using Cons.IH by (auto intro: logs_kept_trans split: option.split)
  qed simp
  moreover have "logs_kept s (set_raw_table db t (AList.update k v (raw_table (remove_overflow_file w db t k s) db t))
      (remove_overflow_file w db t k s))"
    using remove_overflow_logs [of s w db t k] by (simp add: logs_kept_def)
  ultimately show ?thesis by (auto simp: put_raw_def Let_def evict_to_disk_def intro: logs_kept_trans)
qed

lemma remove_raw_logs: "logs_kept s (remove_raw w db t k s)"
proof -
  have rm: "logs_kept s (remove_overflow_file w db t k s')" if "k_files s' = k_files s" for s'
    by (rule logs_kept_trans [OF logs_kept_files [OF that] remove_overflow_logs])
  show ?thesis by (auto simp: remove_raw_def Let_def intro!: rm split: option.split)
qed

lemma receive_logs: "logs_kept s (receive_datagram H data s)"
proof -
  have "logs_kept s (apply_operation H op s)" for op s
    by (simp add: apply_operation_def put_raw_logs remove_raw_logs split: op_type.split)
  then have "logs_kept s (fold (apply_operation H) ops s)" for ops s
    by (induction ops arbitrary: s) (auto intro: logs_kept_trans)
  then show ?thesis by (simp add: receive_datagram_def split: sum.split)
qed

lemma exec_logs: "(\<And>d. inv_keeps (\<lambda>s. disk s = d) m) \<Longrightarrow> logs_kept s (snd (m s))"
proof (rule logs_kept_files)
  assume "\<And>d. inv_keeps (\<lambda>s. disk s = d) m"
  then have "disk (snd (m s)) = disk s" unfolding inv_keeps_def by blast
  then show "k_files (snd (m s)) = k_files s" by (simp add: disk_def)
qed

lemma query_logs:
  "inv_keeps (\<lambda>s. disk s = d) (ebind (execute E n db sql ps tx) (\<lambda>r. eret (f r)))"
  by (intro inv_keeps_bind inv_keeps_basic disk.engine)

lemma wal_not_snapshot: "f \<noteq> [] \<Longrightarrow> hd f \<noteq> CHR ''/'' \<Longrightarrow> f \<noteq> ''wal.bin'' \<Longrightarrow>
   wal_path cfg db \<noteq> path_join (db_dir cfg' d) f" if "CHR ''/'' \<notin> set f" for f
  using last_sep [of "db_dir cfg db" "CHR ''/''" "''wal.bin''" "db_dir cfg' d" f] that
  by (auto simp: wal_path_def file_path_join)

lemma save_logs: "logs_kept s (save_sql_snapshot H cfg dbs s)"
proof -
  have "logs_kept s (save_db_snapshot H cfg db s)" for db s
    unfolding logs_kept_def
    by (intro allI save_db_snapshot_others conjI wal_not_snapshot) (auto simp: snapshot_names_def)
  then have "logs_kept s (fold (save_db_snapshot H cfg) dbs s)" for s
    by (induction dbs arbitrary: s) (auto intro: logs_kept_trans)
  then show ?thesis by (simp add: save_sql_snapshot_def)
qed

section \<open>What the log holds\<close>

lemma wal_path_inj: "wal_path cfg db = wal_path cfg d \<longleftrightarrow> db = d"
  using db_dir_apart [of "''wal.bin''" "''wal.bin''" db d cfg] unfolding wal_path_def by fastforce

lemma write_group_log:
  assumes "host_ok H"
  shows "file_or_empty (write_group H cfg batch d s) (wal_path cfg db) =
     file_or_empty s (wal_path cfg db) @ (if d = db then frames H (filter (\<lambda>op. op_db_id op = db) batch) else [])"
  using assms by (auto simp: write_group_def Let_def host_ok_def file_or_empty_def wal_path_inj)

lemma write_batch_log:
  assumes "host_ok H"
  shows "file_or_empty (write_batch H cfg batch s) (wal_path cfg db) =
     file_or_empty s (wal_path cfg db) @ frames H (filter (\<lambda>op. op_db_id op = db) batch)"
proof -
  have "file_or_empty (fold (write_group H cfg batch) ids s) (wal_path cfg db) =
      file_or_empty s (wal_path cfg db) @ (if db \<in> set ids then frames H (filter (\<lambda>op. op_db_id op = db) batch) else [])"
    if "distinct ids" for ids s
    using that by (induction ids arbitrary: s) (auto simp: write_group_log [OF assms])
  moreover have "filter (\<lambda>op. op_db_id op = db) batch = []" if "db \<notin> op_db_id ` set batch"
    using that by (auto simp: filter_empty_conv)
  ultimately show ?thesis by (auto simp: write_batch_def frames_def)
qed

text \<open>The log of a database with what is still to be written to it.\<close>

definition pending_log :: "('x) host_scheme \<Rightarrow> u32 \<Rightarrow> node \<Rightarrow> bytes" where
  "pending_log H db nd =
     file_or_empty (nd_kvs nd) (wal_path (nd_config nd) db) @
     frames H (filter (\<lambda>op. op_db_id op = db) (nd_batch nd @ nd_queue nd))"

lemma frames_append: "frames H (xs @ ys) = frames H xs @ frames H ys"
  by (simp add: frames_def)

lemma on_kvs_pending: "logs_kept (nd_kvs nd) (f (nd_kvs nd)) \<Longrightarrow> pending_log H db (on_kvs f nd) = pending_log H db nd"
  by (simp add: pending_log_def on_kvs_def file_or_empty_def logs_kept_def)

lemma exec_pending:
  "(\<And>d. inv_keeps (\<lambda>s. disk s = d) m) \<Longrightarrow> pending_log H db (snd (node_exec m nd)) = pending_log H db nd"
  using exec_logs [of m "nd_kvs nd"]
  by (auto simp: node_exec_def pending_log_def file_or_empty_def logs_kept_def split: prod.split)

lemma flush_batch_pending: "host_ok H \<Longrightarrow> pending_log H db (flush_batch H nd) = pending_log H db nd"
  by (simp add: pending_log_def flush_batch_def write_batch_log frames_append)

lemma flush_nonempty_pending: "host_ok H \<Longrightarrow> pending_log H db (flush_nonempty H nd) = pending_log H db nd"
  by (simp add: flush_nonempty_def flush_batch_pending)

lemma loop_pending:
  assumes "host_ok H"
  shows "pending_log H db (on_tick H dbs nd) = pending_log H db nd"
    and "pending_log H db (on_notified H dbs nd) = pending_log H db nd"
    and "pending_log H db (on_receive H nd) = pending_log H db nd"
proof -
  show "pending_log H db (on_tick H dbs nd) = pending_log H db nd"
    by (simp add: on_tick_def Let_def on_kvs_pending save_logs flush_nonempty_pending [OF assms])
  have "pending_log H db (nd\<lparr>nd_permit := False\<rparr>) = pending_log H db nd" by (simp add: pending_log_def)
  then show "pending_log H db (on_notified H dbs nd) = pending_log H db nd"
    by (simp add: on_notified_def Let_def on_kvs_pending save_logs flush_nonempty_pending [OF assms])
  have "pending_log H db (nd\<lparr>nd_queue := rest, nd_batch := nd_batch nd @ [op]\<rparr>) = pending_log H db nd"
    if "nd_queue nd = op # rest" for op rest
    by (simp add: pending_log_def that)
  then show "pending_log H db (on_receive H nd) = pending_log H db nd"
    by (auto simp: on_receive_def Let_def flush_batch_pending [OF assms] split: list.split)
qed

lemma send_pending:
  "pending_log H db (send_operation op nd) =
     pending_log H db nd @ frames H (filter (\<lambda>op. op_db_id op = db) [op])"
  by (simp add: pending_log_def send_operation_def frames_append)

lemma step_pending:
  assumes "node_step H nd ops nd'" "host_ok H"
  shows "pending_log H db nd' = pending_log H db nd @ frames H (filter (\<lambda>op. op_db_id op = db) ops)"
  using assms
proof (induction rule: node_step.induct)
  case (step_query nd n timing db' sql params tx)
  then show ?case by (simp add: node_query_def exec_pending query_logs frames_def)
qed (simp_all add: exec_pending disk.transactions node_put_def node_remove_def send_pending on_kvs_pending
    put_raw_logs remove_raw_logs receive_logs loop_pending frames_def, simp_all add: flush_now_def pending_log_def)

lemma step_config: "node_step H nd ops nd' \<Longrightarrow> nd_config nd' = nd_config nd"
  by (induction rule: node_step.induct)
    (auto simp: node_query_def node_exec_def node_put_def node_remove_def send_operation_def on_kvs_def flush_now_def
      on_tick_def on_notified_def on_receive_def flush_nonempty_def flush_batch_def Let_def split: prod.split list.split)

lemma run_config: "node_run H nd ops nd' \<Longrightarrow> nd_config nd' = nd_config nd"
  by (induction rule: node_run.induct) (auto dest: step_config)

text \<open>C4. The log misses nothing and invents nothing, where no write of a log fails: whatever happens to a
  node (statements, transactions, datagrams, timer, flushes, in any order), the log file of each
  database followed by the records still in the batch and the channel is what it was before, followed
  by one record for each operation accepted since, in the order of acceptance.\<close>

theorem log_is_complete:
  assumes "host_ok H" "node_run H nd ops nd'"
  shows "file_or_empty (nd_kvs nd') (wal_path (nd_config nd) db) @
      frames H (filter (\<lambda>op. op_db_id op = db) (nd_batch nd' @ nd_queue nd')) =
    file_or_empty (nd_kvs nd) (wal_path (nd_config nd) db) @
      frames H (filter (\<lambda>op. op_db_id op = db) (nd_batch nd @ nd_queue nd @ ops))"
proof -
  have "pending_log H db nd' = pending_log H db nd @ frames H (filter (\<lambda>op. op_db_id op = db) ops)"
    using assms(2)
    by (induction rule: node_run.induct) (simp_all add: step_pending [OF _ assms(1)] frames_append, simp add: frames_def)
  then show ?thesis using run_config [OF assms(2)] by (simp add: pending_log_def frames_append)
qed

section \<open>What every step of a node keeps\<close>

text \<open>A property of states kept by the primitive writes of statements, by the raw store and by changes of files.\<close>

locale node_closed = write_closed P for P :: "kvs \<Rightarrow> bool" +
  fixes H :: "('x) host_scheme"
  assumes put: "P s \<Longrightarrow> P (put_raw H w db t k v s)"
    and removal: "P s \<Longrightarrow> P (remove_raw w db t k s)"
    and files: "P s \<Longrightarrow> P (s\<lparr>k_files := fs\<rparr>)"
    and entry: "P s \<Longrightarrow> P (snd (table_entry db n s))"
    and raw_entry: "P s \<Longrightarrow> P (load_raw_table db re s)"
    and triggers: "P s \<Longrightarrow> P (insert_triggers db t ds s)"
begin

lemma load_table: "P s \<Longrightarrow> P (load_table H db e s)"
proof -
  assume P: "P s"
  obtain n sch rs where e: "e = (n, sch, rs)" by (cases e) auto
  have rows: "P s \<Longrightarrow> P (fold (\<lambda>(rid, r). store_insert ref rid r) rs s)" for ref s
    by (induction rs arbitrary: s) (auto intro: insert)
  have ix: "P s \<Longrightarrow> P (fold (\<lambda>idx. rebuild_index H db n idx) idxs s)" for idxs s
    by (induction idxs arbitrary: s) (auto intro: upkeep)
  define s1 where "s1 = (case sch of Some x \<Rightarrow> set_schema db n x s | None \<Rightarrow> s)"
  obtain ref s2 where te: "table_entry db n s1 = (ref, s2)" by force
  define s4 where "s4 = set_min_next_rowid db n (max_rowid rs + 1) (fold (\<lambda>(rid, r). store_insert ref rid r) rs s2)"
  have "P s1" using P by (simp add: s1_def schema split: option.split)
  then have "P s2" using entry [of s1 db n] te by simp
  then have "P s4" by (simp add: s4_def set_min_next_rowid_def Let_def gen rows)
  then show ?thesis
    by (simp add: e load_table_def Let_def s1_def [symmetric] te s4_def [symmetric] ix split: option.split)
qed

lemma rebuild_fts: "P s \<Longrightarrow> P (rebuild_fts H db e s)"
proof -
  assume P: "P s"
  obtain t col where e: "e = (t, col)" by force
  have up: "P s \<Longrightarrow> P (fts_update db t f s)" for f s
    by (simp add: fts_update_def fts split: option.split)
  have "P s \<Longrightarrow> P (fold (\<lambda>(rid, r) s. case map_of r col of
      Some (VText content) \<Rightarrow> fts_update db t (\<lambda>ix. add_document ix rid content) s | _ \<Rightarrow> s) xs s)" for xs s
    by (induction xs arbitrary: s) (auto simp: up split: option.split skvs_value.split)
  then show ?thesis using P by (auto simp: rebuild_fts_def e Let_def fts split: option.split)
qed

text \<open>Whatever the files hold, a load keeps the property.\<close>

lemma load_db: "P s \<Longrightarrow> P (load_db_snapshot H cfg db s)"
proof -
  assume P: "P s"
  have tables: "P s \<Longrightarrow> P (fold (load_table H db) d s)" for d s
    by (induction d arbitrary: s) (auto intro: load_table)
  have raw: "P s \<Longrightarrow> P (fold (load_raw_table db) d s)" for d s
    by (induction d arbitrary: s) (auto intro: raw_entry)
  have views: "P s \<Longrightarrow> P (fold (\<lambda>(n, q). add_view db n q) d s)" for d s
    by (induction d arbitrary: s) (auto intro: view)
  have trgs: "P s \<Longrightarrow> P (fold (\<lambda>(t, ds). insert_triggers db t ds) d s)" for d s
    by (induction d arbitrary: s) (auto intro: triggers)
  have ftss: "P s \<Longrightarrow> P (fold (rebuild_fts H db) es s)" for es s
    by (induction es arbitrary: s) (auto intro: rebuild_fts)
  have "P (load_raw H cfg db s)" "P (load_views H cfg db s)" "P (load_triggers H cfg db s)" if "P s" for s
    using that by (simp_all add: load_raw_def load_views_def load_triggers_def raw views trgs split: option.split sum.split)
  then show ?thesis
    using P by (simp add: load_db_snapshot_def Let_def quarantine_def files ftss tables split: option.split sum.split)
qed

lemma load_sql: "P s \<Longrightarrow> P (load_sql_snapshot H cfg dbs s)"
proof -
  have "P s \<Longrightarrow> P (fold (load_db_snapshot H cfg) dbs s)" for s
    by (induction dbs arbitrary: s) (auto intro: load_db)
  then show "P s \<Longrightarrow> P (load_sql_snapshot H cfg dbs s)" by (simp add: load_sql_snapshot_def)
qed

lemma saved: "P s \<Longrightarrow> P (save_sql_snapshot H cfg dbs s)"
  using save_all_frame [of H cfg dbs s] files by metis

lemma written: "P s \<Longrightarrow> P (write_batch H cfg batch s)"
proof -
  have "P s \<Longrightarrow> P (write_group H cfg batch db s)" for db s
    by (simp add: write_group_def Let_def files)
  then have "P s \<Longrightarrow> P (fold (write_group H cfg batch) ids s)" for ids s
    by (induction ids arbitrary: s) auto
  then show "P s \<Longrightarrow> P (write_batch H cfg batch s)" by (simp add: write_batch_def)
qed

lemma received: "P s \<Longrightarrow> P (receive_datagram H data s)"
proof -
  have "P s \<Longrightarrow> P (apply_operation H op s)" for op s
    by (simp add: apply_operation_def put removal split: op_type.split)
  then have "P s \<Longrightarrow> P (fold (apply_operation H) ops s)" for ops s
    by (induction ops arbitrary: s) auto
  then show "P s \<Longrightarrow> P (receive_datagram H data s)" by (simp add: receive_datagram_def split: sum.split)
qed

lemma executed: "inv_keeps P m \<Longrightarrow> P (nd_kvs nd) \<Longrightarrow> P (nd_kvs (snd (node_exec m nd)))"
  by (auto simp: inv_keeps_def node_exec_def split: prod.split)

lemma flushed: "P (nd_kvs nd) \<Longrightarrow> P (nd_kvs (flush_nonempty H nd))"
  by (simp add: flush_nonempty_def flush_batch_def written)

lemma step: "node_step H nd ops nd' \<Longrightarrow> P (nd_kvs nd) \<Longrightarrow> P (nd_kvs nd')"
proof (induction rule: node_step.induct)
  case (step_query nd n timing db sql params tx)
  have "inv_keeps P (ebind (execute H n db sql (map (param_value H) params) tx) (\<lambda>r. eret (result_json H timing r)))"
    by (intro inv_keeps_bind inv_keeps_basic engine)
  then show ?case using step_query unfolding node_query_def by (rule executed)
next
  case (step_receive nd)
  then show ?case by (auto simp: on_receive_def Let_def flush_batch_def written split: list.split)
next
  case (step_notified nd dbs)
  have "P (nd_kvs (flush_nonempty H (nd\<lparr>nd_permit := False\<rparr>)))" by (rule flushed) (simp add: step_notified)
  then show ?case by (simp add: on_notified_def Let_def on_kvs_def saved)
qed (simp_all add: executed transactions node_put_def node_remove_def send_operation_def on_kvs_def put removal
    flush_now_def received on_tick_def Let_def saved flushed)

lemma run: "node_run H nd ops nd' \<Longrightarrow> P (nd_kvs nd) \<Longrightarrow> P (nd_kvs nd')"
  by (induction rule: node_run.induct) (auto intro: step)

end

interpretation node_wf: node_closed state_wf H for H :: "('x) host_scheme"
  by unfold_locales (simp_all add: put_raw_wf remove_raw_wf raw_wf(2) table_entry_wf load_raw_table_wf insert_triggers_wf)

text \<open>A database that is there stays there, with all its parts.\<close>

definition present :: "u32 \<Rightarrow> kvs \<Rightarrow> bool" where
  "present db s \<longleftrightarrow> k_dbs s db \<noteq> None \<and> k_raw s db \<noteq> None \<and> k_views s db \<noteq> None \<and> k_triggers s db \<noteq> None"

lemma present_set_raw: "present db s \<Longrightarrow> present db (set_raw_table db' t tb s)"
  by (simp add: present_def set_raw_table_def)

lemma present_files: "present db s \<Longrightarrow> present db (s\<lparr>k_files := fs\<rparr>)"
  by (simp add: present_def)

lemma present_put: "present db s \<Longrightarrow> present db (put_raw E w db' t k v s)"
proof -
  have rm: "present db s \<Longrightarrow> present db (remove_overflow_file w db' t k s)" for k s
    by (simp add: remove_overflow_file_def Let_def present_files)
  have ev: "present db s \<Longrightarrow> present db (evict_keys w db' t ks s)" for ks s
  proof (induction ks arbitrary: s)
    case (Cons k ks)
    then show ?case
      by (auto simp: Let_def write_overflow_file_def intro!: Cons.IH present_set_raw present_files
          split: option.split io_write.split)
  qed simp
  show "present db s \<Longrightarrow> present db (put_raw E w db' t k v s)"
    by (simp add: put_raw_def Let_def evict_to_disk_def ev present_set_raw rm)
qed

interpretation node_present: node_closed "present db" H for db and H :: "('x) host_scheme"
proof
  fix s assume p: "present db s"
  show "present db (put_raw H w db' t k v s)" for w db' t k v by (rule present_put [OF p])
  show "present db (remove_raw w db' t k s)" for w db' t k
    using p by (auto simp: remove_raw_def Let_def remove_overflow_file_def intro!: present_files present_set_raw
        split: option.split)
  show "present db (s\<lparr>k_files := fs\<rparr>)" for fs by (rule present_files [OF p])
  show "present db (load_raw_table db' e s)" for db' e
    unfolding load_raw_table_def by (rule present_set_raw [OF p])
qed (auto simp: present_def store_insert_def store_remove_def set_index_store_def register_fts_table_def set_txns_def
      set_rowid_gen_def set_schema_def ensure_schemas_def install_table_def alloc_store_def forget_table_def drop_in_def
      map_rows_def rename_table_def move_in_def add_view_def add_trigger_def table_entry_def insert_triggers_def Let_def
      split: option.split)

text \<open>The overflow directory never changes.\<close>

lemma overflow_dir_put: "k_overflow_dir (put_raw E w db t k v s) = k_overflow_dir s"
proof -
  have "k_overflow_dir (evict_keys w db t ks s) = k_overflow_dir s" for ks s
  proof (induction ks arbitrary: s)
    case (Cons k ks)
    then show ?case by (auto simp: Let_def write_overflow_file_def split: option.split io_write.split)
  qed simp
  then show ?thesis by (simp add: put_raw_def Let_def evict_to_disk_def remove_overflow_file_def)
qed

interpretation node_overflow: node_closed "\<lambda>s. k_overflow_dir s = d" H for d and H :: "('x) host_scheme"
  by unfold_locales
    (auto simp: overflow_dir_put remove_raw_def remove_overflow_file_def set_raw_table_def
      store_insert_def store_remove_def set_index_store_def register_fts_table_def set_txns_def
      set_rowid_gen_def set_schema_def ensure_schemas_def install_table_def alloc_store_def forget_table_def
      map_rows_def rename_table_def add_view_def add_trigger_def table_entry_def load_raw_table_def insert_triggers_def
      Let_def split: option.split)

section \<open>A node from its start\<close>

lemma start_wf: "state_wf (nd_kvs (start_node H order files cfg))"
  by (simp add: start_node_def node_new_def node_wf.load_sql new_with_config_wf)

text \<open>C22. The state of a running node is always well-formed, from its start on whatever files are there and
  through anything that can happen to it, failing statements and panics included: no two tables share a
  row store, the next row store is unused, and every map (rows, tables, schemas, counters, raw tables,
  views, triggers) has one entry per key.\<close>

theorem node_state_wf:
  assumes "node_run H (start_node H order files cfg) ops nd"
  shows "state_wf (nd_kvs nd)"
  by (rule node_wf.run [OF assms start_wf])

lemma batch_small:
  assumes "node_run H (start_node H order files cfg) ops nd"
  shows "length (nd_batch nd) < max 1 (cf_batch_size cfg)"
proof -
  let ?P = "\<lambda>nd. length (nd_batch nd) < max 1 (cf_batch_size (nd_config nd))"
  have step: "node_step H nd ops nd' \<Longrightarrow> ?P nd \<Longrightarrow> ?P nd'" for nd ops nd'
  proof (induction rule: node_step.induct)
    case (step_receive nd)
    then show ?case by (auto simp: on_receive_def Let_def flush_batch_def split: list.split)
  qed (auto simp: node_query_def node_exec_def node_put_def node_remove_def send_operation_def on_kvs_def flush_now_def
      on_tick_def on_notified_def flush_nonempty_def flush_batch_def Let_def split: prod.split)
  have "node_run H nd0 ops nd \<Longrightarrow> ?P nd0 \<Longrightarrow> ?P nd" for nd0
    by (induction rule: node_run.induct) (blast intro: step)+
  from this [OF assms] show ?thesis
    using run_config [OF assms] by (simp add: start_node_def node_new_def)
qed

text \<open>The batch never reaches the configured size between turns of the loop (a size of 0 counts as 1),
  whatever is accepted in between.\<close>

theorem batch_bounded:
  assumes "node_run H (start_node H order files cfg) ops nd"
  shows "length (nd_batch nd) < max 1 (cf_batch_size cfg)"
  by (rule batch_small [OF assms])

end
