(* ===== verification/Skvs_Recovery.thy ===== *)
theory Skvs_Recovery
  imports Skvs_Node
begin

text \<open>
  A crash after a turn of the timer and a restart on the files it left, and the draining of the
  channel.
\<close>

section \<open>A crash and a restart\<close>

lemma start_present: "db \<in> dc_id ` set (cf_databases cfg) \<Longrightarrow> present db (nd_kvs (start_node H order files cfg))"
proof -
  assume db: "db \<in> dc_id ` set (cf_databases cfg)"
  have keep: "present db s \<Longrightarrow> present db (fold add_database ds s)" for ds s
    by (induction ds arbitrary: s) (auto simp: present_def add_database_def)
  have "db \<in> dc_id ` set ds \<Longrightarrow> present db (fold add_database ds s)" for ds s
  proof (induction ds arbitrary: s)
    case (Cons d ds)
    show ?case
    proof (cases "db = dc_id d")
      case True
      then have "present db (add_database d s)" by (simp add: present_def add_database_def)
      then show ?thesis using keep by simp
    qed (use Cons in auto)
  qed simp
  then show ?thesis using db
    by (simp add: start_node_def node_new_def new_with_config_def node_present.load_sql)
qed

lemma start_overflow: "k_overflow_dir (nd_kvs (start_node H order files cfg)) = cf_base_dir cfg @ ''/overflow''"
  by (simp add: start_node_def node_new_def node_overflow.load_sql)

lemma overflow_dir_join: "b @ ''/overflow'' = path_join b ''overflow''"
  by (simp add: file_path_join)

lemma save_all_overflow:
  assumes "plain_table t" "k_overflow_dir s = path_join (cf_base_dir cfg) ''overflow''"
  shows "k_files (save_sql_snapshot H cfg dbs s) (overflow_path s db t k) = k_files s (overflow_path s db t k)"
proof -
  have one: "k_files (save_db_snapshot H cfg d s') (overflow_path s db t k) = k_files s' (overflow_path s db t k)" for d s'
    by (intro save_db_snapshot_others conjI overflow_not_snapshot [OF assms]) (auto simp: snapshot_names_def)
  have "k_files (fold (save_db_snapshot H cfg) dbs s') (overflow_path s db t k) = k_files s' (overflow_path s db t k)" for s'
    by (induction dbs arbitrary: s') (simp_all add: one)
  then show ?thesis by (simp add: save_sql_snapshot_def)
qed

lemma saved_files_cong:
  "(\<And>f. f \<in> set snapshot_names \<Longrightarrow> files (snapshot_path cfg db f) = files' (snapshot_path cfg db f)) \<Longrightarrow>
   saved_files H cfg db s files = saved_files H cfg db s files'"
  by (simp add: saved_files_def snapshot_names_def)

text \<open>The state before a turn's snapshot, apart from the log files.\<close>

lemma flush_nonempty_frame: "\<exists>fs. nd_kvs (flush_nonempty H nd) = (nd_kvs nd)\<lparr>k_files := fs\<rparr>"
proof -
  have id: "\<exists>fs. s = s\<lparr>k_files := fs\<rparr>" for s :: kvs by (rule exI [of _ "k_files s"]) simp
  have "\<exists>fs. write_group H cfg batch db s = s\<lparr>k_files := fs\<rparr>" for cfg batch db s
    using id [of s] by (auto simp: write_group_def Let_def)
  then have "\<exists>fs. write_batch H cfg batch s = s\<lparr>k_files := fs\<rparr>" for cfg batch s
    unfolding write_batch_def by (intro fold_frame [where get = k_files]) simp_all
  then show ?thesis using id by (simp add: flush_nonempty_def flush_batch_def)
qed

lemma write_batch_others:
  "\<forall>db. p \<noteq> wal_path cfg db \<Longrightarrow> k_files (write_batch H cfg batch s) p = k_files s p"
proof -
  assume p: "\<forall>db. p \<noteq> wal_path cfg db"
  have "k_files (fold (write_group H cfg batch) ids s) p = k_files s p" for ids
    using p by (induction ids arbitrary: s) (auto simp: write_group_def Let_def)
  then show ?thesis by (simp add: write_batch_def)
qed

lemma flush_nonempty_others:
  "\<forall>db. p \<noteq> wal_path (nd_config nd) db \<Longrightarrow> k_files (nd_kvs (flush_nonempty H nd)) p = k_files (nd_kvs nd) p"
  by (simp add: flush_nonempty_def flush_batch_def write_batch_others)

lemma restored_files [simp]:
  "restored db (s\<lparr>k_files := fs\<rparr>) r = restored db s r"
proof -
  have "row_at (s\<lparr>k_files := fs\<rparr>) db t rid = row_at s db t rid" for t rid by (rule row_at_cong) simp_all
  then show ?thesis
    by (simp add: restored_def get_table_store_def get_schema_def get_view_definition_def get_triggers_def raw_table_def)
qed

text \<open>C2. A crash right after a turn of the timer loses nothing, where nothing in the file system fails and
  the saved maps decode to what was encoded: for a node running since its start, whatever it did, a
  node started anew on the files the turn left has every configured database as it was: every row
  under its id, every table with its schema, the views, the triggers and what every raw key of a
  plainly named table (a single path component) reads, evicted ones included; and the row id counter
  of every table is past every restored id (unless the last id there is, 2^64 - 1, is in use).\<close>

theorem restart_loses_nothing:
  assumes ok: "host_ok H" "\<And>xs. mset (order xs) = mset xs"
    and run: "node_run H (start_node H order files cfg) ops nd"
    and dbs: "databases (nd_kvs nd) dbs"
    and enc: "\<And>d. d \<in> set (configured cfg) \<Longrightarrow> dumps_read_back H d (nd_kvs nd)"
    and db: "db \<in> set (configured cfg)"
    and r: "r = nd_kvs (start_node H order (k_files (nd_kvs (on_tick H dbs nd))) cfg)"
  shows "restored db (nd_kvs nd) r \<and>
    (\<forall>t k. plain_table t \<longrightarrow> get_raw r db t k = get_raw (nd_kvs nd) db t k)"
proof -
  let ?s = "nd_kvs nd" and ?fl = "flush_nonempty H nd"
  have cfg: "nd_config nd = cfg" "nd_config ?fl = cfg"
    using run_config [OF run] by (simp_all add: start_node_def node_new_def flush_nonempty_def flush_batch_def)
  have wf: "state_wf ?s" by (rule node_wf.run [OF run start_wf])
  have over: "k_overflow_dir ?s = path_join (cf_base_dir cfg) ''overflow''"
    using node_overflow.run [OF run start_overflow] by (simp add: overflow_dir_join)
  obtain fs where fs: "nd_kvs ?fl = ?s\<lparr>k_files := fs\<rparr>" using flush_nonempty_frame by blast
  let ?files = "k_files (save_sql_snapshot H cfg dbs (?s\<lparr>k_files := fs\<rparr>))"
  have files: "k_files (nd_kvs (on_tick H dbs nd)) = ?files"
    by (simp add: on_tick_def Let_def on_kvs_def cfg fs)
  let ?new = "new_with_config (cf_databases cfg) (unat (mc_max_entries_per_table (cf_memory cfg)))
      (cf_base_dir cfg @ ''/overflow'') ?files"
  have ord: "set (order (configured cfg)) = set (configured cfg)" "distinct (order (configured cfg))"
    using mset_eq_setD [OF ok(2)] mset_eq_imp_distinct_iff [OF ok(2)] by (simp_all add: configured_def)
  have saved: "saved_files H cfg d ?s (k_files ?new) \<and> blank d ?new" if d: "d \<in> set (order (configured cfg))" for d
  proof -
    have pr: "present d ?s"
      using d unfolding ord(1) by (intro node_present.run [OF run start_present]) (simp add: configured_def)
    then have "has_database d ?s" "d \<in> set dbs"
      using dbs by (simp_all add: present_def has_database_def databases_def)
    then have "saved_files H cfg d (?s\<lparr>k_files := fs\<rparr>) ?files"
      using save_all_files [OF ok(1), of d "?s\<lparr>k_files := fs\<rparr>" dbs cfg] enc [of d] d dbs
      by (simp add: ord databases_def)
    then show ?thesis using new_with_config_blank by simp
  qed
  have "refs_fresh ?new" using new_with_config_blank [of db] by (simp add: blank_def)
  moreover have "\<forall>d. dumpable d ?s" using state_wf_dumpable [OF wf] by blast
  ultimately have "restored db ?s (load_sql_snapshot H cfg (order (configured cfg)) ?new)"
    using load_all_restored [OF ok(1), of ?s "order (configured cfg)" cfg ?new db] saved ord db by simp
  moreover have r': "r = load_sql_snapshot H cfg (order (configured cfg)) ?new"
    by (simp add: r files start_node_def node_new_def)
  ultimately have res: "restored db ?s r" by simp
  moreover have "get_raw r db t k = get_raw ?s db t k" if t: "plain_table t" for t k
  proof -
    have same: "k_files r = ?files" "k_overflow_dir r = k_overflow_dir ?s"
      using load_all_same [OF ok(1), of ?s "order (configured cfg)" cfg ?new] saved ord
        \<open>refs_fresh ?new\<close> \<open>\<forall>d. dumpable d ?s\<close> over
      by (simp_all add: r' overflow_dir_join)
    have p: "overflow_path r db t k = overflow_path ?s db t k" using same(2) by (simp add: overflow_path_def)
    have "?files (overflow_path ?s db t k) = fs (overflow_path ?s db t k)"
      using save_all_overflow [OF t, of "?s\<lparr>k_files := fs\<rparr>" cfg H dbs db k] over
      by (simp add: overflow_path_def)
    also have "\<dots> = k_files ?s (overflow_path ?s db t k)"
      using flush_nonempty_others [of "overflow_path ?s db t k" nd H] overflow_not_log
      by (simp add: fs)
    finally show ?thesis
      using res by (simp add: get_raw_def same(1) p restored_def split: option.split)
  qed
  ultimately show ?thesis by blast
qed

section \<open>Draining the channel\<close>

text \<open>Turns of the loop by themselves; a branch that is not ready is not taken.\<close>

datatype turn = Tick "u32 list" | Notified "u32 list" | Receive

fun take_turn :: "('x) host_scheme \<Rightarrow> turn \<Rightarrow> node \<Rightarrow> node" where
  "take_turn H (Tick dbs) nd = on_tick H dbs nd"
| "take_turn H (Notified dbs) nd = (if nd_permit nd then on_notified H dbs nd else nd)"
| "take_turn H Receive nd = on_receive H nd"

definition take_turns :: "('x) host_scheme \<Rightarrow> turn list \<Rightarrow> node \<Rightarrow> node" where
  "take_turns H turns nd = fold (take_turn H) turns nd"

lemma queue_turns:
  "nd_queue (on_tick H dbs nd) = nd_queue nd" "nd_queue (on_notified H dbs nd) = nd_queue nd"
  "nd_queue (on_receive H nd) = drop 1 (nd_queue nd)"
  "nd_config (on_tick H dbs nd) = nd_config nd" "nd_config (on_notified H dbs nd) = nd_config nd"
  "nd_config (on_receive H nd) = nd_config nd"
  by (auto simp: on_tick_def on_notified_def on_receive_def flush_nonempty_def flush_batch_def on_kvs_def Let_def
      split: list.split)

lemma turns_queue: "nd_queue (take_turns H turns nd) = drop (count_list turns Receive) (nd_queue nd)"
  unfolding take_turns_def
proof (induction turns arbitrary: nd)
  case (Cons t turns)
  then show ?case by (cases t) (simp_all add: queue_turns)
qed simp

lemma turns_config: "nd_config (take_turns H turns nd) = nd_config nd"
  unfolding take_turns_def
proof (induction turns arbitrary: nd)
  case (Cons t turns)
  then show ?case by (cases t) (simp_all add: queue_turns)
qed simp

lemma turns_pending: "host_ok H \<Longrightarrow> pending_log H db (take_turns H turns nd) = pending_log H db nd"
  unfolding take_turns_def
proof (induction turns arbitrary: nd)
  case (Cons t turns)
  then show ?case by (cases t) (simp_all add: loop_pending)
qed simp

text \<open>C28. The loop drains, where no write of a log fails: any schedule of its branches that receives at
  least as often as operations are queued, followed by one turn of the timer, leaves the channel and
  the batch empty and every accepted operation of every database in its log file.\<close>

theorem loop_drains:
  assumes "host_ok H" "length (nd_queue nd) \<le> count_list turns Receive"
  shows "nd_queue (take_turns H (turns @ [Tick dbs]) nd) = [] \<and>
    nd_batch (take_turns H (turns @ [Tick dbs]) nd) = [] \<and>
    file_or_empty (nd_kvs (take_turns H (turns @ [Tick dbs]) nd)) (wal_path (nd_config nd) db) =
      file_or_empty (nd_kvs nd) (wal_path (nd_config nd) db) @
      frames H (filter (\<lambda>op. op_db_id op = db) (nd_batch nd @ nd_queue nd))"
proof -
  let ?nd = "take_turns H (turns @ [Tick dbs]) nd"
  have q: "nd_queue ?nd = []"
    using assms(2) turns_queue [of H "turns @ [Tick dbs]" nd] by simp
  have "?nd = on_tick H dbs (take_turns H turns nd)" by (simp add: take_turns_def)
  then have b: "nd_batch ?nd = []"
    by (simp add: on_tick_def Let_def on_kvs_def flush_nonempty_def flush_batch_def)
  show ?thesis
    using turns_pending [OF assms(1), of db "turns @ [Tick dbs]" nd] q b
    by (simp add: pending_log_def turns_config frames_def)
qed

end
