(* ===== verification/Skvs_Replication.thy ===== *)
theory Skvs_Replication
  imports Skvs_Recovery
begin

text \<open>
  Replication (\<^verbatim>\<open>src/src/replication.rs\<close>): the datagrams of a node, applied in order, are the
  accepted operations, and a replica that applies them reads as the node does.
\<close>

section \<open>Replication\<close>

text \<open>A batch that reaches the peer in one datagram and is read there as it was sent.\<close>

definition good_batch :: "('x) host_scheme \<Rightarrow> ('y) host_scheme \<Rightarrow> operation list \<Rightarrow> bool" where
  "good_batch H R batch \<longleftrightarrow>
     (case bin_batch H batch of
        Some e \<Rightarrow> send_ok H e \<and> length e \<le> 65536 \<and> unbin_batch R e = Inr batch
      | None \<Rightarrow> False)"

lemma good_batch_received:
  assumes "good_batch H R batch"
  obtains e where "send_batch H batch = [e]" "receive_datagram R e p = fold (apply_operation R) batch p"
  using assms by (auto simp: good_batch_def send_batch_def receive_datagram_def split: option.splits)

text \<open>Operations received from the channel and written, in the order of acceptance, with what they do to a replica.\<close>

definition replicated ::
  "('x) host_scheme \<Rightarrow> ('y) host_scheme \<Rightarrow> kvs \<Rightarrow> operation list \<Rightarrow> node \<Rightarrow> bool" where
  "replicated H R p ops nd \<longleftrightarrow>
     (\<exists>gone. ops = gone @ nd_batch nd @ nd_queue nd \<and>
        fold (receive_datagram R) (nd_sent nd) p = fold (apply_operation R) gone p)"

lemma flush_batch_replicated:
  assumes "replicated H R p ops nd" "good_batch H R (nd_batch nd)" "peer_addr H (nd_config nd) \<noteq> None"
  shows "replicated H R p ops (flush_batch H nd)"
proof -
  obtain gone where g: "ops = gone @ nd_batch nd @ nd_queue nd"
    "fold (receive_datagram R) (nd_sent nd) p = fold (apply_operation R) gone p"
    using assms(1) by (auto simp: replicated_def)
  let ?q = "fold (apply_operation R) gone p"
  obtain e where e: "send_batch H (nd_batch nd) = [e]"
    "receive_datagram R e ?q = fold (apply_operation R) (nd_batch nd) ?q"
    using good_batch_received [OF assms(2)] by blast
  show ?thesis
    unfolding replicated_def
    by (rule exI [of _ "gone @ nd_batch nd"]) (use g e assms(3) in \<open>simp add: flush_batch_def\<close>)
qed

lemma replicated_cong:
  "nd_batch nd' = nd_batch nd \<Longrightarrow> nd_queue nd' = nd_queue nd \<Longrightarrow> nd_sent nd' = nd_sent nd \<Longrightarrow>
   replicated H R p ops nd' = replicated H R p ops nd"
  by (simp add: replicated_def)

lemma replicated_send:
  "replicated H R p ops nd \<Longrightarrow> replicated H R p (ops @ [op]) (send_operation op nd)"
  by (auto simp: replicated_def send_operation_def)

text \<open>The batches that can come up: within the configured size, of accepted operations.\<close>

definition batches_good :: "('x) host_scheme \<Rightarrow> ('y) host_scheme \<Rightarrow> config \<Rightarrow> operation list \<Rightarrow> bool" where
  "batches_good H R cfg ops \<longleftrightarrow>
     (\<forall>b. b \<noteq> [] \<and> length b \<le> max 1 (cf_batch_size cfg) \<and> set b \<subseteq> set ops \<longrightarrow> good_batch H R b)"

lemma flush_nonempty_replicated:
  assumes "replicated H R p ops nd" "batches_good H R (nd_config nd) ops" "peer_addr H (nd_config nd) \<noteq> None"
    "length (nd_batch nd) < max 1 (cf_batch_size (nd_config nd))"
  shows "replicated H R p ops (flush_nonempty H nd)"
proof (cases "nd_batch nd = []")
  case False
  have "set (nd_batch nd) \<subseteq> set ops" using assms(1) by (auto simp: replicated_def)
  then have "good_batch H R (nd_batch nd)" using assms(2,4) False by (simp add: batches_good_def)
  then show ?thesis using flush_batch_replicated [OF assms(1) _ assms(3)] False by (simp add: flush_nonempty_def)
qed (use assms in \<open>simp add: flush_nonempty_def\<close>)

lemma step_replicated:
  assumes "node_step H nd ops1 nd'" "replicated H R p ops nd" "batches_good H R (nd_config nd) (ops @ ops1)"
    "peer_addr H (nd_config nd) \<noteq> None" "length (nd_batch nd) < max 1 (cf_batch_size (nd_config nd))"
  shows "replicated H R p (ops @ ops1) nd'"
  using assms
proof (induction rule: node_step.induct)
  case (step_tick nd dbs)
  let ?nd = "flush_nonempty H nd"
  have "replicated H R p ops ?nd" using flush_nonempty_replicated step_tick by simp
  then show ?case by (simp add: on_tick_def Let_def on_kvs_def replicated_def)
next
  case (step_notified nd dbs)
  let ?nd = "flush_nonempty H (nd\<lparr>nd_permit := False\<rparr>)"
  have "replicated H R p ops (nd\<lparr>nd_permit := False\<rparr>)" using step_notified by (simp add: replicated_def)
  then have "replicated H R p ops ?nd"
    using flush_nonempty_replicated [of H R p ops "nd\<lparr>nd_permit := False\<rparr>"] step_notified by simp
  then show ?case by (simp add: on_notified_def Let_def on_kvs_def replicated_def)
next
  case (step_receive nd)
  obtain op rest where q: "nd_queue nd = op # rest" using step_receive by (cases "nd_queue nd") auto
  let ?nd = "nd\<lparr>nd_queue := rest, nd_batch := nd_batch nd @ [op]\<rparr>"
  have r: "replicated H R p ops ?nd" using step_receive by (simp add: replicated_def q)
  have "set (nd_batch ?nd) \<subseteq> set ops" using r by (auto simp: replicated_def)
  moreover have "length (nd_batch ?nd) \<le> max 1 (cf_batch_size (nd_config nd))" using step_receive by auto
  ultimately have "good_batch H R (nd_batch ?nd)" using step_receive by (simp add: batches_good_def)
  then have "replicated H R p ops (flush_batch H ?nd)"
    using flush_batch_replicated [OF r] step_receive by simp
  then show ?case using r by (simp add: on_receive_def q Let_def)
qed (auto simp: node_query_def node_exec_def node_put_def node_remove_def on_kvs_def flush_now_def
    replicated_def send_operation_def split: prod.split)

lemma run_replicated:
  assumes "node_run H (start_node H order files cfg) ops nd" "batches_good H R cfg ops" "peer_addr H cfg \<noteq> None"
  shows "replicated H R p ops nd"
proof -
  let ?start = "start_node H order files cfg"
  have "node_run H nd0 ops nd \<Longrightarrow> nd0 = ?start \<Longrightarrow> batches_good H R cfg ops \<Longrightarrow> replicated H R p ops nd" for nd0
  proof (induction rule: node_run.induct)
    case (run_none nd)
    then show ?case by (simp add: replicated_def start_node_def node_new_def)
  next
    case (run_more nd ops nd1 ops1 nd2)
    have "batches_good H R cfg ops" using run_more.prems(2) by (auto simp: batches_good_def)
    then have "replicated H R p ops nd1" using run_more by blast
    moreover have run: "node_run H ?start ops nd1" using run_more by simp
    moreover have "nd_config nd1 = cfg" using run_config [OF run] by (simp add: start_node_def node_new_def)
    ultimately show ?case
      using step_replicated [OF run_more.hyps(2)] run_more.prems(2) assms(3) batch_small [OF run] by simp
  qed
  then show ?thesis using assms by blast
qed

text \<open>An operation as the change of a map from databases, tables and keys.\<close>

definition op_slot :: "operation \<Rightarrow> (u32 \<times> string \<times> bytes, bytes) slot_op" where
  "op_slot op =
     (case op_op op of
        OpPut k v \<Rightarrow> SlotPut (op_db_id op, op_table op, k) v
      | OpDelete k \<Rightarrow> SlotRemove (op_db_id op, op_table op, k))"

lemma slot_of_op: "plain_addr (slot_of (op_slot op)) \<longleftrightarrow> plain_table (op_table op)"
  by (simp add: op_slot_def plain_addr_def split: op_type.split)

lemma apply_operation_slot:
  "apply_operation R op s = slot_store.slot_run (raw_insert R (spill R)) (raw_clear (spill R)) (op_slot op) s"
  by (simp add: apply_operation_def op_slot_def raw_slots.slot_run.simps raw_insert_def raw_clear_def split: op_type.split)

lemma apply_operations_reads:
  assumes "unlinks (spill R)" "\<forall>op \<in> set ops. plain_table (op_table op)" "plain_addr a"
  shows "raw_look (fold (apply_operation R) ops s) a = fold slot_apply (map op_slot ops) (raw_look s) a"
proof -
  have "fold (apply_operation R) ops s = fold (slot_store.slot_run (raw_insert R (spill R)) (raw_clear (spill R))) (map op_slot ops) s"
    by (induction ops arbitrary: s) (simp_all add: apply_operation_slot)
  then show ?thesis
    using raw_slots.slot_replay_refines [of "map op_slot ops" "spill R" a R s] assms by (simp add: raw_addr_def slot_of_op)
qed

section \<open>What a node's own raw reads are\<close>

text \<open>Nothing that arrives at the node decodes: it hears from no peer.\<close>

definition hears_nothing :: "('x) host_scheme \<Rightarrow> bool" where
  "hears_nothing H \<longleftrightarrow> (\<forall>b. \<exists>e. unbin_batch H b = Inl e)"

lemma raw_look_files:
  assumes "plain_addr a" "\<And>db t k. plain_table t \<Longrightarrow> fs (overflow_path s db t k) = k_files s (overflow_path s db t k)"
  shows "raw_look (s\<lparr>k_files := fs\<rparr>) a = raw_look s a"
  using assms by (cases a) (simp add: raw_look_def plain_addr_def get_raw_def raw_table_def overflow_path_def split: option.split)

lemma loop_reads:
  assumes "k_overflow_dir (nd_kvs nd) = path_join (cf_base_dir (nd_config nd)) ''overflow''" "plain_addr a"
  shows "raw_look (nd_kvs (flush_batch H nd)) a = raw_look (nd_kvs nd) a"
    and "raw_look (nd_kvs (flush_nonempty H nd)) a = raw_look (nd_kvs nd) a"
    and "raw_look (nd_kvs (on_kvs (save_sql_snapshot H (nd_config nd) dbs) (flush_nonempty H nd))) a = raw_look (nd_kvs nd) a"
proof -
  have w: "raw_look (write_batch H cfg b s) a = raw_look s a" for cfg b s
  proof -
    have "\<exists>fs. write_batch H cfg b s = s\<lparr>k_files := fs\<rparr>"
      using flush_nonempty_frame [of H "\<lparr>nd_config = cfg, nd_kvs = s, nd_queue = [], nd_batch = b, nd_permit = False, nd_sent = []\<rparr>"]
      by (cases "b = []") (auto simp: flush_nonempty_def flush_batch_def write_batch_def intro: exI [of _ "k_files s"])
    then obtain fs where fs: "write_batch H cfg b s = s\<lparr>k_files := fs\<rparr>" by blast
    have "fs (overflow_path s db t k) = k_files s (overflow_path s db t k)" for db t k
      using write_batch_others [of "overflow_path s db t k" cfg H b s] overflow_not_log by (simp add: fs)
    then show ?thesis unfolding fs by (intro raw_look_files assms(2))
  qed
  show f: "raw_look (nd_kvs (flush_batch H nd)) a = raw_look (nd_kvs nd) a" by (simp add: flush_batch_def w)
  then show n: "raw_look (nd_kvs (flush_nonempty H nd)) a = raw_look (nd_kvs nd) a" by (simp add: flush_nonempty_def)
  obtain fs where fs: "nd_kvs (flush_nonempty H nd) = (nd_kvs nd)\<lparr>k_files := fs\<rparr>" using flush_nonempty_frame by blast
  let ?s = "nd_kvs (flush_nonempty H nd)"
  have over: "k_overflow_dir ?s = path_join (cf_base_dir (nd_config nd)) ''overflow''" using assms(1) by (simp add: fs)
  obtain fs' where fs': "save_sql_snapshot H (nd_config nd) dbs ?s = ?s\<lparr>k_files := fs'\<rparr>" using save_all_frame by blast
  have "fs' (overflow_path ?s db t k) = k_files ?s (overflow_path ?s db t k)" if "plain_table t" for db t k
    using save_all_overflow [OF that over, of H dbs db k] by (simp add: fs')
  then have "raw_look (?s\<lparr>k_files := fs'\<rparr>) a = raw_look ?s a" by (intro raw_look_files assms(2))
  then show "raw_look (nd_kvs (on_kvs (save_sql_snapshot H (nd_config nd) dbs) (flush_nonempty H nd))) a = raw_look (nd_kvs nd) a"
    using n by (simp add: on_kvs_def fs')
qed

lemma raw_look_disk: "disk s' = disk s \<Longrightarrow> raw_look s' a = raw_look s a"
  by (cases a) (simp add: disk_def raw_look_def get_raw_def raw_table_def overflow_path_def split: option.split)

lemma exec_reads:
  assumes "\<And>d. inv_keeps (\<lambda>s. disk s = d) m"
  shows "raw_look (nd_kvs (snd (node_exec m nd))) a = raw_look (nd_kvs nd) a"
proof -
  have "disk (snd (m (nd_kvs nd))) = disk (nd_kvs nd)" using assms unfolding inv_keeps_def by blast
  from raw_look_disk [OF this] show ?thesis by (simp add: node_exec_def case_prod_unfold Let_def)
qed

lemma step_reads:
  assumes "node_step H nd ops nd'" "hears_nothing H" "unlinks (spill H)" "\<forall>op \<in> set ops. plain_table (op_table op)"
    "plain_addr a"
    "k_overflow_dir (nd_kvs nd) = path_join (cf_base_dir (nd_config nd)) ''overflow''"
  shows "raw_look (nd_kvs nd') a = fold slot_apply (map op_slot ops) (raw_look (nd_kvs nd)) a"
  using assms
proof (induction rule: node_step.induct)
  case (step_query nd n timing db sql params tx)
  then show ?case by (simp add: node_query_def exec_reads query_logs)
next
  case (step_put nd db t k v)
  then show ?case
    using raw_slots.slot_run_refines [of "spill H" "SlotPut (db, t, k) v" a H "nd_kvs nd"]
    by (simp add: node_put_def send_operation_def on_kvs_def op_slot_def raw_addr_def plain_addr_def raw_insert_def
        raw_slots.slot_run.simps)
next
  case (step_remove nd db t k)
  then show ?case
    using raw_slots.slot_run_refines [of "spill H" "SlotRemove (db, t, k)" a H "nd_kvs nd"]
    by (simp add: node_remove_def send_operation_def on_kvs_def op_slot_def raw_addr_def plain_addr_def raw_clear_def
        raw_slots.slot_run.simps)
next
  case (step_datagram nd data)
  then obtain e where "unbin_batch H (take 65536 data) = Inl e" unfolding hears_nothing_def by blast
  then show ?case by (simp add: on_kvs_def receive_datagram_def)
next
  case (step_tick nd dbs)
  have "nd_config (flush_nonempty H nd) = nd_config nd" by (simp add: flush_nonempty_def flush_batch_def)
  then show ?case using loop_reads(3) [of nd a H dbs] step_tick by (simp add: on_tick_def Let_def)
next
  case (step_notified nd dbs)
  let ?nd = "nd\<lparr>nd_permit := False\<rparr>"
  have "nd_config (flush_nonempty H ?nd) = nd_config ?nd" by (simp add: flush_nonempty_def flush_batch_def)
  then show ?case using loop_reads(3) [of ?nd a H dbs] step_notified by (simp add: on_notified_def Let_def)
next
  case (step_receive nd)
  have "raw_look (nd_kvs (flush_batch H (nd\<lparr>nd_queue := rest, nd_batch := b\<rparr>))) a = raw_look (nd_kvs nd) a" for rest b
    using loop_reads(1) [of "nd\<lparr>nd_queue := rest, nd_batch := b\<rparr>" a H] step_receive by simp
  then show ?case by (simp add: on_receive_def Let_def split: list.split)
qed (simp_all add: exec_reads disk.transactions flush_now_def)

lemma run_reads:
  assumes "node_run H nd ops nd'" "hears_nothing H" "unlinks (spill H)" "\<forall>op \<in> set ops. plain_table (op_table op)"
    "plain_addr a"
    "k_overflow_dir (nd_kvs nd) = path_join (cf_base_dir (nd_config nd)) ''overflow''"
  shows "raw_look (nd_kvs nd') a = fold slot_apply (map op_slot ops) (raw_look (nd_kvs nd)) a"
  using assms
proof (induction rule: node_run.induct)
  case (run_more nd ops nd1 ops1 nd2)
  have "raw_look (nd_kvs nd1) a = fold slot_apply (map op_slot ops) (raw_look (nd_kvs nd)) a"
    using run_more by simp
  moreover have "k_overflow_dir (nd_kvs nd1) = path_join (cf_base_dir (nd_config nd1)) ''overflow''"
    using node_overflow.run [OF run_more.hyps(1)] run_config [OF run_more.hyps(1)] run_more.prems by simp
  then have "raw_look (nd_kvs nd2) a = fold slot_apply (map op_slot ops1) (raw_look (nd_kvs nd1)) a"
    using step_reads [OF run_more.hyps(2)] run_more.prems by simp
  ultimately show ?case
    using slot_fold_cong [of "raw_look (nd_kvs nd1)" a "fold slot_apply (map op_slot ops) (raw_look (nd_kvs nd))" "map op_slot ops1"]
    by simp
qed simp

text \<open>C8. Replication converges: once a node has written everything out, a replica that started with the same
  raw reads and has received the datagrams in order reads every key of every plain table as the node
  does, whatever statements, flushes and timer turns came between the puts and removes, and although
  node and replica evict to files differently, and may fail to. (One-way: no datagram reaches the node,
  none is lost, and each batch fits into one; no spill file that exists refuses to be deleted; all
  operations are on plain tables, whose names are single path components.)\<close>

theorem replica_converges:
  assumes run: "node_run H (start_node H order files cfg) ops nd" "nd_queue nd = []" "nd_batch nd = []"
    and env: "unlinks (spill H)" "unlinks (spill R)" "hears_nothing H" "peer_addr H cfg \<noteq> None" "batches_good H R cfg ops"
    and plain: "\<forall>op \<in> set ops. plain_table (op_table op)" "plain_table t"
    and same: "\<And>d t' k'. plain_table t' \<Longrightarrow>
      get_raw p d t' k' = get_raw (nd_kvs (start_node H order files cfg)) d t' k'"
  shows "get_raw (fold (receive_datagram R) (nd_sent nd) p) db t k = get_raw (nd_kvs nd) db t k"
proof -
  let ?s = "start_node H order files cfg" and ?a = "(db, t, k)"
  have a: "plain_addr ?a" using plain(2) by (simp add: plain_addr_def)
  have "fold (receive_datagram R) (nd_sent nd) p = fold (apply_operation R) ops p"
    using run_replicated [OF run(1) env(5,4), of p] run(2,3) by (auto simp: replicated_def)
  then have "raw_look (fold (receive_datagram R) (nd_sent nd) p) ?a = fold slot_apply (map op_slot ops) (raw_look p) ?a"
    using apply_operations_reads [OF env(2) plain(1) a] by simp
  also have "\<dots> = fold slot_apply (map op_slot ops) (raw_look (nd_kvs ?s)) ?a"
    by (rule slot_fold_cong) (simp add: raw_look_def same plain(2))
  also have "\<dots> = raw_look (nd_kvs nd) ?a"
    by (rule run_reads [OF run(1) env(3,1) plain(1) a, symmetric])
      (simp add: start_overflow overflow_dir_join, simp add: start_node_def node_new_def)
  finally show ?thesis by (simp add: raw_look_def)
qed

end
