(* ===== verification/Skvs_Server_Demo.thy ===== *)
theory Skvs_Server_Demo
  imports Skvs_Replication
begin

text \<open>
  Concrete nodes: the witnesses of the properties of nodes, and what the server does not do.
\<close>

section \<open>Witnesses\<close>

text \<open>A node with batches of one, a peer, and one key put.\<close>

definition node_config :: config where
  "node_config = config_default\<lparr>cf_storage := \<lparr>st_base_dir = ''/d''\<rparr>, cf_peer := Some \<lparr>pc_address = ''p''\<rparr>,
     cf_wal := \<lparr>wc_flush_interval_secs = 1, wc_batch_size = 1\<rparr>\<rparr>"

definition node_host :: host where
  "node_host = (plain_host [] [(''kv'', [([1], [2])])] [] [])\<lparr>unbin_batch := \<lambda>_. Inl ''nothing''\<rparr>"

definition put_op :: operation where
  "put_op = \<lparr>op_db_id = 0, op_table = ''kv'', op_op = OpPut [1] [2]\<rparr>"

abbreviation node_start :: node where
  "node_start \<equiv> start_node node_host (\<lambda>x. x) (\<lambda>_. None) node_config"

definition node_after_put :: node where
  "node_after_put = node_put node_host 0 ''kv'' [1] [2] node_start"

lemma node_after_put_run: "node_run node_host node_start [put_op] node_after_put"
  using run_more [OF run_none [of node_host node_start] step_put [of node_host node_start 0 "''kv''" "[1]" "[2]"]]
  by (simp add: node_after_put_def put_op_def)

lemma node_host_ok: "host_ok node_host"
  by (simp add: node_host_def host_ok_def iter_ok_def plain_host_def env.extend_def host.fields_def plain_env_def)

lemma put_op_frame: "frames node_host (filter (\<lambda>op. op_db_id op = 0) [put_op]) = [2, 0, 0, 0, 1, 2]"
  by (simp add: frames_def frame_def put_op_def le_bytes_def node_host_def plain_host_def env.extend_def host.fields_def)

lemma node_start_log: "file_or_empty (nd_kvs node_start) (wal_path node_config 0) = []"
  by code_simp

lemma node_start_simps [simp]:
  "nd_config (start_node H order files cfg) = cfg" "nd_batch (start_node H order files cfg) = []"
  "nd_queue (start_node H order files cfg) = []"
  by (simp_all add: start_node_def node_new_def)

theorem log_is_complete_witness:
  "file_or_empty (nd_kvs node_after_put) (wal_path (nd_config node_start) 0) @
     frames node_host (filter (\<lambda>op. op_db_id op = 0) (nd_batch node_after_put @ nd_queue node_after_put)) =
   [2, 0, 0, 0, 1, 2]"
  using log_is_complete [OF node_host_ok node_after_put_run, of 0] put_op_frame node_start_log by simp

theorem node_state_wf_witness: "state_wf (nd_kvs node_after_put)"
  by (rule node_state_wf [OF node_after_put_run])

theorem batch_bounded_witness: "length (nd_batch node_after_put) < max 1 (cf_batch_size node_config)"
  by (rule batch_bounded [OF node_after_put_run])

theorem restart_loses_nothing_witness:
  "get_raw (nd_kvs (start_node node_host (\<lambda>x. x) (k_files (nd_kvs (on_tick node_host [0] node_after_put))) node_config))
     0 ''kv'' [1] = Some [2]"
proof -
  have "k_dbs (nd_kvs node_after_put) = [0 \<mapsto> []]"
    by (simp add: node_after_put_def node_put_def send_operation_def on_kvs_def start_node_def node_new_def put_raw_def
        remove_overflow_file_def set_raw_table_def Let_def load_sql_snapshot_def configured_def node_config_def
        config_default_def memory_default_def new_with_config_def add_database_def kvs_empty_def load_db_snapshot_def)
  then have "databases (nd_kvs node_after_put) [0]" by (auto simp: databases_def)
  moreover have "dumps_read_back node_host 0 (nd_kvs node_after_put)"
    unfolding dumps_read_back_def reads_back_def by code_simp
  moreover have "configured node_config = [0]" by code_simp
  moreover have "get_raw (nd_kvs node_after_put) 0 ''kv'' [1] = Some [2]" by code_simp
  moreover have "plain_table ''kv''" by (simp add: plain_table_def)
  ultimately show ?thesis
    using restart_loses_nothing [OF node_host_ok _ node_after_put_run, of "[0]" 0, OF _ _ _ _ refl] by simp
qed

theorem loop_drains_witness:
  "nd_queue (take_turns node_host ([Receive] @ [Tick [0]]) node_after_put) = [] \<and>
   file_or_empty (nd_kvs (take_turns node_host ([Receive] @ [Tick [0]]) node_after_put)) (wal_path (nd_config node_after_put) 0) =
     [2, 0, 0, 0, 1, 2]"
proof -
  have "length (nd_queue node_after_put) \<le> count_list [Receive] Receive" by code_simp
  moreover have "file_or_empty (nd_kvs node_after_put) (wal_path (nd_config node_after_put) 0) = []" by code_simp
  moreover have "nd_batch node_after_put @ nd_queue node_after_put = [put_op]" by code_simp
  ultimately show ?thesis
    using loop_drains [OF node_host_ok, of node_after_put "[Receive]" "[0]" 0] put_op_frame by simp
qed

text \<open>The replica decodes what the node sends.\<close>

definition replica_host :: host where
  "replica_host = node_host\<lparr>unbin_batch := \<lambda>_. Inr [put_op]\<rparr>"

definition node_written :: node where
  "node_written = on_receive node_host node_after_put"

lemma node_written_run: "node_run node_host node_start [put_op] node_written"
proof -
  have "loop_starts (nd_config node_after_put)" by code_simp
  moreover have "nd_queue node_after_put \<noteq> []" by code_simp
  ultimately show ?thesis
    using run_more [OF node_after_put_run step_receive] by (simp add: node_written_def)
qed

theorem replica_converges_witness:
  "get_raw (fold (receive_datagram replica_host) (nd_sent node_written) (nd_kvs node_start)) 0 ''kv'' [1] =
   get_raw (nd_kvs node_written) 0 ''kv'' [1]"
proof (rule replica_converges [OF node_written_run])
  have q: "nd_queue node_after_put = [put_op]" "nd_batch node_after_put = []"
    "cf_batch_size (nd_config node_after_put) = 1" by code_simp+
  show "nd_queue node_written = []" "nd_batch node_written = []"
    by (simp_all add: node_written_def on_receive_def q Let_def flush_batch_def)
  show "unlinks (spill node_host)" "unlinks (spill replica_host)"
    by (simp_all add: unlinks_def node_host_def replica_host_def plain_host_def spill_works_def env.extend_def host.fields_def)
  show "hears_nothing node_host" by (simp add: hears_nothing_def node_host_def)
  show "peer_addr node_host node_config \<noteq> None" by code_simp
  show "batches_good node_host replica_host node_config [put_op]"
    unfolding batches_good_def
  proof (intro allI impI)
    fix b :: "operation list"
    assume b: "b \<noteq> [] \<and> length b \<le> max 1 (cf_batch_size node_config) \<and> set b \<subseteq> set [put_op]"
    have "cf_batch_size node_config = 1" by code_simp
    then have "length b = 1" using b by (cases b) auto
    then have "b = [put_op]" using b by (cases b) auto
    then show "good_batch node_host replica_host b"
      by (simp add: good_batch_def node_host_def replica_host_def plain_host_def env.extend_def host.fields_def)
  qed
  show "\<forall>op\<in>set [put_op]. plain_table (op_table op)" by (simp add: put_op_def plain_table_def)
  show "plain_table ''kv''" by (simp add: plain_table_def)
qed simp

section \<open>What the server does not do\<close>

text \<open>A failed initialisation is final: when the configuration cannot be read or parsed, every later call of
  \<open>init\<close>, with whatever path and files, is refused with "Runtime already set", and every other call keeps
  answering as if not initialised.\<close>

theorem failed_init_is_final:
  "(let p = snd (api_init H order (\<lambda>_. Inl ''bad'') files path process_new) in
    fst (api_init H order' toml' files' path' p) = Reason ''Runtime already set'' \<and>
    snd (api_init H order' toml' files' path' p) = p \<and>
    fst (api_put H' db t k v p) = Reason ''Not initialized'')"
  by (simp add: api_init_def process_new_def Let_def load_config_def api_put_def with_node_def split: option.split)

text \<open>Flushing does not reach the channel: an operation put just before \<open>flush\<close> is still in the channel,
  and in no log file, after the loop has taken the flush, if the loop turns to the flush first; what has been
  written is the snapshot of the whole state, raw tables included.\<close>

theorem flush_misses_the_channel:
  "(let nd = on_notified node_host [0] (flush_now node_after_put) in
    nd_queue nd = [put_op] \<and> nd_batch nd = [] \<and> nd_permit nd = False \<and>
    k_files (nd_kvs nd) (wal_path node_config 0) = None \<and>
    k_files (nd_kvs nd) (snapshot_path node_config 0 ''raw.bin'') = bin_raw node_host [(''kv'', [([1], [2])])])"
  by code_simp

text \<open>A key put under a database id the configuration does not list is accepted, but lost at a restart: the
  snapshot goes through the databases with SQL tables only.\<close>

theorem unconfigured_database_is_lost:
  "(let nd = node_put node_host 7 ''kv'' [1] [2] node_start;
        files = k_files (nd_kvs (on_tick node_host [0] nd)) in
    get_raw (nd_kvs nd) 7 ''kv'' [1] = Some [2] \<and> databases (nd_kvs nd) [0] \<and>
    files (snapshot_path node_config 7 ''raw.bin'') = None \<and>
    get_raw (nd_kvs (start_node node_host (\<lambda>x. x) files node_config)) 7 ''kv'' [1] = None)"
proof -
  let ?nd = "node_put node_host 7 ''kv'' [1] [2] node_start"
  have "k_dbs (nd_kvs ?nd) = [0 \<mapsto> []]"
    by (simp add: node_put_def send_operation_def on_kvs_def start_node_def node_new_def put_raw_def
        remove_overflow_file_def set_raw_table_def Let_def load_sql_snapshot_def configured_def node_config_def
        config_default_def memory_default_def new_with_config_def add_database_def kvs_empty_def load_db_snapshot_def)
  then have d: "databases (nd_kvs ?nd) [0]" by (auto simp: databases_def)
  have "get_raw (nd_kvs ?nd) 7 ''kv'' [1] = Some [2]" by code_simp
  moreover have "k_files (nd_kvs (on_tick node_host [0] ?nd)) (snapshot_path node_config 7 ''raw.bin'') = None"
    by code_simp
  moreover have "get_raw (nd_kvs (start_node node_host (\<lambda>x. x)
      (k_files (nd_kvs (on_tick node_host [0] ?nd))) node_config)) 7 ''kv'' [1] = None"
    by code_simp
  ultimately show ?thesis using d by (simp add: Let_def)
qed

text \<open>With a flush interval of 0 nothing is ever logged, replicated or saved: the loop panics before its first
  turn, and every accepted operation stays in the channel for good.\<close>

theorem zero_interval_logs_nothing:
  assumes "node_run H (start_node H order files cfg) ops nd" "wc_flush_interval_secs (cf_wal cfg) = 0"
  shows "nd_queue nd = ops \<and> nd_batch nd = [] \<and> nd_sent nd = []"
proof -
  let ?P = "\<lambda>ops nd. nd_queue nd = ops \<and> nd_batch nd = [] \<and> nd_sent nd = []"
  have step: "?P (ops @ ops1) nd'"
    if "node_step H nd ops1 nd'" "\<not> loop_starts (nd_config nd)" "?P ops nd" for nd ops ops1 nd'
    using that
    by (induction rule: node_step.induct)
      (auto simp: node_query_def node_exec_def node_put_def node_remove_def send_operation_def on_kvs_def flush_now_def
        split: prod.split)
  have "node_run H nd0 ops nd \<Longrightarrow> \<not> loop_starts (nd_config nd0) \<Longrightarrow> ?P [] nd0 \<Longrightarrow> ?P ops nd" for nd0
  proof (induction rule: node_run.induct)
    case (run_more nd ops nd1 ops1 nd2)
    then have "?P ops nd1" "\<not> loop_starts (nd_config nd1)" using run_config [OF run_more.hyps(1)] by simp_all
    then show ?case using step run_more.hyps(2) by blast
  qed simp
  from this [OF assms(1)] show ?thesis using assms(2) by (simp add: start_node_def node_new_def loop_starts_def)
qed

theorem zero_interval_logs_nothing_witness:
  "let cfg = node_config\<lparr>cf_wal := \<lparr>wc_flush_interval_secs = 0, wc_batch_size = 1\<rparr>\<rparr>;
       nd = node_put node_host 0 ''kv'' [1] [2] (start_node node_host (\<lambda>x. x) (\<lambda>_. None) cfg)
   in nd_queue nd = [put_op]"
proof -
  let ?cfg = "node_config\<lparr>cf_wal := \<lparr>wc_flush_interval_secs = 0, wc_batch_size = 1\<rparr>\<rparr>"
  let ?s = "start_node node_host (\<lambda>x. x) (\<lambda>_. None) ?cfg"
  have "node_run node_host ?s ([] @ [put_op]) (node_put node_host 0 ''kv'' [1] [2] ?s)"
    using run_more [OF run_none step_put] unfolding put_op_def by blast
  then show ?thesis using zero_interval_logs_nothing [of node_host "\<lambda>x. x" "\<lambda>_. None" ?cfg] by (simp add: Let_def)
qed

section \<open>Parameters and results\<close>

text \<open>Between the two crossings of napi: the JSON value of a result's cell, taken as a parameter, gives the
  cell's value, for NULL, every 64-bit integer, every text and every real that is a number; a blob
  gives the text of its base64 form. What JavaScript's numbers keep of it is napi's.\<close>

theorem result_as_parameter:
  "param_value c (value_to_json c v) =
     (case v of VBlob b \<Rightarrow> VText (base64_encode c b)
      | VReal f \<Rightarrow> (if f64_fin f = None then VNull else v)
      | _ \<Rightarrow> v)"
proof (cases v)
  case (VInteger i)
  have "uint i < 2 ^ 63" if "0 \<le> sint i"
  proof -
    have lt: "sint i < 2 ^ 63" using sint_less [of i] by simp
    have "uint i = take_bit 64 (sint i)" by (simp add: uint_sint)
    also have "\<dots> = sint i" using that lt by (simp add: take_bit_int_eq_self)
    finally show ?thesis using lt by simp
  qed
  then show ?thesis by (auto simp: VInteger param_value_def number_of_i64_def)
qed (auto simp: param_value_def number_from_f64_def)

end
