(* ===== verification/Skvs_Virtual.thy ===== *)
theory Skvs_Virtual
  imports Skvs_State
begin

text \<open>
  The registry of \<^verbatim>\<open>src/src/virtual_table.rs\<close>, with the constraint type its trait passes to
  \<open>select\<close>. The tables themselves are trait objects without an implementation in the program:
  their type is the parameter \<open>'t\<close>. No statement reads the registry.
\<close>

datatype constraint_operator =
    VtEq | VtNeq | VtLt | VtLte | VtGt | VtGte | VtLike | VtGlob | VtMatch

record vt_constraint =
  vc_column :: string
  vc_operator :: constraint_operator
  vc_value :: skvs_value

type_synonym 't registry = "(string \<times> 't) list"

definition registry_new :: "'t registry" where
  "registry_new = []"

definition registry_register :: "string \<Rightarrow> 't \<Rightarrow> ('t registry, unit) exec" where
  "registry_register name table reg =
     (if contains_key reg name
      then (Fail (ESchema (''Virtual table '' @ name @ '' already exists'')), reg)
      else (Done (), AList.update name table reg))"

definition registry_get :: "'t registry \<Rightarrow> string \<Rightarrow> 't option" where
  "registry_get reg name = map_of reg name"

definition registry_remove :: "string \<Rightarrow> 't registry \<Rightarrow> 't option \<times> 't registry" where
  "registry_remove name reg = (map_of reg name, AList.delete name reg)"

text \<open>A registered table is the one found, until it is removed; a name is taken at most once.\<close>

lemma registry_get_register:
  "registry_register n t reg = (Done (), reg') \<Longrightarrow>
   registry_get reg n = None \<and> registry_get reg' m = (if m = n then Some t else registry_get reg m)"
  by (auto simp: registry_register_def registry_get_def contains_key_def split: if_splits)

lemma registry_get_remove:
  "registry_get (snd (registry_remove n reg)) m = (if m = n then None else registry_get reg m)"
  by (simp add: registry_remove_def registry_get_def)

end
