(* ===== verification/Spec2Isabelle.thy ===== *)
theory Spec2Isabelle
  imports Skvs_Distinct Skvs_Left_Join Skvs_Undo Skvs_Query Skvs_Alter Skvs_Checks Skvs_Returns Skvs_Scalar Skvs_Groups Skvs_Fts_Rank Skvs_Server_Demo Skvs_Virtual
begin

text \<open>
  A model of skvs, a native Node.js module written in Rust: SQL databases and raw key-value tables
  held in memory, snapshots on disk, an operation log, and replication to one peer over UDP.

  \<^bold>\<open>The program and its parts.\<close> The exported calls (\<^verbatim>\<open>src/src/lib.rs\<close>) work on one shared state
  (\<^verbatim>\<open>src/src/state.rs\<close>). \<open>query\<close> parses a statement and runs it (\<^verbatim>\<open>src/src/sql/mod.rs\<close>): SELECT
  (\<^verbatim>\<open>sql/select.rs\<close>), row statements (\<^verbatim>\<open>sql/dml.rs\<close>) with constraints (\<^verbatim>\<open>constraint.rs\<close>), triggers
  (\<^verbatim>\<open>trigger.rs\<close>), secondary indexes (\<^verbatim>\<open>index.rs\<close>), full-text indexes (\<^verbatim>\<open>fts.rs\<close>) and an undo
  journal (\<^verbatim>\<open>transaction.rs\<close>), and schema statements (\<^verbatim>\<open>sql/ddl.rs\<close>, \<^verbatim>\<open>view.rs\<close>). Expressions
  (\<^verbatim>\<open>expr.rs\<close>, \<^verbatim>\<open>json.rs\<close>) work on values (\<^verbatim>\<open>schema.rs\<close>). \<open>put\<close> and \<open>remove\<close> change a raw table,
  which spills to files beyond a limit, and hand the operation to a background loop
  (\<^verbatim>\<open>wal.rs\<close>) that appends it to a log, sends it to the peer (\<^verbatim>\<open>replication.rs\<close>) and saves
  snapshots on a timer. A start loads the snapshots; the log is written and never read.

  \<^bold>\<open>Theories of the model\<close>, in the order of their imports:
  \<^item> \<open>Skvs_Prelude\<close>: errors (\<^verbatim>\<open>error.rs\<close>), results (\<open>outcome\<close>: \<open>Done\<close>, \<open>Fail\<close>, \<open>Panic\<close>, \<open>NoFuel\<close>),
    state-passing computations (\<open>exec\<close>), insertion-ordered maps, text helpers. \<open>Skvs_Float\<close>: \<open>f64\<close>.
  \<^item> \<open>Skvs_Schema\<close>: values and schema records. \<open>Skvs_Ast\<close>: the syntax trees of the parser crate, and
    the record \<open>env\<close> of what is outside the program.
  \<^item> \<open>Skvs_State\<close>, \<open>Skvs_BTree\<close>, \<open>Skvs_Index\<close>, \<open>Skvs_Fts\<close>, \<open>Skvs_Fts_Rank\<close>, \<open>Skvs_Txn\<close>, \<open>Skvs_Virtual\<close>: the
    shared state and the structures in it.
  \<^item> \<open>Skvs_Json\<close>, \<open>Skvs_Expr\<close>, \<open>Skvs_Where\<close>: expressions and conditions.
  \<^item> \<open>Skvs_Fetch\<close>, \<open>Skvs_Join\<close>, \<open>Skvs_Aggregate\<close>, \<open>Skvs_Select\<close>: SELECT, by its stages.
  \<^item> \<open>Skvs_Constraint\<close>, \<open>Skvs_Dml\<close>, \<open>Skvs_Ddl\<close>, \<open>Skvs_Engine\<close>: the other statements and the dispatcher.
  \<^item> \<open>Skvs_Config\<close>, \<open>Skvs_Wal\<close>, \<open>Skvs_Snapshot\<close>, \<open>Skvs_Server\<close>: configuration, log and replication,
    snapshots, and the node: its loop has one function per branch of \<open>select!\<close>, and the step
    relation \<open>node_step\<close> interleaves API calls, datagrams and turns of the loop.

  Each function of the source is a definition named after it (with \<open>api_\<close>, \<open>node_\<close> or \<open>txn_\<close> in front
  where names clash), its state an argument and a result; a raised error is \<open>Fail\<close>, a panic \<open>Panic\<close>,
  and the writes made before either stay in the state, as in the program. \<open>Arc\<close>-shared row stores are
  references into a heap.

  \<^bold>\<open>Theories of properties\<close> and what their lemmas show:
  \<^item> \<open>Skvs_Expr_Facts\<close>, \<open>Skvs_Scalar\<close>: evaluation returns, counts placeholders, \<open>LIKE\<close> is pattern
    matching, integer arithmetic is exact within 53 bits, \<open>json_set\<close> and \<open>json_extract\<close> agree.
  \<^item> \<open>Skvs_Paths\<close>, \<open>Skvs_Hash_Join\<close>, \<open>Skvs_Groups\<close>, \<open>Skvs_Order\<close>: the access paths and the hash join
    select what a scan and a nested loop select, GROUP BY partitions, aggregates summarise, ORDER
    BY sorts.
  \<^item> \<open>Skvs_Journal\<close>, \<open>Skvs_Atomicity\<close>: the journal is faithful through triggers of any depth, so
    failed statements and rolled back transactions leave every row as it was (where trigger bodies
    hold row statements only), and a panic leaves a transaction that could still be rolled back.
  \<^item> \<open>Skvs_Rows\<close>, \<open>Skvs_Keys\<close>, \<open>Skvs_Checks\<close>, \<open>Skvs_Alter\<close>: a row statement is a sequence of row
    changes; its effect on the rows; what it keeps of keys, constraints, columns and indexes;
    ALTER TABLE and CREATE INDEX.
  \<^item> \<open>Skvs_Undo\<close>: a rollback takes index entries and full-text documents back with the rows.
  \<^item> \<open>Skvs_Query\<close>, \<open>Skvs_Distinct\<close>, \<open>Skvs_Left_Join\<close>: a SELECT of one table returns the matching rows, each
    once; DISTINCT keeps the first of each row; LEFT JOIN keeps the left rows.
  \<^item> \<open>Skvs_Returns\<close>: statements return when views and triggers are acyclic.
  \<^item> \<open>Skvs_Invariant\<close>, \<open>Skvs_Raw\<close>: well-formedness of the state under every statement; the raw tables
    with their files are a map, up to files that refuse to be deleted.
  \<^item> \<open>Skvs_Databases\<close>, \<open>Skvs_Restart\<close>, \<open>Skvs_Recovery\<close>: what is saved is what a start loads; a
    save is all or nothing for each file; a table file that does not decode costs the database.
  \<^item> \<open>Skvs_Node\<close>, \<open>Skvs_Replication\<close>, \<open>Skvs_Server_Demo\<close>: invariants of a running node, the log holds
    every accepted operation, a replica converges.

  Interfaces are locales: \<open>keyed_order\<close> (a comparison that is the order of a key), \<open>slot_store\<close> (a
  store that reads what was written), \<open>row_runner\<close> and \<open>body_runner\<close> (what handlers need of the runner
  of trigger bodies), \<open>write_closed\<close> and its extension \<open>node_closed\<close> (a property closed under the
  primitive writes). Each is interpreted on the model's operations.

  \<^bold>\<open>Recursion bounds.\<close> Views and trigger bodies are stored text that is parsed and run again, and the
  program recurses there without a bound, as it accepts a view on itself. The model counts that
  depth (\<open>n\<close> of \<open>execute_select\<close>, \<open>execute_single_statement\<close>, \<open>execute\<close>) and answers \<open>NoFuel\<close> where
  the program would recurse deeper. \<open>row_statements_return\<close> gives a bound that is enough: the rank of
  the statement's table along the triggers plus that of the views. The atomicity, invariant and node
  properties hold for every bound.

  \<^bold>\<open>Conventions.\<close> Integers are words of their width and wrap as in a release build; row counters are
  naturals, with the bound of 64 bits a hypothesis where it matters. Texts are lists of characters
  that stand for bytes (ASCII): lengths and positions are counted in them. Paths are compared as
  texts. Calls of the API, datagrams and turns of the loop are atomic steps: JavaScript runs the calls
  one at a time on its thread, and the maps they share with the loop are locked per access.

  \<^bold>\<open>Parameters\<close> (records \<open>env\<close> and \<open>host\<close>, and arguments): parsing and printing of SQL (sqlparser)
  and JSON (serde_json), bincode, TOML and base64, the answers of the file system (every
  write, renaming and removal may fail, a failed write leaving anything; \<open>host\<close>, \<open>spill_fs\<close>) and of the
  network, the iteration order of hash maps, the clock of a query, the logarithm of the ranked search,
  napi's conversions between JavaScript values and JSON (arguments of \<open>api_query\<close>; JavaScript's numbers
  are doubles, and no property claims that a value survives the crossing). Reading a file that is
  there succeeds. What a property relies on there is a named hypothesis (\<open>iter_ok\<close>, \<open>host_ok\<close>, \<open>reads_back\<close>, \<open>unlinks\<close>).

  \<^bold>\<open>Not modelled.\<close> The build script; locks and threads below the granularity above (so no data races or
  deadlocks); binding of sockets; messages on standard error; the conversion of the calls' other
  arguments by napi; the trait \<open>VirtualTable\<close>, which nothing implements; the conversions of library errors to text;
  the unit tests.
\<close>

end
